(* ===== verification/Prelude.thy ===== *)
theory Prelude
  imports Main "HOL-Library.AList"
begin

text \<open>
  Shared vocabulary of the development: results of fallible JavaScript code, the
  insertion-ordered \<open>Map\<close> and \<open>Set\<close> of the language, array reads, safe integers, and the
  decimal text of an integer. Text operations are in \<open>JsText\<close>.
\<close>

named_theorems result_simps \<open>how results of fallible steps decompose\<close>
named_theorems js_defs \<open>definitions of the language operations used by the sources\<close>

subsection \<open>Results\<close>

text \<open>A plain \<open>throw new Error(message)\<close>; the holes of a template message are left out.\<close>

datatype js_error = JsError string

type_synonym ('e, 'a) result = "'e + 'a"

definition bindR :: "('e, 'a) result \<Rightarrow> ('a \<Rightarrow> ('e, 'b) result) \<Rightarrow> ('e, 'b) result" where
  "bindR r f = (case r of Inl e \<Rightarrow> Inl e | Inr x \<Rightarrow> f x)"

definition throw_if :: "bool \<Rightarrow> 'e \<Rightarrow> ('e, 'a) result \<Rightarrow> ('e, 'a) result" where
  "throw_if c e k = (if c then Inl e else k)"

definition mapError :: "('e \<Rightarrow> 'f) \<Rightarrow> ('e, 'a) result \<Rightarrow> ('f, 'a) result" where
  "mapError g r = (case r of Inl e \<Rightarrow> Inl (g e) | Inr x \<Rightarrow> Inr x)"

definition is_ok :: "('e, 'a) result \<Rightarrow> bool" where
  "is_ok r = (case r of Inl _ \<Rightarrow> False | Inr _ \<Rightarrow> True)"

lemma bindR_simps [simp]:
  "bindR (Inl e) f = Inl e"
  "bindR (Inr x) f = f x"
  by (simp_all add: bindR_def)

lemma bindR_Inr [result_simps]: "bindR r f = Inr y \<longleftrightarrow> (\<exists>x. r = Inr x \<and> f x = Inr y)"
  by (cases r) simp_all

lemma bindR_assoc: "bindR (bindR r f) g = bindR r (\<lambda>x. bindR (f x) g)"
  by (cases r) simp_all

lemma bindR_cong [fundef_cong]:
  "r = r' \<Longrightarrow> (\<And>x. r' = Inr x \<Longrightarrow> f x = f' x) \<Longrightarrow> bindR r f = bindR r' f'"
  by (cases r') simp_all

lemma bindR_Inl [result_simps]:
  "bindR r f = Inl e \<longleftrightarrow> r = Inl e \<or> (\<exists>x. r = Inr x \<and> f x = Inl e)"
  by (cases r) simp_all

lemma throw_if_simps [simp]:
  "throw_if True e k = Inl e"
  "throw_if False e k = k"
  by (simp_all add: throw_if_def)

lemma throw_if_Inr [result_simps]: "throw_if c e k = Inr y \<longleftrightarrow> \<not> c \<and> k = Inr y"
  by (simp add: throw_if_def)

lemma throw_if_Inl [result_simps]: "throw_if c e k = Inl f \<longleftrightarrow> (c \<and> e = f) \<or> (\<not> c \<and> k = Inl f)"
  by (auto simp: throw_if_def)

lemma mapError_Inr [result_simps]: "mapError g r = Inr y \<longleftrightarrow> r = Inr y"
  by (cases r) (simp_all add: mapError_def)

lemma mapError_simps [simp]:
  "mapError g (Inl e) = Inl (g e)"
  "mapError g (Inr x) = Inr x"
  by (simp_all add: mapError_def)

lemma is_ok_simps [simp]: "is_ok (Inr x)" "\<not> is_ok (Inl e)"
  by (simp_all add: is_ok_def)

lemma is_ok_iff: "is_ok r \<longleftrightarrow> (\<exists>x. r = Inr x)"
  by (cases r) simp_all

lemma is_ok_bindR [result_simps]: "is_ok (bindR r f) \<longleftrightarrow> (\<exists>x. r = Inr x \<and> is_ok (f x))"
  by (cases r) simp_all

lemma is_ok_throw_if [result_simps]: "is_ok (throw_if c e k) \<longleftrightarrow> \<not> c \<and> is_ok k"
  by (simp add: throw_if_def)

text \<open>A loop whose body may throw: the first failure ends it.\<close>

fun foldR :: "('s \<Rightarrow> 'a \<Rightarrow> ('e, 's) result) \<Rightarrow> 's \<Rightarrow> 'a list \<Rightarrow> ('e, 's) result" where
  "foldR f s [] = Inr s"
| "foldR f s (x # xs) = bindR (f s x) (\<lambda>s'. foldR f s' xs)"

fun mapR :: "('a \<Rightarrow> ('e, 'b) result) \<Rightarrow> 'a list \<Rightarrow> ('e, 'b list) result" where
  "mapR f [] = Inr []"
| "mapR f (x # xs) = bindR (f x) (\<lambda>y. bindR (mapR f xs) (\<lambda>ys. Inr (y # ys)))"

fun allR :: "('a \<Rightarrow> ('e, unit) result) \<Rightarrow> 'a list \<Rightarrow> ('e, unit) result" where
  "allR f [] = Inr ()"
| "allR f (x # xs) = bindR (f x) (\<lambda>_. allR f xs)"

lemma foldR_append: "foldR f s (xs @ ys) = bindR (foldR f s xs) (\<lambda>s'. foldR f s' ys)"
proof (induction xs arbitrary: s)
  case (Cons x xs)
  then show ?case by (cases "f s x") simp_all
qed simp

lemma foldR_snoc: "foldR f s (xs @ [x]) = bindR (foldR f s xs) (\<lambda>s'. f s' x)"
proof -
  have "foldR f s' [x] = f s' x" for s' by (cases "f s' x") simp_all
  then show ?thesis by (simp add: foldR_append)
qed

lemma foldR_prefix: "foldR f s (xs @ ys) = Inr t \<Longrightarrow> \<exists>u. foldR f s xs = Inr u"
  by (auto simp: foldR_append result_simps)

text \<open>When whether a step throws does not depend on the state, neither does it for the loop.\<close>

lemma foldR_is_ok:
  assumes "\<And>s x. is_ok (f s x) \<longleftrightarrow> P x"
  shows "is_ok (foldR f s xs) \<longleftrightarrow> (\<forall>x \<in> set xs. P x)"
proof (induction xs arbitrary: s)
  case (Cons x xs)
  show ?case
  proof (cases "f s x")
    case (Inl e)
    with assms [of s x] show ?thesis by simp
  next
    case (Inr t)
    with assms [of s x] Cons.IH [of t] show ?thesis by simp
  qed
qed simp

lemma mapR_length: "mapR f xs = Inr ys \<Longrightarrow> length ys = length xs"
  by (induction xs arbitrary: ys) (auto simp: result_simps)

lemma mapR_nth: "mapR f xs = Inr ys \<Longrightarrow> i < length xs \<Longrightarrow> f (xs ! i) = Inr (ys ! i)"
proof (induction xs arbitrary: ys i)
  case (Cons x xs)
  then show ?case by (cases i) (auto simp: result_simps)
qed simp

lemma mapR_Inr_set: "mapR f xs = Inr ys \<Longrightarrow> y \<in> set ys \<Longrightarrow> \<exists>x \<in> set xs. f x = Inr y"
  by (induction xs arbitrary: ys) (auto simp: result_simps)

lemma mapR_id: "(\<And>x. x \<in> set xs \<Longrightarrow> f x = Inr (g x)) \<Longrightarrow> mapR f xs = Inr (map g xs)"
  by (induction xs) simp_all

lemma allR_Inr [result_simps]: "allR f xs = Inr u \<longleftrightarrow> (\<forall>x \<in> set xs. f x = Inr ())"
  by (induction xs) (auto simp: result_simps)

lemma option_unit_cases: "(r :: ('e, unit) result) \<noteq> Inr () \<Longrightarrow> \<exists>e. r = Inl e"
  by (cases r) auto

text \<open>Operations on a state that may throw: the state reached so far is kept with the error.\<close>

definition bindS ::
    "('s \<Rightarrow> 's \<times> ('e, 'a) result) \<Rightarrow> ('a \<Rightarrow> 's \<Rightarrow> 's \<times> ('e, 'b) result) \<Rightarrow> 's \<Rightarrow> 's \<times> ('e, 'b) result" where
  "bindS m f s = (case m s of (s', Inl e) \<Rightarrow> (s', Inl e) | (s', Inr x) \<Rightarrow> f x s')"

definition liftS :: "('e, 'a) result \<Rightarrow> 's \<Rightarrow> 's \<times> ('e, 'a) result" where
  "liftS r s = (s, r)"

lemma bindS_simps [simp]:
  "m s = (s', Inl e) \<Longrightarrow> bindS m f s = (s', Inl e)"
  "m s = (s', Inr x) \<Longrightarrow> bindS m f s = f x s'"
  by (simp_all add: bindS_def)

lemma bindS_liftS [simp]:
  "bindS (liftS (Inl e)) f s = (s, Inl e)"
  "bindS (liftS (Inr x)) f s = f x s"
  by (simp_all add: bindS_def liftS_def)

text \<open>Invariants through sequencing.\<close>

lemma bindS_inv:
  assumes "P s" and "\<And>s' r. P s \<Longrightarrow> m s = (s', r) \<Longrightarrow> P s'"
    and "\<And>s' x. P s' \<Longrightarrow> m s = (s', Inr x) \<Longrightarrow> P (fst (f x s'))"
  shows "P (fst (bindS m f s))"
  using assms by (cases "m s"; cases "snd (m s)") (auto simp: bindS_def)

subsection \<open>Insertion-ordered maps and sets\<close>

text \<open>
  A JavaScript \<open>Map\<close> keeps its entries in the order of their first insertion: \<open>set\<close> on
  a present key replaces the value in place, on a fresh key it appends. This is
  \<open>AList.update\<close> on an association list with distinct keys.
\<close>

type_synonym ('k, 'v) jsmap = "('k \<times> 'v) list"

abbreviation map_get :: "('k, 'v) jsmap \<Rightarrow> 'k \<Rightarrow> 'v option" where
  "map_get m k \<equiv> map_of m k"

abbreviation map_set :: "'k \<Rightarrow> 'v \<Rightarrow> ('k, 'v) jsmap \<Rightarrow> ('k, 'v) jsmap" where
  "map_set k v m \<equiv> AList.update k v m"

abbreviation map_has :: "('k, 'v) jsmap \<Rightarrow> 'k \<Rightarrow> bool" where
  "map_has m k \<equiv> map_of m k \<noteq> None"

abbreviation map_values :: "('k, 'v) jsmap \<Rightarrow> 'v list" where
  "map_values m \<equiv> map snd m"

abbreviation map_delete :: "'k \<Rightarrow> ('k, 'v) jsmap \<Rightarrow> ('k, 'v) jsmap" where
  "map_delete k m \<equiv> AList.delete k m"

definition map_ok :: "('k, 'v) jsmap \<Rightarrow> bool" where
  "map_ok m \<longleftrightarrow> distinct (map fst m)"

lemma map_ok_Nil [simp]: "map_ok []"
  by (simp add: map_ok_def)

lemma map_ok_set [simp]: "map_ok m \<Longrightarrow> map_ok (map_set k v m)"
  by (simp add: map_ok_def distinct_update)

lemma map_of_update [simp]: "map_of (AList.update k v m) = (map_of m)(k \<mapsto> v)"
  by (rule update_conv')

lemma map_set_fresh: "map_of m k = None \<Longrightarrow> map_set k v m = m @ [(k, v)]"
  by (induction m) (auto split: if_splits)

lemma length_map_set: "length (map_set k v m) = (if map_has m k then length m else Suc (length m))"
  by (induction m) auto

lemma map_get_values: "map_get m k = Some v \<Longrightarrow> v \<in> set (map_values m)"
  by (force dest: map_of_SomeD)

lemma map_values_get:
  assumes "map_ok m" and "(k, v) \<in> set m"
  shows "map_get m k = Some v"
  using assms by (simp add: map_ok_def)

lemma map_values_set:
  "map_ok m \<Longrightarrow> v \<in> set (map_values m) \<longleftrightarrow> (\<exists>k. map_get m k = Some v)"
  by (force simp: map_ok_def)

lemma set_map_set_subset: "set (map_set k v m) \<subseteq> insert (k, v) (set m)"
  by (induction m) auto

lemma set_map_set:
  "map_ok m \<Longrightarrow> set (map_set k v m) = insert (k, v) {p \<in> set m. fst p \<noteq> k}"
  unfolding map_ok_def
proof (induction m)
  case (Cons p m)
  then show ?case by (cases p) (force simp: image_iff)
qed simp

lemma map_ok_delete [simp]: "map_ok m \<Longrightarrow> map_ok (map_delete k m)"
  by (simp add: map_ok_def distinct_delete)

lemma set_map_delete: "p \<in> set (map_delete k m) \<longleftrightarrow> p \<in> set m \<and> fst p \<noteq> k"
  by (auto simp: AList.delete_eq)

text \<open>Replacing the value of a present key keeps the place of the entry.\<close>

lemma map_values_replace:
  "map_get m k = Some old \<Longrightarrow> f v = f old \<Longrightarrow> map f (map_values (map_set k v m)) = map f (map_values m)"
  by (induction m) (auto split: if_splits)

lemma count_values_replace:
  "map_get m k = Some old \<Longrightarrow>
   int (length (filter P (map_values (map_set k v m)))) =
     int (length (filter P (map_values m))) - (if P old then 1 else 0) + (if P v then 1 else 0)"
  by (induction m) (auto split: if_splits)

text \<open>Values that an index resolves to their own key differ in the indexed field.\<close>

lemma indexed_distinct:
  assumes "map_ok ms" and "\<forall>k m. (k, m) \<in> set ms \<longrightarrow> map_get index (f m) = Some k"
  shows "distinct (map f (map_values ms))"
proof -
  have "inj_on (\<lambda>p. f (snd p)) (set ms)"
  proof (rule inj_onI)
    fix p q assume p: "p \<in> set ms" and q: "q \<in> set ms" and same: "f (snd p) = f (snd q)"
    have "fst p = fst q" using assms(2) p q same by (metis option.inject prod.collapse)
    moreover have "map_get ms (fst p) = Some (snd p)" "map_get ms (fst q) = Some (snd q)"
      using assms(1) p q by (auto intro: map_values_get)
    ultimately show "p = q" by (simp add: prod_eq_iff)
  qed
  moreover have "distinct ms" using assms(1) by (simp add: map_ok_def distinct_map)
  ultimately show ?thesis by (simp add: distinct_map comp_def)
qed

text \<open>The size of \<open>new Set(values)\<close>, and the values in the order of first insertion.\<close>

definition set_size :: "'a list \<Rightarrow> nat" where
  "set_size xs = length (remdups xs)"

definition js_set :: "'a list \<Rightarrow> 'a list" where
  "js_set xs = rev (remdups (rev xs))"

lemma set_size_distinct [simp]: "set_size xs = length xs \<longleftrightarrow> distinct xs"
  by (simp add: set_size_def)

lemma set_size_neq [simp]: "length xs \<noteq> set_size xs \<longleftrightarrow> \<not> distinct xs"
  by (metis set_size_distinct)

lemma js_set_set [simp]: "set (js_set xs) = set xs"
  by (simp add: js_set_def)

lemma js_set_distinct [simp]: "distinct (js_set xs)"
  by (simp add: js_set_def)

lemma js_set_id: "distinct xs \<Longrightarrow> js_set xs = xs"
  by (simp add: js_set_def distinct_remdups_id)

lemma js_set_length: "length (js_set xs) = length xs \<longleftrightarrow> distinct xs"
  by (auto simp: js_set_def length_remdups_card_conv distinct_card intro: card_distinct)

subsection \<open>Arrays\<close>

text \<open>Reading an array element: \<open>undefined\<close> out of range.\<close>

definition array_at :: "'a list \<Rightarrow> int \<Rightarrow> 'a option" where
  "array_at xs i = (if 0 \<le> i \<and> i < int (length xs) then Some (xs ! nat i) else None)"

definition array_last :: "'a list \<Rightarrow> 'a option" where
  "array_last xs = (if xs = [] then None else Some (last xs))"

fun index_of_from :: "nat \<Rightarrow> 'a list \<Rightarrow> 'a \<Rightarrow> nat option" where
  "index_of_from n [] y = None"
| "index_of_from n (x # xs) y = (if x = y then Some n else index_of_from (Suc n) xs y)"

text \<open>\<open>xs.indexOf(y)\<close>, with \<open>None\<close> for the result -1.\<close>

definition index_of :: "'a list \<Rightarrow> 'a \<Rightarrow> nat option" where
  "index_of xs y = index_of_from 0 xs y"

lemma index_of_from_Some:
  "index_of_from n xs y = Some i \<Longrightarrow> n \<le> i \<and> i < n + length xs \<and> xs ! (i - n) = y"
proof (induction xs arbitrary: n)
  case (Cons x xs)
  show ?case
  proof (cases "x = y")
    case False
    with Cons.IH [of "Suc n"] Cons.prems
    have "Suc n \<le> i \<and> i < Suc n + length xs \<and> xs ! (i - Suc n) = y" by simp
    moreover from this have "i - n = Suc (i - Suc n)" by arith
    ultimately show ?thesis by simp
  next
    case True
    with Cons.prems show ?thesis by auto
  qed
qed simp

lemma index_of_Some: "index_of xs y = Some i \<Longrightarrow> i < length xs \<and> xs ! i = y"
  unfolding index_of_def using index_of_from_Some [of 0 xs y i] by simp

lemma index_of_from_None: "index_of_from n xs y = None \<longleftrightarrow> y \<notin> set xs"
  by (induction xs arbitrary: n) auto

lemma index_of_None [simp]: "index_of xs y = None \<longleftrightarrow> y \<notin> set xs"
  by (simp add: index_of_def index_of_from_None)

lemma array_at_nat: "array_at xs (int n) = (if n < length xs then Some (xs ! n) else None)"
  by (simp add: array_at_def)

lemma array_at_Some: "array_at xs i = Some x \<Longrightarrow> x \<in> set xs"
  by (auto simp: array_at_def split: if_splits)

lemma array_at_append: "array_at xs i = Some x \<Longrightarrow> array_at (xs @ ys) i = Some x"
  by (auto simp: array_at_def nth_append split: if_splits)

text \<open>Counting up by one.\<close>

lemma upto_snoc: "0 \<le> k \<Longrightarrow> [1..k] @ [k + 1] = [1..k + 1 :: int]"
  using upto_rec2 [of 1 "k + 1"] by simp

subsection \<open>Integers of a binary64 number\<close>

definition max_safe :: int where
  "max_safe = 9007199254740991"

definition is_safe :: "int \<Rightarrow> bool" where
  "is_safe n \<longleftrightarrow> \<bar>n\<bar> \<le> max_safe"

definition is_event_seq :: "int \<Rightarrow> bool" where
  "is_event_seq n \<longleftrightarrow> is_safe n \<and> 0 \<le> n"

subsection \<open>Decimal text of an integer\<close>

fun show_nat :: "nat \<Rightarrow> string" where
  "show_nat n = (if n < 10 then [char_of (48 + n)] else show_nat (n div 10) @ [char_of (48 + n mod 10)])"

declare show_nat.simps [simp del]

definition show_int :: "int \<Rightarrow> string" where
  "show_int n = (if n < 0 then ''-'' @ show_nat (nat (- n)) else show_nat (nat n))"

fun read_nat :: "nat \<Rightarrow> string \<Rightarrow> nat" where
  "read_nat acc [] = acc"
| "read_nat acc (c # cs) = read_nat (10 * acc + (of_char c - 48)) cs"

lemma read_nat_snoc: "read_nat acc (cs @ [c]) = 10 * read_nat acc cs + (of_char c - 48)"
  by (induction acc cs rule: read_nat.induct) simp_all

lemma of_char_digit: "d < 10 \<Longrightarrow> of_char (char_of (48 + d :: nat)) = (48 + d :: nat)"
  by (simp add: of_char_of)

lemma read_show_nat: "read_nat 0 (show_nat n) = n"
proof (induction n rule: show_nat.induct)
  case (1 n)
  show ?case
  proof (cases "n < 10")
    case True
    then show ?thesis by (subst show_nat.simps) (simp add: of_char_digit)
  next
    case False
    with 1 show ?thesis
      by (subst show_nat.simps) (simp add: read_nat_snoc of_char_digit)
  qed
qed

lemma show_nat_inj: "show_nat m = show_nat n \<Longrightarrow> m = n"
  by (metis read_show_nat)

end
