(* ===== verification/JsText.thy ===== *)
theory JsText
  imports Prelude "HOL-Library.List_Lexorder" "HOL-Library.Char_ord"
begin

text \<open>
  The string operations the sources use. A JavaScript string is a list of characters, one per
  UTF-16 code unit, restricted to the code units 0 to 255; white space, lower case and the
  UTF-8 byte count are written for exactly that range. The last part has the sorted key list
  by which the decoders compare the fields of an object.
\<close>

subsection \<open>Trimming\<close>

text \<open>The white space and line terminators of \<open>String.prototype.trim\<close>.\<close>

definition is_js_space :: "char \<Rightarrow> bool" where
  "is_js_space c \<longleftrightarrow>
     (let n = (of_char c :: nat) in n = 9 \<or> n = 10 \<or> n = 11 \<or> n = 12 \<or> n = 13 \<or> n = 32 \<or> n = 160)"

definition trim_start :: "string \<Rightarrow> string" where
  "trim_start s = dropWhile is_js_space s"

definition trim :: "string \<Rightarrow> string" where
  "trim s = rev (trim_start (rev (trim_start s)))"

lemma trim_start_hd: "trim_start s = [] \<or> \<not> is_js_space (hd (trim_start s))"
  using hd_dropWhile [of is_js_space s] by (auto simp: trim_start_def)

lemma trim_start_id: "s = [] \<or> \<not> is_js_space (hd s) \<Longrightarrow> trim_start s = s"
  by (cases s) (simp_all add: trim_start_def)

lemma trim_start_suffix: "\<exists>pre. s = pre @ trim_start s"
  unfolding trim_start_def by (metis takeWhile_dropWhile_id)

lemma trim_start_le: "length (trim_start s) \<le> length s"
  by (simp add: trim_start_def length_dropWhile_le)

lemma trim_start_same:
  assumes "length s \<le> length (trim_start s)"
  shows "trim_start s = s"
proof -
  from trim_start_suffix [of s] obtain pre where pre: "s = pre @ trim_start s" by blast
  with assms have "pre = []" by (metis add_le_same_cancel2 le_zero_eq length_0_conv length_append)
  with pre show ?thesis by simp
qed

lemma trim_id_iff: "trim s = s \<longleftrightarrow> s = [] \<or> (\<not> is_js_space (hd s) \<and> \<not> is_js_space (last s))"
proof
  assume "trim s = s"
  show "s = [] \<or> (\<not> is_js_space (hd s) \<and> \<not> is_js_space (last s))"
  proof (cases "s = []")
    case False
    have len: "length s = length (trim_start (rev (trim_start s)))"
      using \<open>trim s = s\<close> unfolding trim_def by (metis length_rev)
    with trim_start_le [of "rev (trim_start s)"] trim_start_le [of s]
    have "trim_start s = s" and r: "trim_start (rev (trim_start s)) = rev (trim_start s)"
      by (auto intro!: trim_start_same)
    with trim_start_hd [of s] trim_start_hd [of "rev (trim_start s)"] False
    show ?thesis by (simp add: hd_rev)
  qed simp
next
  assume "s = [] \<or> (\<not> is_js_space (hd s) \<and> \<not> is_js_space (last s))"
  then show "trim s = s"
    by (auto simp: trim_def trim_start_id hd_rev)
qed

lemma trim_idem [simp]: "trim (trim s) = trim s"
proof -
  define t where "t = trim_start s"
  have t: "t = [] \<or> \<not> is_js_space (hd t)" unfolding t_def by (rule trim_start_hd)
  define u where "u = trim_start (rev t)"
  from trim_start_suffix [of "rev t"] obtain pre where "rev t = pre @ u" unfolding u_def by blast
  then have split: "t = rev u @ rev pre" by (metis rev_append rev_rev_ident)
  have "u = [] \<or> \<not> is_js_space (hd u)" unfolding u_def by (rule trim_start_hd)
  with t split have "rev u = [] \<or> (\<not> is_js_space (hd (rev u)) \<and> \<not> is_js_space (last (rev u)))"
    by (cases "u = []") (auto simp: last_rev hd_append split: if_splits)
  then have "trim (rev u) = rev u" by (simp only: trim_id_iff)
  moreover have "trim s = rev u" by (simp add: trim_def u_def t_def)
  ultimately show ?thesis by simp
qed

subsection \<open>Identifiers\<close>

definition is_lower :: "char \<Rightarrow> bool" where
  "is_lower c \<longleftrightarrow> (let n = (of_char c :: nat) in 97 \<le> n \<and> n \<le> 122)"

definition is_upper :: "char \<Rightarrow> bool" where
  "is_upper c \<longleftrightarrow> (let n = (of_char c :: nat) in 65 \<le> n \<and> n \<le> 90)"

definition is_digit :: "char \<Rightarrow> bool" where
  "is_digit c \<longleftrightarrow> (let n = (of_char c :: nat) in 48 \<le> n \<and> n \<le> 57)"

text \<open>The expression \<open>^[a-z][a-z0-9]*(?:-[a-z0-9]+)*$\<close>; \<open>after_dash\<close> asks for a first character.\<close>

fun kebab_rest :: "bool \<Rightarrow> string \<Rightarrow> bool" where
  "kebab_rest after_dash [] = (\<not> after_dash)"
| "kebab_rest after_dash (c # cs) =
     (if is_lower c \<or> is_digit c then kebab_rest False cs
      else c = CHR ''-'' \<and> \<not> after_dash \<and> kebab_rest True cs)"

definition is_kebab :: "string \<Rightarrow> bool" where
  "is_kebab s = (case s of [] \<Rightarrow> False | c # cs \<Rightarrow> is_lower c \<and> kebab_rest False cs)"

subsection \<open>Case and bytes\<close>

text \<open>
  Lower case: the letters A to Z, and the accented capitals 192 to 222 except the
  multiplication sign 215.
\<close>

definition lower_char :: "char \<Rightarrow> char" where
  "lower_char c =
     (let n = (of_char c :: nat) in
      if (65 \<le> n \<and> n \<le> 90) \<or> (192 \<le> n \<and> n \<le> 222 \<and> n \<noteq> 215) then char_of (n + 32) else c)"

definition to_lower :: "string \<Rightarrow> string" where
  "to_lower s = map lower_char s"

text \<open>\<open>Buffer.byteLength\<close> in UTF-8: one byte below 128, two from there to 255.\<close>

definition byte_length :: "string \<Rightarrow> nat" where
  "byte_length s = sum_list (map (\<lambda>c. if (of_char c :: nat) < 128 then 1 else 2) s)"

lemma byte_length_bounds: "length s \<le> byte_length s \<and> byte_length s \<le> 2 * length s"
  unfolding byte_length_def by (induction s) auto

subsection \<open>Splitting and joining\<close>

text \<open>\<open>String.prototype.split\<close> at a single character.\<close>

fun split_on :: "char \<Rightarrow> string \<Rightarrow> string list" where
  "split_on c [] = [[]]"
| "split_on c (x # xs) =
     (if x = c then [] # split_on c xs
      else (case split_on c xs of [] \<Rightarrow> [[x]] | s # ss \<Rightarrow> (x # s) # ss))"

fun join_with :: "string \<Rightarrow> string list \<Rightarrow> string" where
  "join_with sep [] = []"
| "join_with sep [x] = x"
| "join_with sep (x # y # xs) = x @ sep @ join_with sep (y # xs)"

definition sorted_keys :: "(string \<times> 'a) list \<Rightarrow> string" where
  "sorted_keys fs = join_with '','' (sort (map fst fs))"

end
