(* ===== verification/EventReplay.thy ===== *)
theory EventReplay
  imports Prelude
begin

text \<open>
  Interfaces shared by every event-sourced component of the harness: a fold of a log whose
  step may reject an event (\<open>replay\<close>), and a cached fold that consumes the log
  incrementally (\<open>log_cache\<close>). The components interpret them on their own steps.
\<close>

subsection \<open>A fallible fold with an invariant over the accepted history\<close>

locale replay =
  fixes step :: "'s \<Rightarrow> 'e \<Rightarrow> ('err, 's) result"
    and init :: 's
    and hist :: "'e list \<Rightarrow> 's \<Rightarrow> bool"
  assumes hist_init: "hist [] init"
    and hist_step: "hist es s \<Longrightarrow> step s e = Inr t \<Longrightarrow> hist (es @ [e]) t"
begin

lemma hist_fold_from: "hist es s \<Longrightarrow> foldR step s fs = Inr t \<Longrightarrow> hist (es @ fs) t"
proof (induction fs arbitrary: es s)
  case (Cons f fs)
  then obtain u where "step s f = Inr u" and "foldR step u fs = Inr t"
    by (auto simp: result_simps)
  with Cons.IH [of "es @ [f]" u] Cons.prems(1) show ?case
    by (simp add: hist_step)
qed simp

lemma hist_fold: "foldR step init es = Inr s \<Longrightarrow> hist es s"
  using hist_fold_from [OF hist_init, of es s] by simp

text \<open>Every prefix of an accepted log is accepted, and satisfies the invariant.\<close>

lemma prefix_accepted:
  assumes "foldR step init (es @ fs) = Inr t"
  shows "\<exists>s. foldR step init es = Inr s \<and> hist es s \<and> foldR step s fs = Inr t"
  using assms by (auto simp: foldR_append result_simps intro: hist_fold)

lemma take_accepted:
  "foldR step init es = Inr t \<Longrightarrow> \<exists>s. foldR step init (take n es) = Inr s \<and> hist (take n es) s"
  using prefix_accepted [of "take n es" "drop n es" t] by auto

end

text \<open>
  When the step also has a rank that never decreases, the rank is monotone along a log.
\<close>

locale ranked_replay = replay +
  fixes rank :: "'a \<Rightarrow> nat"
  assumes rank_step: "hist es s \<Longrightarrow> step s e = Inr t \<Longrightarrow> rank s \<le> rank t"
begin

lemma rank_fold_from:
  "hist es s \<Longrightarrow> foldR step s fs = Inr t \<Longrightarrow> rank s \<le> rank t"
proof (induction fs arbitrary: es s)
  case (Cons f fs)
  then obtain u where u: "step s f = Inr u" and "foldR step u fs = Inr t"
    by (auto simp: result_simps)
  with Cons.IH [of "es @ [f]" u] Cons.prems(1) have "rank u \<le> rank t"
    by (simp add: hist_step)
  moreover from Cons.prems(1) u have "rank s \<le> rank u" by (rule rank_step)
  ultimately show ?case by simp
qed simp

lemma rank_fold:
  assumes "foldR step init (es @ fs) = Inr t" and "foldR step init es = Inr s"
  shows "rank s \<le> rank t"
  using assms by (auto simp: foldR_append intro: rank_fold_from hist_fold)

end

subsection \<open>A cache that folds only the events it has not seen\<close>

text \<open>
  The cache is the folded value and the number of log entries consumed; a read folds the
  rest of the log and remembers the new position.
\<close>

definition cache_refresh :: "('c \<Rightarrow> 'e list \<Rightarrow> 'c) \<Rightarrow> 'e list \<Rightarrow> 'c \<times> nat \<Rightarrow> 'c \<times> nat" where
  "cache_refresh f es c = (if snd c < length es then (f (fst c) (drop (snd c) es), length es) else c)"

definition cache_for :: "('c \<Rightarrow> 'e list \<Rightarrow> 'c) \<Rightarrow> 'c \<Rightarrow> 'e list \<Rightarrow> 'c \<times> nat \<Rightarrow> bool" where
  "cache_for f c0 es c \<longleftrightarrow> snd c \<le> length es \<and> fst c = f c0 (take (snd c) es)"

locale log_cache =
  fixes fold_log :: "'c \<Rightarrow> 'e list \<Rightarrow> 'c"
    and start :: 'c
  assumes fold_nil: "fold_log c [] = c"
    and fold_append: "fold_log c (es @ fs) = fold_log (fold_log c es) fs"
begin

lemma cache_start: "cache_for fold_log start es (start, 0)"
  by (simp add: cache_for_def fold_nil)

lemma cache_grow: "cache_for fold_log start es c \<Longrightarrow> cache_for fold_log start (es @ fs) c"
  by (simp add: cache_for_def)

lemma cache_read:
  assumes "cache_for fold_log start es c"
  shows "fst (cache_refresh fold_log es c) = fold_log start es"
    and "cache_for fold_log start es (cache_refresh fold_log es c)"
proof -
  have "fold_log (fst c) (drop (snd c) es) = fold_log start es" if "cache_for fold_log start es c"
    using that fold_append [of start "take (snd c) es" "drop (snd c) es"]
    by (simp add: cache_for_def)
  with assms show "fst (cache_refresh fold_log es c) = fold_log start es"
    by (auto simp: cache_refresh_def cache_for_def)
  then show "cache_for fold_log start es (cache_refresh fold_log es c)"
    using assms by (auto simp: cache_refresh_def cache_for_def)
qed

end

end
