(* ===== verification/JsonValue.thy ===== *)
theory JsonValue
  imports Prelude
begin

text \<open>
  JSON values as the harness stores them (\<open>packages/core/session/src/json.ts\<close>), with objects
  as ordered lists of fields, and the structural equality of
  \<open>packages/core/session/src/surface.ts\<close>. A finite number is an integer or a fraction kept by
  its decimal text.
\<close>

datatype json =
    JNull
  | JBool bool
  | JInt int
  | JFrac string
  | JStr string
  | JArr "json list"
  | JObj "(string \<times> json) list"

fun json_get :: "json \<Rightarrow> string \<Rightarrow> json option" where
  "json_get (JObj fs) k = map_of fs k"
| "json_get _ k = None"

fun json_keys :: "json \<Rightarrow> string list" where
  "json_keys (JObj fs) = map fst fs"
| "json_keys _ = []"

text \<open>Every object of the language has distinct keys.\<close>

fun json_ok :: "json \<Rightarrow> bool" where
  "json_ok (JArr vs) = list_all json_ok vs"
| "json_ok (JObj fs) = (distinct (map fst fs) \<and> list_all (\<lambda>f. json_ok (snd f)) fs)"
| "json_ok _ = True"

text \<open>\<open>hasExactKeys\<close>: the object has every listed key and nothing else.\<close>

definition has_exact_keys :: "(string \<times> json) list \<Rightarrow> string list \<Rightarrow> bool" where
  "has_exact_keys fs ks \<longleftrightarrow> length fs = length ks \<and> list_all (\<lambda>k. map_has fs k) ks"

fun deep_equal :: "json \<Rightarrow> json \<Rightarrow> bool"
  and deep_equal_items :: "json list \<Rightarrow> json list \<Rightarrow> bool"
  and deep_equal_fields :: "(string \<times> json) list \<Rightarrow> (string \<times> json) list \<Rightarrow> bool" where
  "deep_equal (JArr xs) b = (case b of JArr ys \<Rightarrow> length xs = length ys \<and> deep_equal_items xs ys | _ \<Rightarrow> False)"
| "deep_equal (JObj fs) b = (case b of JObj gs \<Rightarrow> length fs = length gs \<and> deep_equal_fields fs gs | _ \<Rightarrow> False)"
| "deep_equal a b = (a = b)"
| "deep_equal_items (x # xs) ys = (case ys of y # ys' \<Rightarrow> deep_equal x y \<and> deep_equal_items xs ys' | [] \<Rightarrow> False)"
| "deep_equal_items [] ys = True"
| "deep_equal_fields (f # fs) gs =
     ((case map_of gs (fst f) of Some w \<Rightarrow> deep_equal (snd f) w | None \<Rightarrow> False) \<and> deep_equal_fields fs gs)"
| "deep_equal_fields [] gs = True"

end
