(* ===== verification/SessionTypes.thy ===== *)
theory SessionTypes
  imports JsonValue
begin

text \<open>
  The vocabulary of the session log: messages and stream chunks
  (\<open>packages/llm/llm/src/types.ts\<close>, \<open>message.ts\<close>) and session events
  (\<open>packages/core/session/src/types.ts\<close>). The core event types carry typed payloads, as the
  \<open>SessionEventMap\<close> declares them; an event merged into the map by another package is a
  \<open>PluginEvent\<close> with its JSON payload. Surface metadata stays raw JSON, because the surface
  layer validates it as untrusted data.
\<close>

subsection \<open>Messages\<close>

record llm_failure =
  lf_message :: string
  lf_code :: string
  lf_status :: "int option"
  lf_retry_after_ms :: "int option"
  lf_request_id :: "string option"

datatype content_block =
    TextBlock string
  | ReasoningBlock string
  | ImageBlock json
  | ToolCallBlock string string string
  | ToolResultBlock string "content_block list" "bool option"

datatype finish_reason =
    FinishStop
  | FinishToolCalls
  | FinishMaxTokens
  | FinishAborted llm_failure
  | FinishError llm_failure

record token_usage =
  input_tokens :: int
  output_tokens :: int
  cache_read_tokens :: "int option"
  cache_write_tokens :: "int option"
  reasoning_tokens :: "int option"

datatype stream_chunk =
    BlockStart int string
  | TextDelta int string
  | ReasoningDelta int string
  | ToolCallDelta int string "string option" string
  | BlockEnd int content_block
  | UsageChunk token_usage
  | FinishChunk finish_reason "json option"

datatype message_role = SystemRole | UserRole | AssistantRole

text \<open>A message source: the two kinds the core validates, and any other kind as JSON.\<close>

datatype message_source =
    ModelSource string string "json option"
  | ToolSource string
  | OtherSource json

record message =
  msg_id :: string
  msg_role :: message_role
  msg_content :: "content_block list"
  msg_source :: message_source

text \<open>A tool-result message has exactly one tool-result block.\<close>

record tool_result_message =
  tr_id :: string
  tr_call :: string
  tr_block_call :: string
  tr_block_content :: "content_block list"
  tr_block_error :: "bool option"

definition tool_message :: "tool_result_message \<Rightarrow> message" where
  "tool_message m =
     \<lparr>msg_id = tr_id m, msg_role = UserRole,
      msg_content = [ToolResultBlock (tr_block_call m) (tr_block_content m) (tr_block_error m)],
      msg_source = ToolSource (tr_call m)\<rparr>"

subsection \<open>Request headers\<close>

record call_config =
  cc_provider :: string
  cc_model :: string
  cc_reasoning_effort :: "string option"
  cc_temperature :: "json option"
  cc_max_tokens :: "int option"
  cc_stop :: "string list option"

text \<open>A present marker is the literal \<open>true\<close>.\<close>

record adapter_defaults =
  ad_reasoning_effort :: bool
  ad_max_tokens :: bool

record tool_schema =
  ts_name :: string
  ts_description :: string
  ts_parameters :: "(string \<times> json) list"

record epoch_header =
  eh_config :: call_config
  eh_adapter_defaults :: "adapter_defaults option"
  eh_system :: "string option"
  eh_tools :: "tool_schema list option"

record request_context =
  rc_provider :: string
  rc_model :: string
  rc_context_window :: "int option"

datatype request_header_reason = ReasonInitial | ReasonResume | ReasonChange

subsection \<open>Events\<close>

datatype cancel_cause =
    CancelUser
  | CancelParent
  | CancelHook string
  | CancelDisposed
  | CancelLegacy

datatype turn_end_reason =
    EndCompleted
  | EndAborted cancel_cause
  | EndBlocked
  | EndError llm_failure
  | EndMaxTokens
  | EndInterrupted

datatype todo_status = TodoPending | TodoInProgress | TodoCompleted

record todo_item =
  todo_content :: string
  todo_status :: todo_status

record tool_result_data =
  trd_turn :: int
  trd_step :: int
  trd_message :: tool_result_message
  trd_error :: "(string \<times> string) option"
  trd_meta :: "json option"

datatype event_data =
    TurnStart int
  | TurnEnd int turn_end_reason
  | StepStart int int
  | StepEnd int int
  | UserMessage message
  | AssistantChunk int int stream_chunk
  | AssistantMessage int int message "token_usage option" bool
  | ToolCall int int string string string
  | ToolResult tool_result_data
  | TodoWrite "todo_item list"
  | RequestHeader epoch_header request_header_reason
  | RequestContext request_context
  | EndSeed
  | PluginEvent string json

fun data_type :: "event_data \<Rightarrow> string" where
  "data_type (TurnStart _) = ''turn/start''"
| "data_type (TurnEnd _ _) = ''turn/end''"
| "data_type (StepStart _ _) = ''step/start''"
| "data_type (StepEnd _ _) = ''step/end''"
| "data_type (UserMessage _) = ''user/message''"
| "data_type (AssistantChunk _ _ _) = ''assistant/chunk''"
| "data_type (AssistantMessage _ _ _ _ _) = ''assistant/message''"
| "data_type (ToolCall _ _ _ _ _) = ''tool/call''"
| "data_type (ToolResult _) = ''tool/result''"
| "data_type (TodoWrite _) = ''todo/write''"
| "data_type (RequestHeader _ _) = ''request/header''"
| "data_type (RequestContext _) = ''request/context''"
| "data_type EndSeed = ''session/end-seed''"
| "data_type (PluginEvent t _) = t"

record session_event =
  ev_seq :: int
  ev_time :: int
  ev_data :: event_data
  ev_ignorable :: bool
  ev_surface_op :: "json option"
  ev_sources :: "json option"

abbreviation ev_type :: "session_event \<Rightarrow> string" where
  "ev_type e \<equiv> data_type (ev_data e)"

text \<open>Storage metadata kept outside the log.\<close>

record session_header =
  sh_version :: int
  sh_id :: string
  sh_created_at :: int
  sh_cwd :: "string option"
  sh_parent_session :: "string option"
  sh_seed_length :: "int option"
  sh_origin :: "string option"
  sh_delegation_depth :: "int option"
  sh_agent_preset :: "string option"

definition session_format_version :: int where
  "session_format_version = 0"

end
