(* ===== verification/Surface.thy ===== *)
theory Surface
  imports EventReplay SessionTypes
begin

text \<open>
  The ordered model-visible surface over the session log
  (\<open>packages/core/session/src/surface.ts\<close>): validation of surface metadata, the complete fold
  \<open>foldSurface\<close>, and the incremental \<open>SurfaceManager\<close>. A validated transition is a plan that
  is committed separately, as in the code.
\<close>

subsection \<open>Event classification\<close>

definition surface_event_types :: "string list" where
  "surface_event_types = [''user/message'', ''assistant/message'', ''tool/result'']"

definition is_surface_eligible_type :: "string \<Rightarrow> bool" where
  "is_surface_eligible_type t \<longleftrightarrow> List.member surface_event_types t"

definition is_surface_event :: "session_event \<Rightarrow> bool" where
  "is_surface_event e \<longleftrightarrow> is_surface_eligible_type (ev_type e) \<and> ev_surface_op e \<noteq> None"

definition is_append_surface_event :: "session_event \<Rightarrow> bool" where
  "is_append_surface_event e \<longleftrightarrow> is_surface_event e \<and> ev_surface_op e = Some (JStr ''append'')"

definition is_replacement_surface_event :: "session_event \<Rightarrow> bool" where
  "is_replacement_surface_event e \<longleftrightarrow> is_surface_event e \<and> ev_surface_op e \<noteq> Some (JStr ''append'')"

text \<open>The message an event derives to; an empty assistant message derives to none.\<close>

definition derive_event_message :: "session_event \<Rightarrow> message option" where
  "derive_event_message e =
     (case ev_data e of
        UserMessage m \<Rightarrow> Some m
      | AssistantMessage _ _ m _ _ \<Rightarrow> if msg_content m = [] then None else Some m
      | ToolResult d \<Rightarrow> Some (tool_message (trd_message d))
      | _ \<Rightarrow> None)"

subsection \<open>Fold state and plans\<close>

record surface_replacement =
  rp_seq :: int
  rp_start :: int
  rp_end :: int
  rp_shadowed :: "int list"

record surface_fold_result =
  fr_nodes :: "int list"
  fr_replacements :: "surface_replacement list"

record surface_state =
  sf_nodes :: "int list"
  sf_generation :: nat

datatype surface_op = OpAppend | OpReplace int int

datatype surface_plan =
    PlanAppend int
  | PlanReplace surface_replacement nat nat

definition create_fold_state :: surface_state where
  "create_fold_state = \<lparr>sf_nodes = [], sf_generation = 0\<rparr>"

subsection \<open>Validation of one event\<close>

definition json_event_seq :: "json \<Rightarrow> int option" where
  "json_event_seq v = (case v of JInt n \<Rightarrow> if is_event_seq n then Some n else None | _ \<Rightarrow> None)"

definition is_replace_op :: "json \<Rightarrow> surface_op option" where
  "is_replace_op v =
     (case v of
        JObj fs \<Rightarrow>
          if has_exact_keys fs [''op'', ''start'', ''end''] \<and> map_get fs ''op'' = Some (JStr ''replace'')
          then (case (Option.bind (map_get fs ''start'') json_event_seq,
                      Option.bind (map_get fs ''end'') json_event_seq) of
                  (Some a, Some b) \<Rightarrow> Some (OpReplace a b)
                | _ \<Rightarrow> None)
          else None
      | _ \<Rightarrow> None)"

definition surface_op_of :: "session_event \<Rightarrow> (js_error, surface_op option) result" where
  "surface_op_of e =
     (if \<not> is_surface_eligible_type (ev_type e) then
        throw_if (ev_surface_op e \<noteq> None)
          (JsError ''session event is not surface-eligible and cannot carry surfaceOp'')
        (throw_if (ev_sources e \<noteq> None)
          (JsError ''session event is not surface-eligible and cannot carry sourceEventSeqs'')
        (Inr None))
      else
        case ev_surface_op e of
          None \<Rightarrow> Inl (JsError ''session event is surface-eligible and requires a surfaceOp marker'')
        | Some op \<Rightarrow>
            if op = JStr ''append'' then Inr (Some OpAppend)
            else (case op of
                    JObj _ \<Rightarrow>
                      (case is_replace_op op of
                         None \<Rightarrow> Inl (JsError ''session event carries an invalid replace surfaceOp'')
                       | Some r \<Rightarrow> Inr (Some r))
                  | _ \<Rightarrow> Inl (JsError ''session event carries an invalid surfaceOp'')))"

definition source_seq_of :: "json \<Rightarrow> (js_error, int) result" where
  "source_seq_of v =
     (case json_event_seq v of
        None \<Rightarrow> Inl (JsError ''sourceEventSeqs must densely contain non-negative safe integers'')
      | Some n \<Rightarrow> Inr n)"

definition cited_sources :: "session_event \<Rightarrow> (js_error, int list) result" where
  "cited_sources e =
     (case ev_sources e of
        None \<Rightarrow> Inr []
      | Some (JArr raw) \<Rightarrow>
          throw_if (raw = [] \<and> ev_type e \<noteq> ''assistant/message'')
            (JsError ''sourceEventSeqs must not be empty except on assistant/message'')
          (bindR (mapR source_seq_of raw) (\<lambda>sources.
           throw_if (set_size sources \<noteq> length raw)
             (JsError ''sourceEventSeqs must not contain duplicates'')
           (throw_if (find (\<lambda>source. ev_seq e \<le> source) sources \<noteq> None)
             (JsError ''sourceEventSeqs must reference earlier events'')
           (Inr sources))))
      | Some _ \<Rightarrow> Inl (JsError ''sourceEventSeqs must be an array when present''))"

definition assert_provenance :: "session_event \<Rightarrow> int list \<Rightarrow> (js_error, unit) result" where
  "assert_provenance e shadowed =
     bindR (cited_sources e) (\<lambda>sources.
     throw_if (filter (\<lambda>s. \<not> List.member sources s) shadowed \<noteq> [])
       (JsError ''surface replace: sourceEventSeqs must include every shadowed surface node'')
     (Inr ()))"

definition replacement_range ::
    "surface_state \<Rightarrow> int \<Rightarrow> int \<Rightarrow> (js_error, nat \<times> nat \<times> int list) result" where
  "replacement_range st start stop =
     (case index_of (sf_nodes st) start of
        None \<Rightarrow> Inl (JsError ''surface replace: start seq not found in surface'')
      | Some i \<Rightarrow>
          (case index_of (sf_nodes st) stop of
             None \<Rightarrow> Inl (JsError ''surface replace: end seq not found in surface'')
           | Some j \<Rightarrow>
               throw_if (j < i) (JsError ''surface replace: start seq is after end seq'')
               (Inr (i, j, take (j + 1 - i) (drop i (sf_nodes st))))))"

text \<open>
  A tool-result payload with the content of its block masked, and the structural comparison
  of two such payloads: the opaque \<open>meta\<close> is compared as JSON, the typed fields are equal.
\<close>

definition tool_result_rest :: "tool_result_data \<Rightarrow> tool_result_data" where
  "tool_result_rest d =
     d\<lparr>trd_message := (trd_message d)\<lparr>tr_block_content := []\<rparr>, trd_meta := None\<rparr>"

definition same_tool_result_rest :: "tool_result_data \<Rightarrow> tool_result_data \<Rightarrow> bool" where
  "same_tool_result_rest a b \<longleftrightarrow>
     tool_result_rest a = tool_result_rest b \<and>
     (case (trd_meta a, trd_meta b) of
        (None, None) \<Rightarrow> True
      | (Some x, Some y) \<Rightarrow> deep_equal x y
      | _ \<Rightarrow> False)"

definition assert_tool_result_rewrite ::
    "session_event \<Rightarrow> int list \<Rightarrow> session_event list \<Rightarrow> int \<Rightarrow> (js_error, unit) result" where
  "assert_tool_result_rewrite e shadowed events base =
     (case ev_data e of
        ToolResult d \<Rightarrow>
          throw_if (length shadowed \<noteq> 1)
            (JsError ''tool/result surface replacement must rewrite exactly one current node'')
          (allR (\<lambda>original_seq.
             case map_option ev_data (array_at events (original_seq - base)) of
               Some (ToolResult original) \<Rightarrow>
                 throw_if (\<not> same_tool_result_rest original d)
                   (JsError ''tool/result surface replacement may change only content'') (Inr ())
             | _ \<Rightarrow> Inl (JsError ''tool/result surface replacement must target a current tool/result''))
           shadowed)
      | _ \<Rightarrow> Inr ())"

definition plan_surface_event ::
    "surface_state \<Rightarrow> session_event \<Rightarrow> int \<Rightarrow> session_event list \<Rightarrow> int
      \<Rightarrow> (js_error, surface_plan option) result" where
  "plan_surface_event st e expected events base =
     throw_if (ev_seq e \<noteq> expected) (JsError ''session event seq is not contiguous'')
     (bindR (surface_op_of e) (\<lambda>op.
      case op of
        None \<Rightarrow> Inr None
      | Some OpAppend \<Rightarrow>
          bindR (assert_provenance e []) (\<lambda>_. Inr (Some (PlanAppend (ev_seq e))))
      | Some (OpReplace start stop) \<Rightarrow>
          bindR (replacement_range st start stop) (\<lambda>(i, j, shadowed).
          bindR (assert_provenance e shadowed) (\<lambda>_.
          bindR (assert_tool_result_rewrite e shadowed events base) (\<lambda>_.
          Inr (Some (PlanReplace
            \<lparr>rp_seq = ev_seq e, rp_start = start, rp_end = stop, rp_shadowed = shadowed\<rparr> i j)))))))"

subsection \<open>Committing a plan\<close>

definition apply_surface_plan ::
    "surface_state \<Rightarrow> surface_plan option \<Rightarrow> surface_state \<times> surface_replacement option" where
  "apply_surface_plan st plan =
     (case plan of
        Some (PlanAppend s) \<Rightarrow> (st\<lparr>sf_nodes := sf_nodes st @ [s]\<rparr>, None)
      | Some (PlanReplace r i j) \<Rightarrow>
          (st\<lparr>sf_nodes := take i (sf_nodes st) @ [rp_seq r] @ drop (j + 1) (sf_nodes st),
              sf_generation := sf_generation st + 1\<rparr>, Some r)
      | None \<Rightarrow> (st, None))"

definition apply_surface_event ::
    "surface_state \<Rightarrow> session_event \<Rightarrow> int \<Rightarrow> session_event list \<Rightarrow> int
      \<Rightarrow> (js_error, surface_state \<times> surface_replacement option) result" where
  "apply_surface_event st e expected events base =
     bindR (plan_surface_event st e expected events base) (\<lambda>plan. Inr (apply_surface_plan st plan))"

definition fold_surface_step ::
    "session_event list \<Rightarrow> surface_state \<times> surface_replacement list \<Rightarrow> int \<times> session_event
      \<Rightarrow> (js_error, surface_state \<times> surface_replacement list) result" where
  "fold_surface_step events acc entry =
     (case (acc, entry) of ((st, reps), (index, e)) \<Rightarrow>
        bindR (apply_surface_event st e index events 0) (\<lambda>(st', rep).
        Inr (st', reps @ (case rep of None \<Rightarrow> [] | Some r \<Rightarrow> [r]))))"

definition entries :: "session_event list \<Rightarrow> (int \<times> session_event) list" where
  "entries es = zip (map int [0..<length es]) es"

definition fold_surface :: "session_event list \<Rightarrow> (js_error, surface_fold_result) result" where
  "fold_surface events =
     bindR (foldR (fold_surface_step events) (create_fold_state, []) (entries events)) (\<lambda>(st, reps).
     Inr \<lparr>fr_nodes = sf_nodes st, fr_replacements = reps\<rparr>)"

subsection \<open>The incremental manager\<close>

record surface_manager =
  sm_state :: surface_state
  sm_last :: int
  sm_pending :: "(session_event \<times> int \<times> surface_plan option) option"

definition new_surface_manager :: "int \<Rightarrow> surface_manager" where
  "new_surface_manager base =
     \<lparr>sm_state = create_fold_state, sm_last = base - 1, sm_pending = None\<rparr>"

text \<open>
  One turn of the loop of \<open>_processDelta\<close>. The pending plan is recognised by its event and
  expected sequence; the code compares the event by reference, and equal events have equal plans.
\<close>

definition process_one ::
    "surface_manager \<Rightarrow> session_event \<Rightarrow> int \<Rightarrow> session_event list \<Rightarrow> int
      \<Rightarrow> (js_error, surface_manager) result" where
  "process_one m e s log base =
     bindR (case sm_pending m of
              Some (pe, ps, plan) \<Rightarrow>
                if pe = e \<and> ps = s then Inr (apply_surface_plan (sm_state m) plan)
                else apply_surface_event (sm_state m) e s log base
            | None \<Rightarrow> apply_surface_event (sm_state m) e s log base)
     (\<lambda>(st, _). Inr (m\<lparr>sm_state := st,
        sm_pending := (case sm_pending m of
            Some (pe, ps, plan) \<Rightarrow> if ps \<le> s then None else sm_pending m
          | None \<Rightarrow> None),
        sm_last := s\<rparr>))"

text \<open>The loop over the unseen tail; a rejected event leaves the progress made before it.\<close>

fun process_delta ::
    "surface_manager \<Rightarrow> int \<Rightarrow> session_event list \<Rightarrow> session_event list \<Rightarrow> int
      \<Rightarrow> surface_manager \<times> js_error option" where
  "process_delta m s [] log base = (m, None)"
| "process_delta m s (e # es) log base =
     (case process_one m e s log base of
        Inl err \<Rightarrow> (m, Some err)
      | Inr m' \<Rightarrow> process_delta m' (s + 1) es log base)"

definition sync_manager ::
    "surface_manager \<Rightarrow> session_event list \<Rightarrow> int \<Rightarrow> surface_manager \<times> js_error option" where
  "sync_manager m log base =
     (if sm_last m < base + int (length log) - 1
      then process_delta m (sm_last m + 1) (drop (nat (sm_last m + 1 - base)) log) log base
      else (m, None))"

definition validate_next ::
    "surface_manager \<Rightarrow> session_event list \<Rightarrow> int \<Rightarrow> session_event
      \<Rightarrow> surface_manager \<times> js_error option" where
  "validate_next m log base e =
     (case sync_manager m log base of
        (m', Some err) \<Rightarrow> (m', Some err)
      | (m', None) \<Rightarrow>
          (let expected = base + int (length log) in
           case plan_surface_event (sm_state m') e expected log base of
             Inl err \<Rightarrow> (m', Some err)
           | Inr plan \<Rightarrow> (m'\<lparr>sm_pending := Some (e, expected, plan)\<rparr>, None)))"

definition manager_nodes ::
    "surface_manager \<Rightarrow> session_event list \<Rightarrow> int \<Rightarrow> surface_manager \<times> (js_error, int list) result" where
  "manager_nodes m log base =
     (case sync_manager m log base of
        (m', Some err) \<Rightarrow> (m', Inl err)
      | (m', None) \<Rightarrow> (m', Inr (sf_nodes (sm_state m'))))"

definition manager_generation ::
    "surface_manager \<Rightarrow> session_event list \<Rightarrow> int \<Rightarrow> surface_manager \<times> (js_error, nat) result" where
  "manager_generation m log base =
     (case sync_manager m log base of
        (m', Some err) \<Rightarrow> (m', Inl err)
      | (m', None) \<Rightarrow> (m', Inr (sf_generation (sm_state m'))))"


subsection \<open>Replaying a growing log\<close>

text \<open>
  The fold with its log: the state a consumer is in after the events of a log window that
  starts at \<open>base\<close>. \<open>foldSurface\<close> is the case \<open>base = 0\<close>.
\<close>

type_synonym surface_run = "surface_state \<times> surface_replacement list \<times> session_event list"

definition surface_log_step ::
    "int \<Rightarrow> surface_run \<Rightarrow> session_event \<Rightarrow> (js_error, surface_run) result" where
  "surface_log_step base run e =
     (case run of (st, reps, log) \<Rightarrow>
        bindR (apply_surface_event st e (base + int (length log)) log base) (\<lambda>(st', rep).
        Inr (st', reps @ (case rep of None \<Rightarrow> [] | Some r \<Rightarrow> [r]), log @ [e])))"

abbreviation surface_start :: surface_run where
  "surface_start \<equiv> (create_fold_state, [], [])"

definition surface_seqs :: "int \<Rightarrow> session_event list \<Rightarrow> int set" where
  "surface_seqs base log = {base + int i |i. i < length log \<and> is_surface_event (log ! i)}"

text \<open>What a replacement recorded in the history of a log satisfies.\<close>

definition replacement_ok :: "int \<Rightarrow> session_event list \<Rightarrow> surface_replacement \<Rightarrow> bool" where
  "replacement_ok base log r \<longleftrightarrow>
     (case array_at log (rp_seq r - base) of
        None \<Rightarrow> False
      | Some e \<Rightarrow>
          ev_seq e = rp_seq r \<and> is_replacement_surface_event e \<and>
          rp_shadowed r \<noteq> [] \<and> hd (rp_shadowed r) = rp_start r \<and> last (rp_shadowed r) = rp_end r \<and>
          (case cited_sources e of
             Inr sources \<Rightarrow> set (rp_shadowed r) \<subseteq> set sources \<and> (\<forall>s \<in> set sources. s < rp_seq r)
           | Inl _ \<Rightarrow> False) \<and>
          (case ev_data e of
             ToolResult d \<Rightarrow>
               length (rp_shadowed r) = 1 \<and>
               (case map_option ev_data (array_at log (rp_start r - base)) of
                  Some (ToolResult original) \<Rightarrow> same_tool_result_rest original d
                | _ \<Rightarrow> False)
           | _ \<Rightarrow> True))"

definition surface_hist :: "int \<Rightarrow> session_event list \<Rightarrow> surface_run \<Rightarrow> bool" where
  "surface_hist base log run \<longleftrightarrow>
     (case run of (st, reps, log') \<Rightarrow>
        log' = log \<and>
        (\<forall>i < length log. ev_seq (log ! i) = base + int i) \<and>
        distinct (sf_nodes st @ concat (map rp_shadowed reps)) \<and>
        set (sf_nodes st @ concat (map rp_shadowed reps)) = surface_seqs base log \<and>
        sf_generation st = length reps \<and>
        (\<forall>r \<in> set reps. replacement_ok base log r))"

lemma surface_seqs_Nil [simp]: "surface_seqs base [] = {}"
  by (simp add: surface_seqs_def)

lemma surface_seqs_snoc:
  "surface_seqs base (log @ [e]) =
     surface_seqs base log \<union> (if is_surface_event e then {base + int (length log)} else {})"
proof -
  have "surface_seqs base log' =
          (\<lambda>i. base + int i) ` {i. i < length log' \<and> is_surface_event (log' ! i)}" for log'
    by (auto simp: surface_seqs_def)
  moreover have "{i. i < length (log @ [e]) \<and> is_surface_event ((log @ [e]) ! i)} =
      {i. i < length log \<and> is_surface_event (log ! i)} \<union> (if is_surface_event e then {length log} else {})"
    by (auto simp: nth_append less_Suc_eq)
  ultimately show ?thesis by auto
qed

lemma surface_seqs_bound: "n \<in> surface_seqs base log \<Longrightarrow> base \<le> n \<and> n < base + int (length log)"
  by (auto simp: surface_seqs_def)

lemma array_at_snoc_old:
  "i < int (length log) \<Longrightarrow> array_at (log @ es) i = array_at log i"
  by (auto simp: array_at_def nth_append)

text \<open>The events after the current one do not change its plan.\<close>

lemma replacement_range_Inr:
  assumes "replacement_range st start stop = Inr (i, j, shadowed)"
  shows "i \<le> j" and "j < length (sf_nodes st)" and "shadowed = take (j + 1 - i) (drop i (sf_nodes st))"
    and "sf_nodes st ! i = start" and "sf_nodes st ! j = stop"
proof -
  obtain i' j' where idx: "index_of (sf_nodes st) start = Some i'" "index_of (sf_nodes st) stop = Some j'"
    using assms by (auto simp: replacement_range_def split: option.splits)
  with assms have "i' = i" "j' = j" "\<not> j' < i'"
      and "shadowed = take (j' + 1 - i') (drop i' (sf_nodes st))"
    by (auto simp: replacement_range_def throw_if_def split: if_splits)
  with idx [THEN index_of_Some] show "i \<le> j" and "j < length (sf_nodes st)"
      and "shadowed = take (j + 1 - i) (drop i (sf_nodes st))"
      and "sf_nodes st ! i = start" and "sf_nodes st ! j = stop"
    by simp_all
qed

lemma slice_split:
  "i \<le> j \<Longrightarrow> j < length xs \<Longrightarrow> xs = take i xs @ take (j + 1 - i) (drop i xs) @ drop (j + 1) xs"
proof -
  assume "i \<le> j" and "j < length xs"
  then have "drop i xs = take (j + 1 - i) (drop i xs) @ drop (j + 1) xs"
    by (metis Suc_eq_plus1 append_take_drop_id drop_drop le_SucI le_add_diff_inverse2)
  then show ?thesis by (metis append_take_drop_id)
qed

lemma slice_hd_last:
  assumes "i \<le> j" and "j < length xs"
  defines "ys \<equiv> take (j + 1 - i) (drop i xs)"
  shows "ys \<noteq> []" and "hd ys = xs ! i" and "last ys = xs ! j"
proof -
  have len: "length ys = j + 1 - i" using assms by simp
  with assms show "ys \<noteq> []" by auto
  then show "hd ys = xs ! i" using assms by (simp add: hd_conv_nth)
  show "last ys = xs ! j" using assms len \<open>ys \<noteq> []\<close> by (simp add: last_conv_nth)
qed

lemma replacement_range_shadowed:
  assumes "replacement_range st start stop = Inr (i, j, shadowed)"
  shows "shadowed \<noteq> []" and "hd shadowed = start" and "last shadowed = stop"
    and "sf_nodes st = take i (sf_nodes st) @ shadowed @ drop (j + 1) (sf_nodes st)"
  using replacement_range_Inr [OF assms] slice_hd_last [of i j "sf_nodes st"]
    slice_split [of i j "sf_nodes st"] by simp_all

lemma rewrite_log_append:
  assumes "\<forall>s \<in> set shadowed. s < base + int (length log)"
  shows "assert_tool_result_rewrite e shadowed (log @ es) base =
         assert_tool_result_rewrite e shadowed log base"
proof (cases "\<exists>d. ev_data e = ToolResult d \<and> length shadowed = 1")
  case True
  then obtain d s where "ev_data e = ToolResult d" and "shadowed = [s]"
    by (metis One_nat_def length_0_conv length_Suc_conv)
  with assms show ?thesis
    by (simp add: assert_tool_result_rewrite_def array_at_snoc_old)
next
  case False
  then show ?thesis
    by (auto simp: assert_tool_result_rewrite_def split: event_data.splits)
qed

lemma plan_log_append:
  assumes "\<forall>s \<in> set (sf_nodes st). s < base + int (length log)"
  shows "plan_surface_event st e n (log @ es) base = plan_surface_event st e n log base"
proof -
  have "assert_tool_result_rewrite e shadowed (log @ es) base =
        assert_tool_result_rewrite e shadowed log base"
    if "replacement_range st a b = Inr (i, j, shadowed)" for a b i j shadowed
  proof (rule rewrite_log_append)
    from replacement_range_shadowed(4) [OF that] have "set shadowed \<subseteq> set (sf_nodes st)"
      by (metis Un_iff set_append subsetI)
    with assms show "\<forall>s \<in> set shadowed. s < base + int (length log)" by blast
  qed
  then have "bindR (replacement_range st a b) (\<lambda>(i, j, shadowed).
          bindR (assert_provenance e shadowed) (\<lambda>_.
          bindR (assert_tool_result_rewrite e shadowed (log @ es) base) (\<lambda>_. K i j shadowed))) =
        bindR (replacement_range st a b) (\<lambda>(i, j, shadowed).
          bindR (assert_provenance e shadowed) (\<lambda>_.
          bindR (assert_tool_result_rewrite e shadowed log base) (\<lambda>_. K i j shadowed)))"
    for a b and K :: "nat \<Rightarrow> nat \<Rightarrow> int list \<Rightarrow> (js_error, surface_plan option) result"
    by (cases "replacement_range st a b") auto
  then show ?thesis
    unfolding plan_surface_event_def
    by (intro arg_cong2 [where f = "throw_if _"] arg_cong2 [where f = bindR] refl ext)
      (simp split: option.split surface_op.split)
qed

text \<open>Plans of accepted events.\<close>

lemma plan_Inr_cases:
  assumes "plan_surface_event st e n log base = Inr plan"
  obtains (none) "ev_seq e = n" and "plan = None" and "\<not> is_surface_event e"
  | (append) "ev_seq e = n" and "plan = Some (PlanAppend n)" and "is_append_surface_event e"
  | (replace) start stop i j shadowed where "ev_seq e = n"
      and "replacement_range st start stop = Inr (i, j, shadowed)"
      and "assert_provenance e shadowed = Inr ()"
      and "assert_tool_result_rewrite e shadowed log base = Inr ()"
      and "plan = Some (PlanReplace
             \<lparr>rp_seq = n, rp_start = start, rp_end = stop, rp_shadowed = shadowed\<rparr> i j)"
      and "is_replacement_surface_event e"
proof -
  from assms obtain op where seq: "ev_seq e = n" and op: "surface_op_of e = Inr op"
    by (auto simp: plan_surface_event_def result_simps)
  show thesis
  proof (cases op)
    case None
    with op have "\<not> is_surface_event e"
      by (auto simp: surface_op_of_def is_surface_event_def result_simps split: if_splits option.splits json.splits)
    with assms seq op None show thesis
      by (intro none) (auto simp: plan_surface_event_def)
  next
    case (Some sop)
    with op have surf: "is_surface_event e"
      by (auto simp: surface_op_of_def is_surface_event_def result_simps split: if_splits option.splits)
    show thesis
    proof (cases sop)
      case OpAppend
      with op Some have "ev_surface_op e = Some (JStr ''append'')"
        by (auto simp: surface_op_of_def is_replace_op_def result_simps split: if_splits option.splits json.splits)
      with surf assms seq op Some OpAppend show thesis
        by (intro append) (auto simp: plan_surface_event_def is_append_surface_event_def result_simps)
    next
      case (OpReplace a b)
      with op Some have "ev_surface_op e \<noteq> Some (JStr ''append'')"
        by (auto simp: surface_op_of_def split: if_splits option.splits)
      with surf have "is_replacement_surface_event e" by (simp add: is_replacement_surface_event_def)
      with assms seq op Some OpReplace show thesis
        by (auto simp: plan_surface_event_def result_simps intro: replace)
    qed
  qed
qed

lemma assert_provenance_Inr:
  "assert_provenance e shadowed = Inr () \<Longrightarrow>
     \<exists>sources. cited_sources e = Inr sources \<and> set shadowed \<subseteq> set sources"
  by (auto simp: assert_provenance_def result_simps filter_empty_conv)

lemma cited_sources_earlier: "cited_sources e = Inr sources \<Longrightarrow> s \<in> set sources \<Longrightarrow> s < ev_seq e"
  by (auto simp: cited_sources_def result_simps find_None_iff split: option.splits json.splits)

lemma rewrite_Inr:
  assumes "assert_tool_result_rewrite e shadowed log base = Inr ()" and "ev_data e = ToolResult d"
  shows "length shadowed = 1 \<and>
    (case map_option ev_data (array_at log (hd shadowed - base)) of
       Some (ToolResult original) \<Rightarrow> same_tool_result_rest original d | _ \<Rightarrow> False)"
proof -
  from assms have "length shadowed = 1" by (simp add: assert_tool_result_rewrite_def result_simps)
  then obtain s where "shadowed = [s]" by (metis One_nat_def length_0_conv length_Suc_conv)
  with assms show ?thesis
    by (auto simp: assert_tool_result_rewrite_def result_simps split: option.splits event_data.splits)
qed

lemma replacement_ok_append:
  assumes "replacement_ok base log r"
  shows "replacement_ok base (log @ es) r"
proof -
  from assms obtain e where e: "array_at log (rp_seq r - base) = Some e"
    by (auto simp: replacement_ok_def split: option.splits)
  have "case map_option ev_data (array_at (log @ es) i) of
          Some (ToolResult original) \<Rightarrow> P original | _ \<Rightarrow> False"
    if "case map_option ev_data (array_at log i) of
          Some (ToolResult original) \<Rightarrow> P original | _ \<Rightarrow> False" for P i
    using that by (cases "array_at log i") (auto simp: array_at_append)
  with assms e array_at_append [OF e, of es] show ?thesis
    by (auto simp: replacement_ok_def split: event_data.splits sum.splits)
qed

lemma replacement_ok_new:
  assumes "ev_seq e = base + int (length log)"
    and "replacement_range st start stop = Inr (i, j, shadowed)"
    and "assert_provenance e shadowed = Inr ()"
    and "assert_tool_result_rewrite e shadowed log base = Inr ()"
    and "is_replacement_surface_event e"
  shows "replacement_ok base (log @ [e])
    \<lparr>rp_seq = base + int (length log), rp_start = start, rp_end = stop, rp_shadowed = shadowed\<rparr>"
proof -
  obtain sources where "cited_sources e = Inr sources" "set shadowed \<subseteq> set sources"
    using assert_provenance_Inr [OF assms(3)] by blast
  moreover have "array_at (log @ [e]) (int (length log)) = Some e" by (simp add: array_at_def)
  moreover have "length shadowed = 1 \<and> (case map_option ev_data (array_at (log @ [e]) (start - base)) of
          Some (ToolResult original) \<Rightarrow> same_tool_result_rest original d | _ \<Rightarrow> False)"
    if "ev_data e = ToolResult d" for d
  proof -
    from rewrite_Inr [OF assms(4) that] replacement_range_shadowed(2) [OF assms(2)]
    have "length shadowed = 1 \<and> (case map_option ev_data (array_at log (start - base)) of
          Some (ToolResult original) \<Rightarrow> same_tool_result_rest original d | _ \<Rightarrow> False)" by simp
    then show ?thesis by (cases "array_at log (start - base)") (auto simp: array_at_append)
  qed
  ultimately show ?thesis
    using assms(1,5) replacement_range_shadowed(1-3) [OF assms(2)]
    by (auto simp: replacement_ok_def dest: cited_sources_earlier split: event_data.splits)
qed

lemma surface_step_hist:
  assumes hist: "surface_hist base log run" and step: "surface_log_step base run e = Inr run'"
  shows "surface_hist base (log @ [e]) run'"
proof -
  obtain st reps where run: "run = (st, reps, log)" using hist by (auto simp: surface_hist_def)
  from step run obtain plan where
      plan: "plan_surface_event st e (base + int (length log)) log base = Inr plan"
    by (auto simp: surface_log_step_def apply_surface_event_def result_simps)
  from hist run have old: "\<forall>i < length log. ev_seq (log ! i) = base + int i"
      "distinct (sf_nodes st @ concat (map rp_shadowed reps))"
      "set (sf_nodes st @ concat (map rp_shadowed reps)) = surface_seqs base log"
      "sf_generation st = length reps" "\<forall>r \<in> set reps. replacement_ok base (log @ [e]) r"
    by (auto simp: surface_hist_def replacement_ok_append)
  have fresh: "base + int (length log) \<notin> set (sf_nodes st @ concat (map rp_shadowed reps))"
    unfolding old(3) by (auto dest: surface_seqs_bound)
  from plan show ?thesis
  proof (cases rule: plan_Inr_cases)
    case none
    with step run plan old show ?thesis
      by (auto simp: surface_hist_def surface_log_step_def apply_surface_event_def
          apply_surface_plan_def surface_seqs_snoc nth_append less_Suc_eq)
  next
    case append
    then have "is_surface_event e" by (simp add: is_append_surface_event_def)
    moreover have "run' = (st\<lparr>sf_nodes := sf_nodes st @ [base + int (length log)]\<rparr>, reps, log @ [e])"
      using append step run plan
      by (simp add: surface_log_step_def apply_surface_event_def apply_surface_plan_def)
    moreover have "distinct ((sf_nodes st @ [base + int (length log)]) @ concat (map rp_shadowed reps))"
      using old(2) fresh by (simp del: set_concat)
    ultimately show ?thesis
      using append(1) old
      by (auto simp: surface_hist_def surface_seqs_snoc nth_append less_Suc_eq)
  next
    case (replace start stop i j shadowed)
    then have "is_surface_event e" by (simp add: is_replacement_surface_event_def)
    moreover define r where "r = \<lparr>rp_seq = base + int (length log), rp_start = start,
        rp_end = stop, rp_shadowed = shadowed\<rparr>"
    moreover have "run' = (\<lparr>sf_nodes = take i (sf_nodes st) @ [base + int (length log)] @ drop (j + 1) (sf_nodes st),
        sf_generation = sf_generation st + 1\<rparr>, reps @ [r], log @ [e])"
      using step run plan replace unfolding r_def
      by (cases st) (simp add: surface_log_step_def apply_surface_event_def apply_surface_plan_def)
    moreover have "replacement_ok base (log @ [e]) r"
      unfolding r_def using replace by (intro replacement_ok_new) auto
    moreover note nodes = replacement_range_shadowed(4) [OF replace(2)]
    moreover have "distinct (take i (sf_nodes st) @ [base + int (length log)] @ drop (j + 1) (sf_nodes st)
        @ concat (map rp_shadowed reps) @ shadowed)"
      using old(2) fresh by (subst (asm) (1 2) nodes) auto
    moreover have "set (sf_nodes st) = set (take i (sf_nodes st)) \<union> set shadowed \<union> set (drop (j + 1) (sf_nodes st))"
      by (subst nodes) auto
    ultimately show ?thesis
      using old(1,3-5) replace(1)
      by (auto simp: surface_hist_def surface_seqs_snoc nth_append less_Suc_eq)
  qed
qed

interpretation surface_run: replay "surface_log_step base" surface_start "surface_hist base"
  for base :: int
proof
  show "surface_hist base [] surface_start"
    by (simp add: surface_hist_def create_fold_state_def)
qed (rule surface_step_hist)

subsection \<open>The complete fold\<close>

lemma surface_hist_bound:
  "surface_hist base log (st, reps, log') \<Longrightarrow> \<forall>s \<in> set (sf_nodes st). s < base + int (length log)"
  by (auto simp: surface_hist_def dest: surface_seqs_bound)

lemma apply_log_append:
  assumes "surface_hist base log (st, reps, log')"
  shows "apply_surface_event st e n (log @ es) base = apply_surface_event st e n log base"
  using plan_log_append [OF surface_hist_bound [OF assms]] by (simp add: apply_surface_event_def)

lemma fold_surface_step_eq:
  assumes "surface_hist 0 log (st, reps, log)"
  shows "fold_surface_step (log @ es) (st, reps) (int (length log), e) =
    bindR (surface_log_step 0 (st, reps, log) e) (\<lambda>(st', reps', _). Inr (st', reps'))"
  using apply_log_append [OF assms]
  by (cases "apply_surface_event st e (int (length log)) log 0")
    (auto simp: fold_surface_step_def surface_log_step_def)

lemma fold_surface_steps_eq:
  assumes "surface_hist 0 log (st, reps, log)"
  shows "foldR (fold_surface_step (log @ es)) (st, reps)
      (zip (map int [length log..<length log + length es]) es) =
    bindR (foldR (surface_log_step 0) (st, reps, log) es) (\<lambda>(st', reps', _). Inr (st', reps'))"
  using assms
proof (induction es arbitrary: log st reps)
  case (Cons e es)
  have upt: "[length log..<length log + length (e # es)] =
      length log # [length (log @ [e])..<length (log @ [e]) + length es]"
    by (simp del: upt_Suc add: upt_conv_Cons)
  show ?case
  proof (cases "surface_log_step 0 (st, reps, log) e")
    case (Inl err)
    with fold_surface_step_eq [OF Cons.prems, of "e # es" e] upt show ?thesis by simp
  next
    case (Inr run)
    from surface_step_hist [OF Cons.prems Inr] obtain st' reps'
      where run: "run = (st', reps', log @ [e])" and "surface_hist 0 (log @ [e]) (st', reps', log @ [e])"
      by (auto simp: surface_hist_def)
    with Cons.IH [of "log @ [e]" st' reps'] fold_surface_step_eq [OF Cons.prems, of "e # es" e] Inr upt
    show ?thesis by simp
  qed
qed simp

lemma fold_surface_replay:
  "fold_surface es = bindR (foldR (surface_log_step 0) surface_start es)
     (\<lambda>(st, reps, _). Inr \<lparr>fr_nodes = sf_nodes st, fr_replacements = reps\<rparr>)"
proof -
  have "foldR (fold_surface_step es) (create_fold_state, []) (entries es) =
      bindR (foldR (surface_log_step 0) surface_start es) (\<lambda>(st, reps, _). Inr (st, reps))"
    using fold_surface_steps_eq [OF surface_run.hist_init [of 0], of es] by (simp add: entries_def)
  then show ?thesis
    unfolding fold_surface_def
    by (auto simp add: bindR_assoc intro!: bindR_cong)
qed

lemma fold_surface_hist:
  assumes "fold_surface es = Inr r"
  obtains st where "foldR (surface_log_step 0) surface_start es = Inr (st, fr_replacements r, es)"
    and "sf_nodes st = fr_nodes r" and "surface_hist 0 es (st, fr_replacements r, es)"
proof -
  from assms obtain run where run: "foldR (surface_log_step 0) surface_start es = Inr run"
      and r: "(case run of (st, reps, _) \<Rightarrow> Inr \<lparr>fr_nodes = sf_nodes st, fr_replacements = reps\<rparr>) =
        (Inr r :: (js_error, surface_fold_result) result)"
    unfolding fold_surface_replay bindR_Inr by blast
  from surface_run.hist_fold [OF run] obtain st reps where eq: "run = (st, reps, es)"
    by (auto simp: surface_hist_def)
  with r have "sf_nodes st = fr_nodes r" and "reps = fr_replacements r" by auto
  with that [of st] run surface_run.hist_fold [OF run] show thesis unfolding eq by blast
qed

subsection \<open>The manager computes the fold\<close>

text \<open>
  What a manager of a log window knows: it has folded the first \<open>k\<close> events, and a pending plan
  is the plan of its event as the next one.
\<close>

definition manager_rep :: "int \<Rightarrow> session_event list \<Rightarrow> surface_manager \<Rightarrow> bool" where
  "manager_rep base log m \<longleftrightarrow>
     (\<exists>k reps. k \<le> length log \<and> sm_last m = base + int k - 1 \<and>
        foldR (surface_log_step base) surface_start (take k log) = Inr (sm_state m, reps, take k log) \<and>
        (case sm_pending m of None \<Rightarrow> True
         | Some (e, s, plan) \<Rightarrow>
             s = base + int k \<and> plan_surface_event (sm_state m) e s (take k log) base = Inr plan))"

lemma manager_rep_new: "manager_rep base log (new_surface_manager base)"
  by (auto simp: manager_rep_def new_surface_manager_def intro!: exI [of _ 0])

lemma manager_rep_push: "manager_rep base log m \<Longrightarrow> manager_rep base (log @ es) m"
  unfolding manager_rep_def by (elim exE, rule_tac x = k in exI) (auto split: option.splits)

text \<open>The plan of the next event, pending or computed, is the plan of the fold.\<close>

lemma process_one_apply:
  assumes "foldR (surface_log_step base) surface_start (take k log) = Inr (sm_state m, reps, take k log)"
    and "k < length log"
    and "case sm_pending m of None \<Rightarrow> True
         | Some (e, s, plan) \<Rightarrow>
             s = base + int k \<and> plan_surface_event (sm_state m) e s (take k log) base = Inr plan"
  shows "process_one m (log ! k) (base + int k) log base =
    bindR (surface_log_step base (sm_state m, reps, take k log) (log ! k)) (\<lambda>(st, _, _).
      Inr \<lparr>sm_state = st, sm_last = base + int k, sm_pending = None\<rparr>)"
proof -
  have "surface_hist base (take k log) (sm_state m, reps, take k log)"
    using surface_run.hist_fold [OF assms(1)] .
  from apply_log_append [OF this, of "log ! k" "base + int k" "drop k log"]
  have "apply_surface_event (sm_state m) (log ! k) (base + int k) log base =
      apply_surface_event (sm_state m) (log ! k) (base + int k) (take k log) base"
    by simp
  with assms(2,3) show ?thesis
    by (cases m; cases "apply_surface_event (sm_state m) (log ! k) (base + int k) (take k log) base")
      (auto simp: process_one_def surface_log_step_def apply_surface_event_def result_simps
        split: option.splits prod.splits if_splits)
qed

text \<open>A manager that has caught up to a prefix continues exactly as the fold does.\<close>

lemma process_delta_fold:
  assumes "foldR (surface_log_step base) surface_start (take k log) = Inr (sm_state m, reps, take k log)"
    and "k \<le> length log" and "sm_last m = base + int k - 1"
    and "case sm_pending m of None \<Rightarrow> True
         | Some (e, s, plan) \<Rightarrow>
             s = base + int k \<and> plan_surface_event (sm_state m) e s (take k log) base = Inr plan"
    and "process_delta m (base + int k) (drop k log) log base = (m', err)"
  shows "manager_rep base log m' \<and>
    (case err of
       None \<Rightarrow> (\<exists>reps'. foldR (surface_log_step base) surface_start log = Inr (sm_state m', reps', log)) \<and>
               sm_last m' = base + int (length log) - 1
     | Some e \<Rightarrow> foldR (surface_log_step base) surface_start log = Inl e)"
  using assms
proof (induction "length log - k" arbitrary: k m reps)
  case 0
  then have k: "k = length log" by simp
  with 0 have "m' = m" and "err = None" by auto
  moreover from 0 k have "manager_rep base log m"
    by (auto simp: manager_rep_def intro!: exI [of _ k])
  ultimately show ?case using 0 k by auto
next
  case (Suc n)
  then have k: "k < length log" by simp
  then have drop: "drop k log = log ! k # drop (Suc k) log" and take: "take (Suc k) log = take k log @ [log ! k]"
    by (simp_all add: Cons_nth_drop_Suc take_Suc_conv_app_nth)
  note one = process_one_apply [OF Suc.prems(1) k Suc.prems(4)]
  have fold: "foldR (surface_log_step base) surface_start (take (Suc k) log) =
      surface_log_step base (sm_state m, reps, take k log) (log ! k)"
    by (simp add: take foldR_snoc Suc.prems(1))
  show ?case
  proof (cases "surface_log_step base (sm_state m, reps, take k log) (log ! k)")
    case (Inl e)
    with one Suc.prems(5) drop have "m' = m" and "err = Some e" by auto
    moreover from fold Inl have "foldR (surface_log_step base) surface_start log = Inl e"
      using foldR_append [of "surface_log_step base" surface_start "take (Suc k) log" "drop (Suc k) log"]
      by simp
    moreover have "manager_rep base log m"
      unfolding manager_rep_def using Suc.prems(1-4) by blast
    ultimately show ?thesis by simp
  next
    case (Inr run)
    with surface_run.hist_step [OF surface_run.hist_fold [OF Suc.prems(1)]]
    obtain st reps' where run: "run = (st, reps', take (Suc k) log)"
      by (cases run) (fastforce simp: surface_hist_def take)
    define m1 where "m1 = \<lparr>sm_state = st, sm_last = base + int k, sm_pending = None\<rparr>"
    from one Inr run have "process_one m (log ! k) (base + int k) log base = Inr m1"
      by (simp add: m1_def)
    with Suc.prems(5) drop have "process_delta m1 (base + int (Suc k)) (drop (Suc k) log) log base = (m', err)"
      by (simp add: algebra_simps)
    with Suc.hyps(1) [of "Suc k" m1 reps'] Suc.hyps(2) k fold Inr run show ?thesis
      by (simp add: m1_def)
  qed
qed

lemma sync_fold:
  assumes "manager_rep base log m" and "sync_manager m log base = (m', err)"
  shows "manager_rep base log m' \<and>
    (case err of
       None \<Rightarrow> (\<exists>reps'. foldR (surface_log_step base) surface_start log = Inr (sm_state m', reps', log)) \<and>
               sm_last m' = base + int (length log) - 1
     | Some e \<Rightarrow> foldR (surface_log_step base) surface_start log = Inl e)"
proof -
  from assms(1) obtain k reps where k: "k \<le> length log" "sm_last m = base + int k - 1"
      "foldR (surface_log_step base) surface_start (take k log) = Inr (sm_state m, reps, take k log)"
      "case sm_pending m of None \<Rightarrow> True
         | Some (e, s, plan) \<Rightarrow>
             s = base + int k \<and> plan_surface_event (sm_state m) e s (take k log) base = Inr plan"
    by (auto simp: manager_rep_def)
  have "process_delta m (base + int k) (drop k log) log base = (m', err)"
    using assms(2) k(1,2) by (auto simp: sync_manager_def split: if_splits)
  with process_delta_fold [OF k(3,1,2,4)] show ?thesis by blast
qed

text \<open>
  The managers a client can hold: built over any log, then read, asked to validate a
  candidate, or left behind while the log grows.
\<close>

inductive manager_reach :: "int \<Rightarrow> session_event list \<Rightarrow> surface_manager \<Rightarrow> bool" for base :: int where
  reach_new: "manager_reach base log (new_surface_manager base)"
| reach_push: "manager_reach base log m \<Longrightarrow> manager_reach base (log @ [e]) m"
| reach_nodes: "manager_reach base log m \<Longrightarrow> manager_reach base log (fst (manager_nodes m log base))"
| reach_generation:
    "manager_reach base log m \<Longrightarrow> manager_reach base log (fst (manager_generation m log base))"
| reach_validate:
    "manager_reach base log m \<Longrightarrow> manager_reach base log (fst (validate_next m log base e))"

lemma validate_next_cases:
  assumes "manager_rep base log m"
  shows "manager_rep base log (fst (validate_next m log base e))"
    and "snd (validate_next m log base e) =
      (case foldR (surface_log_step base) surface_start (log @ [e]) of Inl err \<Rightarrow> Some err | Inr _ \<Rightarrow> None)"
proof -
  obtain m' r where sync: "sync_manager m log base = (m', r)" by (metis surj_pair)
  note caught = sync_fold [OF assms sync]
  have "manager_rep base log (fst (validate_next m log base e)) \<and>
      snd (validate_next m log base e) =
      (case foldR (surface_log_step base) surface_start (log @ [e]) of Inl err \<Rightarrow> Some err | Inr _ \<Rightarrow> None)"
  proof (cases r)
    case (Some err)
    with caught sync show ?thesis by (simp add: validate_next_def foldR_snoc)
  next
    case None
    with caught obtain reps
      where run: "foldR (surface_log_step base) surface_start log = Inr (sm_state m', reps, log)"
        and last: "sm_last m' = base + int (length log) - 1" by auto
    show ?thesis
    proof (cases "plan_surface_event (sm_state m') e (base + int (length log)) log base")
      case (Inl err)
      with run None caught sync show ?thesis
        by (simp add: validate_next_def foldR_snoc surface_log_step_def apply_surface_event_def)
    next
      case (Inr plan)
      with run last have
        "manager_rep base log (m'\<lparr>sm_pending := Some (e, base + int (length log), plan)\<rparr>)"
        by (auto simp: manager_rep_def intro!: exI [of _ "length log"])
      with Inr run None sync show ?thesis
        by (simp add: validate_next_def foldR_snoc surface_log_step_def apply_surface_event_def
            split: prod.splits)
    qed
  qed
  then show "manager_rep base log (fst (validate_next m log base e))"
    and "snd (validate_next m log base e) =
      (case foldR (surface_log_step base) surface_start (log @ [e]) of Inl err \<Rightarrow> Some err | Inr _ \<Rightarrow> None)"
    by auto
qed

lemma manager_read_rep:
  assumes "manager_rep base log m"
  shows "manager_rep base log (fst (manager_nodes m log base))"
    and "manager_rep base log (fst (manager_generation m log base))"
  using assms sync_fold [OF assms]
  by (auto simp: manager_nodes_def manager_generation_def split: prod.splits option.splits)

lemma manager_reach_rep: "manager_reach base log m \<Longrightarrow> manager_rep base log m"
  by (induction rule: manager_reach.induct)
    (simp_all add: manager_rep_new manager_rep_push manager_read_rep validate_next_cases)

lemma manager_read_fold:
  assumes "manager_rep base log m"
  shows "snd (manager_nodes m log base) =
      bindR (foldR (surface_log_step base) surface_start log) (\<lambda>(st, _, _). Inr (sf_nodes st))"
    and "snd (manager_generation m log base) =
      bindR (foldR (surface_log_step base) surface_start log) (\<lambda>(st, _, _). Inr (sf_generation st))"
  using sync_fold [OF assms]
  by (auto simp: manager_nodes_def manager_generation_def split: prod.splits option.splits)

lemma fold_surface_nodes:
  "bindR (fold_surface log) (\<lambda>r. Inr (fr_nodes r)) =
     bindR (foldR (surface_log_step 0) surface_start log) (\<lambda>(st, _, _). Inr (sf_nodes st))"
  by (cases "foldR (surface_log_step 0) surface_start log") (auto simp: fold_surface_replay)

lemma fold_surface_error:
  "(case fold_surface log of Inl err \<Rightarrow> Some err | Inr _ \<Rightarrow> None) =
     (case foldR (surface_log_step 0) surface_start log of Inl err \<Rightarrow> Some err | Inr _ \<Rightarrow> None)"
  by (cases "foldR (surface_log_step 0) surface_start log") (auto simp: fold_surface_replay)

lemma fold_surface_generation:
  "bindR (fold_surface log) (\<lambda>r. Inr (length (fr_replacements r))) =
     bindR (foldR (surface_log_step 0) surface_start log) (\<lambda>(st, _, _). Inr (sf_generation st))"
proof (cases "foldR (surface_log_step 0) surface_start log")
  case (Inr run)
  from surface_run.hist_fold [OF Inr] Inr show ?thesis
    by (cases run) (auto simp: fold_surface_replay surface_hist_def)
qed (simp add: fold_surface_replay)

subsection \<open>Properties\<close>

text \<open>
  C1. The surface partitions the surface events of the log: in an accepted log every
  surface-marked event is either a current node or shadowed by exactly one replacement, exactly
  once, and nothing else is.
\<close>

theorem surface_partition:
  assumes "fold_surface es = Inr r"
  shows "distinct (fr_nodes r @ concat (map rp_shadowed (fr_replacements r))) \<and>
         set (fr_nodes r @ concat (map rp_shadowed (fr_replacements r))) =
         {int i |i. i < length es \<and> is_surface_event (es ! i)}"
proof -
  from fold_surface_hist [OF assms] obtain st
    where "surface_hist 0 es (st, fr_replacements r, es)" and "sf_nodes st = fr_nodes r" .
  then show ?thesis
    by (auto simp: surface_hist_def surface_seqs_def)
qed

text \<open>A log used by the witnesses: two messages, then a summary that replaces both.\<close>

definition sample_message :: "string \<Rightarrow> message" where
  "sample_message i =
     \<lparr>msg_id = i, msg_role = UserRole, msg_content = [TextBlock ''hi''],
      msg_source = OtherSource (JObj [(''kind'', JStr ''user'')])\<rparr>"

definition sample_user :: "int \<Rightarrow> json \<Rightarrow> json option \<Rightarrow> session_event" where
  "sample_user n op sources =
     \<lparr>ev_seq = n, ev_time = 0, ev_data = UserMessage (sample_message ''m''), ev_ignorable = False,
      ev_surface_op = Some op, ev_sources = sources\<rparr>"

definition sample_log :: "session_event list" where
  "sample_log =
     [sample_user 0 (JStr ''append'') None,
      sample_user 1 (JStr ''append'') None,
      sample_user 2 (JObj [(''op'', JStr ''replace''), (''start'', JInt 0), (''end'', JInt 1)])
        (Some (JArr [JInt 0, JInt 1]))]"

definition sample_fold :: surface_fold_result where
  "sample_fold = \<lparr>fr_nodes = [2],
     fr_replacements = [\<lparr>rp_seq = 2, rp_start = 0, rp_end = 1, rp_shadowed = [0, 1]\<rparr>]\<rparr>"

lemma sample_log_fold: "fold_surface sample_log = Inr sample_fold"
  by code_simp

lemma surface_partition_witness:
  "set [2, 0, 1] = {int i |i. i < length sample_log \<and> is_surface_event (sample_log ! i)}"
  using surface_partition [OF sample_log_fold] by (simp add: sample_fold_def)

text \<open>
  C2. Every replacement in an accepted log was made by a replace-marked event at its own
  sequence, removes the nodes from its declared start to its declared end, and cites every
  node it removes among earlier events.
\<close>

theorem surface_provenance:
  assumes "fold_surface es = Inr r" and "p \<in> set (fr_replacements r)"
  shows "\<exists>e sources. array_at es (rp_seq p) = Some e \<and> is_replacement_surface_event e \<and>
    rp_shadowed p \<noteq> [] \<and> hd (rp_shadowed p) = rp_start p \<and> last (rp_shadowed p) = rp_end p \<and>
    cited_sources e = Inr sources \<and> set (rp_shadowed p) \<subseteq> set sources \<and>
    (\<forall>s \<in> set sources. s < rp_seq p)"
proof -
  from fold_surface_hist [OF assms(1)] obtain st
    where "surface_hist 0 es (st, fr_replacements r, es)" .
  with assms(2) have "replacement_ok 0 es p" by (auto simp: surface_hist_def)
  then show ?thesis
    by (auto simp: replacement_ok_def split: option.splits sum.splits)
qed

lemma surface_provenance_witness:
  "\<exists>e sources. array_at sample_log 2 = Some e \<and> is_replacement_surface_event e \<and>
     cited_sources e = Inr sources \<and> {0, 1} \<subseteq> set sources"
  using surface_provenance [OF sample_log_fold,
      of "\<lparr>rp_seq = 2, rp_start = 0, rp_end = 1, rp_shadowed = [0, 1]\<rparr>"]
  by (auto simp: sample_fold_def)

text \<open>
  A replacement by a tool result rewrites exactly one current tool result and changes
  nothing but the content of its block; in particular it answers the same call.
\<close>

theorem tool_result_rewrite_content_only:
  assumes "fold_surface es = Inr r" and "p \<in> set (fr_replacements r)"
    and "array_at es (rp_seq p) = Some e" and "ev_data e = ToolResult d"
  shows "\<exists>o_event original. rp_shadowed p = [rp_start p] \<and> array_at es (rp_start p) = Some o_event \<and>
    ev_data o_event = ToolResult original \<and> same_tool_result_rest original d \<and>
    tr_block_call (trd_message d) = tr_block_call (trd_message original)"
proof -
  from fold_surface_hist [OF assms(1)] obtain st
    where "surface_hist 0 es (st, fr_replacements r, es)" .
  with assms(2) have ok: "replacement_ok 0 es p" by (auto simp: surface_hist_def)
  then have "length (rp_shadowed p) = 1" and "hd (rp_shadowed p) = rp_start p"
    using assms(3,4) by (auto simp: replacement_ok_def)
  then have one: "rp_shadowed p = [rp_start p]" by (cases "rp_shadowed p") auto
  from ok assms(3,4) obtain o_event original where "array_at es (rp_start p) = Some o_event"
      and "ev_data o_event = ToolResult original" and same: "same_tool_result_rest original d"
    by (auto simp: replacement_ok_def split: option.splits event_data.splits)
  moreover have "tr_block_call (trd_message d) = tr_block_call (trd_message original)"
  proof -
    from same have "tool_result_rest original = tool_result_rest d"
      by (simp add: same_tool_result_rest_def)
    then have "tr_block_call (trd_message (tool_result_rest original)) =
        tr_block_call (trd_message (tool_result_rest d))" by simp
    then show ?thesis by (simp add: tool_result_rest_def)
  qed
  ultimately show ?thesis using one by blast
qed

definition sample_result :: "int \<Rightarrow> content_block list \<Rightarrow> json \<Rightarrow> json option \<Rightarrow> session_event" where
  "sample_result n content op sources =
     \<lparr>ev_seq = n, ev_time = 0,
      ev_data = ToolResult \<lparr>trd_turn = 0, trd_step = 0,
        trd_message = \<lparr>tr_id = ''r'', tr_call = ''c'', tr_block_call = ''c'',
          tr_block_content = content, tr_block_error = None\<rparr>,
        trd_error = None, trd_meta = None\<rparr>,
      ev_ignorable = False, ev_surface_op = Some op, ev_sources = sources\<rparr>"

definition sample_rewrite_log :: "session_event list" where
  "sample_rewrite_log =
     [sample_result 0 [TextBlock ''long''] (JStr ''append'') None,
      sample_result 1 [TextBlock ''short'']
        (JObj [(''op'', JStr ''replace''), (''start'', JInt 0), (''end'', JInt 0)])
        (Some (JArr [JInt 0]))]"

lemma sample_rewrite_fold:
  "fold_surface sample_rewrite_log = Inr \<lparr>fr_nodes = [1],
     fr_replacements = [\<lparr>rp_seq = 1, rp_start = 0, rp_end = 0, rp_shadowed = [0]\<rparr>]\<rparr>"
  by code_simp

lemma tool_result_rewrite_content_only_witness:
  "\<exists>o_event original. array_at sample_rewrite_log 0 = Some o_event \<and>
     ev_data o_event = ToolResult original \<and> tr_block_call (trd_message original) = ''c''"
proof -
  let ?e = "sample_rewrite_log ! 1"
  have "array_at sample_rewrite_log 1 = Some ?e"
    by (simp add: array_at_def sample_rewrite_log_def)
  moreover obtain d where "ev_data ?e = ToolResult d" and "tr_block_call (trd_message d) = ''c''"
    by (simp add: sample_rewrite_log_def sample_result_def)
  ultimately show ?thesis
    using tool_result_rewrite_content_only [OF sample_rewrite_fold,
        of "\<lparr>rp_seq = 1, rp_start = 0, rp_end = 0, rp_shadowed = [0]\<rparr>" ?e d]
    by auto
qed

text \<open>
  C3. The incremental manager refines the complete fold: whatever was read, validated or
  appended before, its nodes and its replacement count are those of \<open>foldSurface\<close> on the whole
  log, and it reports the same error when the fold rejects the log.
\<close>

theorem manager_refines_fold:
  assumes "manager_reach 0 log m"
  shows "snd (manager_nodes m log 0) = bindR (fold_surface log) (\<lambda>r. Inr (fr_nodes r)) \<and>
    snd (manager_generation m log 0) =
      bindR (fold_surface log) (\<lambda>r. Inr (length (fr_replacements r)))"
  using manager_read_fold [OF manager_reach_rep [OF assms]] fold_surface_nodes fold_surface_generation
  by simp

definition sample_manager :: surface_manager where
  "sample_manager = fst (manager_nodes (new_surface_manager 0) (take 2 sample_log) 0)"

lemma sample_manager_reach: "manager_reach 0 sample_log sample_manager"
proof -
  have "manager_reach 0 (take 2 sample_log) sample_manager"
    unfolding sample_manager_def by (intro reach_nodes reach_new)
  from reach_push [OF this, of "sample_log ! 2"] show ?thesis
    by (simp add: sample_log_def)
qed

lemma manager_refines_fold_witness: "snd (manager_nodes sample_manager sample_log 0) = Inr [2]"
  using manager_refines_fold [OF sample_manager_reach] by (simp add: sample_log_fold sample_fold_def)

text \<open>
  C4. The append boundary is exact: \<open>validateNext\<close> throws on a candidate precisely when the
  complete fold of the log extended by the candidate throws, and with the same error.
\<close>

theorem validate_next_exact:
  assumes "manager_reach 0 log m"
  shows "snd (validate_next m log 0 e) =
    (case fold_surface (log @ [e]) of Inl err \<Rightarrow> Some err | Inr _ \<Rightarrow> None)"
  using validate_next_cases(2) [OF manager_reach_rep [OF assms]] fold_surface_error by simp

lemma validate_next_exact_witness:
  "snd (validate_next (new_surface_manager 0) (take 2 sample_log) 0 (sample_log ! 2)) = None"
proof -
  have "take 2 sample_log @ [sample_log ! 2] = sample_log" by (simp add: sample_log_def)
  with validate_next_exact [OF reach_new, of "take 2 sample_log" "sample_log ! 2"]
  show ?thesis by (simp add: sample_log_fold)
qed

end
