(* ===== verification/SessionTrace.thy ===== *)
theory SessionTrace
  imports Surface
begin

text \<open>
  The relational invariant of the session log
  (\<open>packages/core/session/src/invariant.ts\<close>): turns and steps open and close in order, are
  numbered without gaps, and tool results answer calls of their own step. Validation of an
  event is separate from committing its transition, as in the companion plugin.
\<close>

subsection \<open>The trace and its transitions\<close>

record session_trace =
  tr_last_seq :: int
  tr_open_turn :: "int option"
  tr_open_step :: "int option"
  tr_next_turn :: int
  tr_next_step :: int
  tr_pending :: "string set"

datatype pending_change = NoChange | AddCall string | DeleteCall string | ClearCalls

record trace_transition =
  tt_last_seq :: int
  tt_open_turn :: "int option"
  tt_open_step :: "int option"
  tt_next_turn :: int
  tt_next_step :: int
  tt_pending :: pending_change

definition fresh_trace :: session_trace where
  "fresh_trace =
     \<lparr>tr_last_seq = -1, tr_open_turn = None, tr_open_step = None,
      tr_next_turn = 1, tr_next_step = 1, tr_pending = {}\<rparr>"

definition tool_not_started :: string where
  "tool_not_started = ''TOOL_NOT_STARTED''"

definition require_open_step ::
    "session_trace \<Rightarrow> int \<Rightarrow> int \<Rightarrow> (js_error, 'a) result \<Rightarrow> (js_error, 'a) result" where
  "require_open_step tr turn step k =
     throw_if (tr_open_turn tr \<noteq> Some turn \<or> tr_open_step tr \<noteq> Some step)
       (JsError ''step-scoped event names a turn/step that is not open'') k"

text \<open>The transition of an event that only advances the sequence.\<close>

definition keep_transition :: "session_trace \<Rightarrow> session_event \<Rightarrow> trace_transition" where
  "keep_transition tr e =
     \<lparr>tt_last_seq = ev_seq e, tt_open_turn = tr_open_turn tr, tt_open_step = tr_open_step tr,
      tt_next_turn = tr_next_turn tr, tt_next_step = tr_next_step tr, tt_pending = NoChange\<rparr>"

definition validate_event :: "session_trace \<Rightarrow> session_event \<Rightarrow> (js_error, trace_transition) result" where
  "validate_event tr e =
     throw_if (ev_seq e \<le> tr_last_seq tr) (JsError ''seq must strictly increase'')
     (let keep = keep_transition tr e in
      case ev_data e of
        TurnStart turn \<Rightarrow>
          throw_if (tr_open_turn tr \<noteq> None) (JsError ''turn/start while a turn is still open'')
          (throw_if (turn \<noteq> tr_next_turn tr) (JsError ''turn/start has an unexpected turn'')
          (Inr (keep\<lparr>tt_open_turn := Some turn, tt_next_step := 1\<rparr>)))
      | TurnEnd turn _ \<Rightarrow>
          throw_if (tr_open_turn tr \<noteq> Some turn) (JsError ''turn/end does not match open turn'')
          (throw_if (tr_open_step tr \<noteq> None) (JsError ''turn/end while a step is still open'')
          (Inr (keep\<lparr>tt_open_turn := None, tt_next_turn := tr_next_turn tr + 1\<rparr>)))
      | StepStart turn step \<Rightarrow>
          throw_if (tr_open_turn tr \<noteq> Some turn) (JsError ''step/start outside its turn'')
          (throw_if (tr_open_step tr \<noteq> None) (JsError ''step/start while a step is still open'')
          (throw_if (step \<noteq> tr_next_step tr) (JsError ''step/start has an unexpected step'')
          (Inr (keep\<lparr>tt_open_step := Some step\<rparr>))))
      | StepEnd turn step \<Rightarrow>
          require_open_step tr turn step
          (Inr (keep\<lparr>tt_open_step := None, tt_next_step := tr_next_step tr + 1, tt_pending := ClearCalls\<rparr>))
      | AssistantChunk turn step _ \<Rightarrow> require_open_step tr turn step (Inr keep)
      | AssistantMessage turn step _ _ _ \<Rightarrow> require_open_step tr turn step (Inr keep)
      | ToolCall turn step call_id _ _ \<Rightarrow>
          require_open_step tr turn step (Inr (keep\<lparr>tt_pending := AddCall call_id\<rparr>))
      | ToolResult d \<Rightarrow>
          if ev_surface_op e \<noteq> Some (JStr ''append'') then
            throw_if (tr_open_turn tr = None)
              (JsError ''tool/result surface replacement appended outside any open turn'')
            (Inr keep)
          else
            require_open_step tr (trd_turn d) (trd_step d)
            (let call_id = tr_call (trd_message d);
                 synthetic = (tr_block_error (trd_message d) = Some True \<and>
                   map_option snd (trd_error d) = Some tool_not_started) in
             throw_if (call_id \<notin> tr_pending tr \<and> \<not> synthetic)
               (JsError ''tool/result with no prior tool/call in this step'')
             (Inr (keep\<lparr>tt_pending := DeleteCall call_id\<rparr>)))
      | UserMessage _ \<Rightarrow> Inr keep
      | EndSeed \<Rightarrow> Inr keep
      | TodoWrite _ \<Rightarrow>
          throw_if (tr_open_turn tr = None) (JsError ''todo/write appended outside any open turn'') (Inr keep)
      | RequestHeader _ _ \<Rightarrow>
          throw_if (tr_open_turn tr = None) (JsError ''request/header appended outside any open turn'') (Inr keep)
      | RequestContext _ \<Rightarrow>
          throw_if (tr_open_turn tr = None) (JsError ''request/context appended outside any open turn'') (Inr keep)
      | PluginEvent _ _ \<Rightarrow> Inr keep)"

definition apply_transition :: "session_trace \<Rightarrow> trace_transition \<Rightarrow> session_trace" where
  "apply_transition tr t =
     \<lparr>tr_last_seq = tt_last_seq t, tr_open_turn = tt_open_turn t, tr_open_step = tt_open_step t,
      tr_next_turn = tt_next_turn t, tr_next_step = tt_next_step t,
      tr_pending = (case tt_pending t of
          NoChange \<Rightarrow> tr_pending tr
        | AddCall c \<Rightarrow> insert c (tr_pending tr)
        | DeleteCall c \<Rightarrow> tr_pending tr - {c}
        | ClearCalls \<Rightarrow> {})\<rparr>"

definition trace_step :: "session_trace \<Rightarrow> session_event \<Rightarrow> (js_error, session_trace) result" where
  "trace_step tr e = bindR (validate_event tr e) (\<lambda>t. Inr (apply_transition tr t))"

definition seed_session :: "session_event list \<Rightarrow> (js_error, session_trace) result" where
  "seed_session events = foldR trace_step fresh_trace events"

subsection \<open>What an accepted log looks like\<close>

text \<open>The turn boundaries of a log, starts marked \<open>True\<close>.\<close>

fun turn_marks :: "session_event list \<Rightarrow> (bool \<times> int) list" where
  "turn_marks [] = []"
| "turn_marks (e # es) =
     (case ev_data e of
        TurnStart t \<Rightarrow> [(True, t)]
      | TurnEnd t _ \<Rightarrow> [(False, t)]
      | _ \<Rightarrow> []) @ turn_marks es"

definition closed_turns :: "int \<Rightarrow> (bool \<times> int) list" where
  "closed_turns n = concat (map (\<lambda>k. [(True, k), (False, k)]) [1..n])"

text \<open>A tool result that is an execution of a call, not a rewrite and not a recovery record.\<close>

definition executed_result :: "session_event \<Rightarrow> tool_result_data option" where
  "executed_result e =
     (case ev_data e of
        ToolResult d \<Rightarrow>
          if ev_surface_op e = Some (JStr ''append'') \<and>
             \<not> (tr_block_error (trd_message d) = Some True \<and>
                map_option snd (trd_error d) = Some tool_not_started)
          then Some d else None
      | _ \<Rightarrow> None)"

definition is_call_of :: "int \<Rightarrow> int \<Rightarrow> string \<Rightarrow> session_event \<Rightarrow> bool" where
  "is_call_of turn step c e \<longleftrightarrow>
     (case ev_data e of ToolCall turn' step' c' _ _ \<Rightarrow> turn' = turn \<and> step' = step \<and> c' = c | _ \<Rightarrow> False)"

definition results_answer_calls :: "session_event list \<Rightarrow> bool" where
  "results_answer_calls log \<longleftrightarrow>
     (\<forall>i < length log. \<forall>d. executed_result (log ! i) = Some d \<longrightarrow>
        (\<exists>j < i. is_call_of (trd_turn d) (trd_step d) (tr_call (trd_message d)) (log ! j)))"

definition trace_hist :: "session_event list \<Rightarrow> session_trace \<Rightarrow> bool" where
  "trace_hist log tr \<longleftrightarrow>
     sorted_wrt (<) (map ev_seq log) \<and>
     (\<forall>e \<in> set log. ev_seq e \<le> tr_last_seq tr) \<and>
     (log \<noteq> [] \<longrightarrow> tr_last_seq tr = ev_seq (last log)) \<and>
     1 \<le> tr_next_turn tr \<and>
     turn_marks log = closed_turns (tr_next_turn tr - 1) @
       (case tr_open_turn tr of None \<Rightarrow> [] | Some t \<Rightarrow> [(True, t)]) \<and>
     (\<forall>t. tr_open_turn tr = Some t \<longrightarrow> t = tr_next_turn tr) \<and>
     (tr_open_step tr \<noteq> None \<longrightarrow> tr_open_turn tr \<noteq> None) \<and>
     (\<forall>c \<in> tr_pending tr. \<exists>t s. tr_open_turn tr = Some t \<and> tr_open_step tr = Some s \<and>
        (\<exists>e \<in> set log. is_call_of t s c e)) \<and>
     results_answer_calls log"

lemma closed_turns_Suc: "1 \<le> n \<Longrightarrow> closed_turns n = closed_turns (n - 1) @ [(True, n), (False, n)]"
  unfolding closed_turns_def by (simp add: upto_rec2)

lemma turn_marks_snoc:
  "turn_marks (es @ [e]) = turn_marks es @
     (case ev_data e of TurnStart t \<Rightarrow> [(True, t)] | TurnEnd t _ \<Rightarrow> [(False, t)] | _ \<Rightarrow> [])"
  by (induction es) (auto split: event_data.splits)

lemma sorted_snoc_seq:
  "sorted_wrt (<) (map ev_seq log) \<Longrightarrow> \<forall>e \<in> set log. ev_seq e \<le> n \<Longrightarrow> n < ev_seq e' \<Longrightarrow>
     sorted_wrt (<) (map ev_seq (log @ [e']))"
  by (fastforce simp: sorted_wrt_append)

lemma results_answer_snoc:
  assumes "results_answer_calls log"
    and "\<And>d. executed_result e = Some d \<Longrightarrow>
      \<exists>e' \<in> set log. is_call_of (trd_turn d) (trd_step d) (tr_call (trd_message d)) e'"
  shows "results_answer_calls (log @ [e])"
  unfolding results_answer_calls_def
proof (intro allI impI)
  fix i d
  assume i: "i < length (log @ [e])" and d: "executed_result ((log @ [e]) ! i) = Some d"
  show "\<exists>j < i. is_call_of (trd_turn d) (trd_step d) (tr_call (trd_message d)) ((log @ [e]) ! j)"
  proof (cases "i < length log")
    case True
    with d have "executed_result (log ! i) = Some d" by (simp add: nth_append)
    with assms(1) True obtain j where "j < i"
        and "is_call_of (trd_turn d) (trd_step d) (tr_call (trd_message d)) (log ! j)"
      unfolding results_answer_calls_def by blast
    with True show ?thesis by (intro exI [of _ j]) (simp add: nth_append)
  next
    case False
    with i have "i = length log" by simp
    with d assms(2) [of d] show ?thesis by (auto simp: nth_append in_set_conv_nth)
  qed
qed

text \<open>The successor trace of an accepted event, by the kind of event.\<close>

lemma require_open_step_Inr [result_simps]:
  "require_open_step tr turn step k = Inr x \<longleftrightarrow>
     tr_open_turn tr = Some turn \<and> tr_open_step tr = Some step \<and> k = Inr x"
  by (auto simp: require_open_step_def result_simps)

lemma trace_step_seq:
  assumes "trace_step tr e = Inr tr'"
  shows "tr_last_seq tr < ev_seq e \<and> tr_last_seq tr' = ev_seq e"
  using assms
  by (auto simp: trace_step_def validate_event_def apply_transition_def keep_transition_def Let_def
      result_simps split: event_data.splits if_splits)

lemma trace_step_data:
  assumes "trace_step tr e = Inr tr'"
  shows "case ev_data e of
      TurnStart t \<Rightarrow> tr_open_turn tr = None \<and> t = tr_next_turn tr \<and> tr_open_turn tr' = Some t \<and>
        tr_next_turn tr' = tr_next_turn tr \<and> tr_open_step tr' = tr_open_step tr \<and> tr_pending tr' = tr_pending tr
    | TurnEnd t _ \<Rightarrow> tr_open_turn tr = Some t \<and> tr_open_step tr = None \<and> tr_open_turn tr' = None \<and>
        tr_next_turn tr' = tr_next_turn tr + 1 \<and> tr_open_step tr' = None \<and> tr_pending tr' = tr_pending tr
    | StepStart t s \<Rightarrow> tr_open_turn tr = Some t \<and> tr_open_step tr = None \<and> tr_open_turn tr' = Some t \<and>
        tr_next_turn tr' = tr_next_turn tr \<and> tr_open_step tr' = Some s \<and> tr_pending tr' = tr_pending tr
    | StepEnd t s \<Rightarrow> tr_open_turn tr = Some t \<and> tr_open_step tr = Some s \<and> tr_open_turn tr' = Some t \<and>
        tr_next_turn tr' = tr_next_turn tr \<and> tr_open_step tr' = None \<and> tr_pending tr' = {}
    | AssistantMessage t s _ _ _ \<Rightarrow> tr_open_turn tr = Some t \<and> tr_open_step tr = Some s \<and>
        tr_open_turn tr' = Some t \<and> tr_next_turn tr' = tr_next_turn tr \<and> tr_open_step tr' = Some s \<and>
        tr_pending tr' = tr_pending tr
    | ToolCall t s c _ _ \<Rightarrow> tr_open_turn tr = Some t \<and> tr_open_step tr = Some s \<and>
        tr_open_turn tr' = Some t \<and> tr_next_turn tr' = tr_next_turn tr \<and> tr_open_step tr' = Some s \<and>
        tr_pending tr' = insert c (tr_pending tr)
    | ToolResult d \<Rightarrow>
        tr_open_turn tr \<noteq> None \<and> tr_open_turn tr' = tr_open_turn tr \<and>
        tr_next_turn tr' = tr_next_turn tr \<and> tr_open_step tr' = tr_open_step tr \<and>
        (if ev_surface_op e = Some (JStr ''append'')
         then tr_open_turn tr = Some (trd_turn d) \<and> tr_open_step tr = Some (trd_step d) \<and>
              tr_pending tr' = tr_pending tr - {tr_call (trd_message d)} \<and>
              (executed_result e \<noteq> None \<longrightarrow> tr_call (trd_message d) \<in> tr_pending tr)
         else tr_pending tr' = tr_pending tr)
    | _ \<Rightarrow> tr_open_turn tr' = tr_open_turn tr \<and> tr_next_turn tr' = tr_next_turn tr \<and>
        tr_open_step tr' = tr_open_step tr \<and> tr_pending tr' = tr_pending tr"
  using assms
  by (cases "ev_data e")
    (auto simp: trace_step_def validate_event_def apply_transition_def keep_transition_def Let_def
      executed_result_def result_simps split: if_splits)

lemma trace_step_hist:
  assumes hist: "trace_hist log tr" and step: "trace_step tr e = Inr tr'"
  shows "trace_hist (log @ [e]) tr'"
proof -
  note data = trace_step_data [OF step]
  note seq = trace_step_seq [OF step]
  have "sorted_wrt (<) (map ev_seq (log @ [e]))"
    using hist seq by (intro sorted_snoc_seq [of log "tr_last_seq tr"]) (auto simp: trace_hist_def)
  moreover have "\<forall>x \<in> set (log @ [e]). ev_seq x \<le> tr_last_seq tr'"
    using hist seq by (force simp: trace_hist_def)
  moreover have "turn_marks (log @ [e]) = closed_turns (tr_next_turn tr' - 1) @
      (case tr_open_turn tr' of None \<Rightarrow> [] | Some t \<Rightarrow> [(True, t)])"
    using hist data closed_turns_Suc [of "tr_next_turn tr"]
    by (cases "ev_data e") (auto simp: trace_hist_def turn_marks_snoc)
  moreover have "1 \<le> tr_next_turn tr' \<and> (\<forall>t. tr_open_turn tr' = Some t \<longrightarrow> t = tr_next_turn tr') \<and>
      (tr_open_step tr' \<noteq> None \<longrightarrow> tr_open_turn tr' \<noteq> None)"
    using hist data by (cases "ev_data e") (auto simp: trace_hist_def)
  moreover have "\<forall>c \<in> tr_pending tr'. \<exists>t s. tr_open_turn tr' = Some t \<and> tr_open_step tr' = Some s \<and>
        (\<exists>e' \<in> set (log @ [e]). is_call_of t s c e')"
  proof
    fix c assume c: "c \<in> tr_pending tr'"
    show "\<exists>t s. tr_open_turn tr' = Some t \<and> tr_open_step tr' = Some s \<and>
        (\<exists>e' \<in> set (log @ [e]). is_call_of t s c e')"
    proof (cases "c \<in> tr_pending tr")
      case True
      with hist obtain t s where "tr_open_turn tr = Some t" "tr_open_step tr = Some s"
          "\<exists>e' \<in> set (log @ [e]). is_call_of t s c e'"
        by (fastforce simp: trace_hist_def)
      with data c show ?thesis by (cases "ev_data e") auto
    next
      case False
      with data c show ?thesis
        by (cases "ev_data e") (auto simp: is_call_of_def split: if_splits)
    qed
  qed
  moreover have "results_answer_calls (log @ [e])"
  proof (rule results_answer_snoc)
    show "results_answer_calls log" using hist by (simp add: trace_hist_def)
    fix d assume d: "executed_result e = Some d"
    then have "ev_data e = ToolResult d" and "ev_surface_op e = Some (JStr ''append'')"
      by (auto simp: executed_result_def split: event_data.splits if_splits)
    with data d have "tr_open_turn tr = Some (trd_turn d)" "tr_open_step tr = Some (trd_step d)"
        "tr_call (trd_message d) \<in> tr_pending tr" by auto
    with hist show "\<exists>e' \<in> set log. is_call_of (trd_turn d) (trd_step d) (tr_call (trd_message d)) e'"
      by (fastforce simp: trace_hist_def)
  qed
  ultimately show ?thesis using seq by (simp add: trace_hist_def)
qed

lemma fresh_trace_hist: "trace_hist [] fresh_trace"
  by (simp add: trace_hist_def fresh_trace_def closed_turns_def results_answer_calls_def)

lemma trace_step_rank:
  assumes "trace_step tr e = Inr tr'"
  shows "nat (tr_next_turn tr) \<le> nat (tr_next_turn tr')"
  using trace_step_data [OF assms] by (cases "ev_data e") auto

interpretation session_trace: ranked_replay trace_step fresh_trace trace_hist "\<lambda>tr. nat (tr_next_turn tr)"
  by unfold_locales (auto intro: fresh_trace_hist trace_step_hist trace_step_rank)

subsection \<open>Properties\<close>

text \<open>
  C5. Turns of an accepted log are bracketed: its turn boundaries are exactly start and end of
  turns 1, 2, up to the last closed turn, followed by the start of the next turn when one is
  open, and event sequences strictly increase.
\<close>

theorem trace_turns_bracketed:
  assumes "seed_session log = Inr tr"
  shows "turn_marks log = closed_turns (tr_next_turn tr - 1) @
      (case tr_open_turn tr of None \<Rightarrow> [] | Some t \<Rightarrow> [(True, tr_next_turn tr)]) \<and>
    sorted_wrt (<) (map ev_seq log)"
proof -
  have "trace_hist log tr"
    using assms unfolding seed_session_def by (rule session_trace.hist_fold)
  then show ?thesis by (auto simp: trace_hist_def split: option.splits)
qed

text \<open>
  In an accepted log every executed tool result, one that is neither a surface rewrite nor
  the recovery record of a call that never started, follows a call with its id in the same turn
  and step.
\<close>

theorem trace_results_answer_calls:
  assumes "seed_session log = Inr tr" and "i < length log" and "executed_result (log ! i) = Some d"
  shows "\<exists>j < i. is_call_of (trd_turn d) (trd_step d) (tr_call (trd_message d)) (log ! j)"
proof -
  have "trace_hist log tr"
    using assms(1) unfolding seed_session_def by (rule session_trace.hist_fold)
  with assms(2,3) show ?thesis by (auto simp: trace_hist_def results_answer_calls_def)
qed

definition plain_event :: "int \<Rightarrow> event_data \<Rightarrow> session_event" where
  "plain_event n d =
     \<lparr>ev_seq = n, ev_time = 7, ev_data = d, ev_ignorable = False, ev_surface_op = None, ev_sources = None\<rparr>"

definition sample_assistant :: message where
  "sample_assistant =
     \<lparr>msg_id = ''a'', msg_role = AssistantRole,
      msg_content = [ToolCallBlock ''c'' ''bash'' ''{}'', ToolCallBlock ''d'' ''bash'' ''{}''],
      msg_source = ModelSource ''p'' ''m'' None\<rparr>"

text \<open>A turn whose step requested two calls, started one of them, and was cut off.\<close>

definition sample_tail :: "session_event list" where
  "sample_tail =
     [plain_event 0 (TurnStart 1),
      plain_event 1 (StepStart 1 1),
      (plain_event 2 (AssistantMessage 1 1 sample_assistant None False))\<lparr>ev_surface_op := Some (JStr ''append'')\<rparr>,
      plain_event 3 (ToolCall 1 1 ''c'' ''bash'' ''{}'')]"

definition sample_turn :: "session_event list" where
  "sample_turn = sample_tail @
     [(sample_result 4 [] (JStr ''append'') None)\<lparr>ev_data := ToolResult \<lparr>trd_turn = 1, trd_step = 1,
        trd_message = \<lparr>tr_id = ''r'', tr_call = ''c'', tr_block_call = ''c'',
          tr_block_content = [], tr_block_error = None\<rparr>,
        trd_error = None, trd_meta = None\<rparr>\<rparr>,
      plain_event 5 (StepEnd 1 1),
      plain_event 6 (TurnEnd 1 EndCompleted),
      plain_event 7 (TurnStart 2)]"

lemmas sample_trace_defs = sample_turn_def sample_tail_def plain_event_def sample_result_def
  seed_session_def trace_step_def validate_event_def apply_transition_def keep_transition_def
  require_open_step_def fresh_trace_def Let_def

lemma sample_turn_trace:
  "seed_session sample_turn = Inr \<lparr>tr_last_seq = 7, tr_open_turn = Some 2, tr_open_step = None,
     tr_next_turn = 2, tr_next_step = 1, tr_pending = {}\<rparr>"
  by (simp add: sample_trace_defs)

lemma trace_turns_bracketed_witness:
  "turn_marks sample_turn = [(True, 1), (False, 1), (True, 2)]"
  using trace_turns_bracketed [OF sample_turn_trace] by (simp add: closed_turns_def)

lemma trace_results_answer_calls_witness: "\<exists>j < 4. is_call_of 1 1 ''c'' (sample_turn ! j)"
  using trace_results_answer_calls [OF sample_turn_trace, of 4]
  by (simp add: sample_turn_def sample_tail_def sample_result_def executed_result_def)

end
