(* ===== verification/Repair.thy ===== *)
theory Repair
  imports SessionTrace
begin

text \<open>
  Crash recovery of an interrupted log (\<open>packages/core/session/src/repair.ts\<close>): the synthetic
  events that answer pending calls and close the open step and turn. The lemmas relate the
  repair scan to the trace of \<open>SessionTrace\<close> and to the surface fold: the closers are accepted
  by both.
\<close>

subsection \<open>The scan\<close>

record pending_entry =
  pe_step :: int
  pe_call_seq :: "int option"

record repair_state =
  rs_turn :: "int option"
  rs_step :: "int option"
  rs_pending :: "(string, pending_entry) jsmap"

definition repair_start :: repair_state where
  "repair_start = \<lparr>rs_turn = None, rs_step = None, rs_pending = []\<rparr>"

fun register_blocks ::
    "int \<Rightarrow> content_block list \<Rightarrow> (string, pending_entry) jsmap \<Rightarrow> (string, pending_entry) jsmap" where
  "register_blocks step [] m = m"
| "register_blocks step (ToolCallBlock c _ _ # bs) m =
     register_blocks step bs (map_set c \<lparr>pe_step = step, pe_call_seq = None\<rparr> m)"
| "register_blocks step (_ # bs) m = register_blocks step bs m"

definition repair_step :: "repair_state \<Rightarrow> session_event \<Rightarrow> repair_state" where
  "repair_step rs e =
     (case ev_data e of
        TurnStart t \<Rightarrow> \<lparr>rs_turn = Some t, rs_step = None, rs_pending = []\<rparr>
      | TurnEnd _ _ \<Rightarrow> \<lparr>rs_turn = None, rs_step = None, rs_pending = []\<rparr>
      | StepStart _ s \<Rightarrow> rs\<lparr>rs_step := Some s\<rparr>
      | StepEnd _ _ \<Rightarrow> rs\<lparr>rs_pending := [], rs_step := None\<rparr>
      | AssistantMessage _ s m _ _ \<Rightarrow>
          rs\<lparr>rs_pending := register_blocks s (msg_content m) (rs_pending rs)\<rparr>
      | ToolCall _ _ c _ _ \<Rightarrow>
          (case map_get (rs_pending rs) c of
             None \<Rightarrow> rs
           | Some entry \<Rightarrow> rs\<lparr>rs_pending := map_set c (entry\<lparr>pe_call_seq := Some (ev_seq e)\<rparr>) (rs_pending rs)\<rparr>)
      | ToolResult d \<Rightarrow> rs\<lparr>rs_pending := map_delete (tr_call (trd_message d)) (rs_pending rs)\<rparr>
      | _ \<Rightarrow> rs)"

definition repair_scan :: "session_event list \<Rightarrow> repair_state" where
  "repair_scan events = foldl repair_step repair_start events"

subsection \<open>The closing events\<close>

definition tool_outcome_unknown :: string where
  "tool_outcome_unknown = ''TOOL_OUTCOME_UNKNOWN''"

definition outcome_unknown_text :: string where
  "outcome_unknown_text = ''The tool call was interrupted after it was recorded, but no result was durably recorded. Its outcome is unknown. Decide whether to retry from the tool semantics: retry only if the operation is read-only or idempotent; if it may have side effects, first verify external state or ask the user. Do not retry blindly.''"

definition not_started_text :: string where
  "not_started_text = ''The tool call was interrupted before the Harness recorded it as started. Retry it if it is still needed.''"

definition call_closer :: "int \<Rightarrow> int \<Rightarrow> int \<Rightarrow> string \<times> pending_entry \<Rightarrow> session_event" where
  "call_closer turn time s entry =
     (case entry of (c, pe) \<Rightarrow>
        (let started = (pe_call_seq pe \<noteq> None) in
         \<lparr>ev_seq = s, ev_time = time,
          ev_data = ToolResult
            \<lparr>trd_turn = turn, trd_step = pe_step pe,
             trd_message = \<lparr>tr_id = ''interrupted-tool-result-'' @ c @ ''-'' @ show_int s, tr_call = c,
               tr_block_call = c,
               tr_block_content = [TextBlock (if started then outcome_unknown_text else not_started_text)],
               tr_block_error = Some True\<rparr>,
             trd_error = Some (if started then (''ToolOutcomeUnknownError'', tool_outcome_unknown)
               else (''ToolNotStartedError'', tool_not_started)),
             trd_meta = None\<rparr>,
          ev_ignorable = False, ev_surface_op = Some (JStr ''append''),
          ev_sources = (case pe_call_seq pe of None \<Rightarrow> None | Some q \<Rightarrow> Some (JArr [JInt q]))\<rparr>))"

fun call_closers :: "int \<Rightarrow> int \<Rightarrow> int \<Rightarrow> (string, pending_entry) jsmap \<Rightarrow> session_event list" where
  "call_closers turn time s [] = []"
| "call_closers turn time s (entry # rest) =
     call_closer turn time s entry # call_closers turn time (s + 1) rest"

definition boundary_event :: "int \<Rightarrow> int \<Rightarrow> event_data \<Rightarrow> session_event" where
  "boundary_event s time d =
     \<lparr>ev_seq = s, ev_time = time, ev_data = d, ev_ignorable = False, ev_surface_op = None, ev_sources = None\<rparr>"

definition interrupted_turn_closers :: "session_event list \<Rightarrow> session_event list" where
  "interrupted_turn_closers events =
     (let rs = repair_scan events in
      case (rs_turn rs, array_last events) of
        (Some turn, Some lst) \<Rightarrow>
          (let s = ev_seq lst + 1;
               time = ev_time lst;
               calls = call_closers turn time s (rs_pending rs);
               s' = s + int (length (rs_pending rs))
           in case rs_step rs of
                None \<Rightarrow> calls @ [boundary_event s' time (TurnEnd turn EndInterrupted)]
              | Some step \<Rightarrow>
                  calls @ [boundary_event s' time (StepEnd turn step),
                           boundary_event (s' + 1) time (TurnEnd turn EndInterrupted)])
      | _ \<Rightarrow> [])"

subsection \<open>The scan follows the trace\<close>

definition repair_rel :: "session_event list \<Rightarrow> session_trace \<Rightarrow> repair_state \<Rightarrow> bool" where
  "repair_rel log tr rs \<longleftrightarrow>
     rs_turn rs = tr_open_turn tr \<and> rs_step rs = tr_open_step tr \<and>
     map_ok (rs_pending rs) \<and>
     (\<forall>(c, pe) \<in> set (rs_pending rs).
        tr_open_step tr = Some (pe_step pe) \<and>
        (\<forall>q. pe_call_seq pe = Some q \<longrightarrow> c \<in> tr_pending tr \<and> q \<in> ev_seq ` set log))"

lemma register_blocks_ok: "map_ok m \<Longrightarrow> map_ok (register_blocks s bs m)"
  by (induction s bs m rule: register_blocks.induct) simp_all

lemma register_blocks_set:
  "p \<in> set (register_blocks s bs m) \<Longrightarrow> p \<in> set m \<or> snd p = \<lparr>pe_step = s, pe_call_seq = None\<rparr>"
  by (induction s bs m rule: register_blocks.induct) (auto dest!: subsetD [OF set_map_set_subset])

lemma repair_rel_step:
  assumes hist: "trace_hist log tr" and rel: "repair_rel log tr rs" and step: "trace_step tr e = Inr tr'"
  shows "repair_rel (log @ [e]) tr' (repair_step rs e)"
proof -
  note data = trace_step_data [OF step]
  have idle: "tr_open_turn tr = None \<Longrightarrow> tr_open_step tr = None"
    using hist by (auto simp: trace_hist_def)
  show ?thesis
  proof (cases "ev_data e")
    case (AssistantMessage t s m u b)
    with rel data show ?thesis
      by (fastforce simp: repair_rel_def repair_step_def register_blocks_ok dest: register_blocks_set)
  next
    case (ToolCall t s c n a)
    show ?thesis
    proof (cases "map_get (rs_pending rs) c")
      case None
      with ToolCall rel data show ?thesis by (fastforce simp: repair_rel_def repair_step_def)
    next
      case (Some pe)
      then have "(c, pe) \<in> set (rs_pending rs)" by (rule map_of_SomeD)
      with rel have "tr_open_step tr = Some (pe_step pe)" by (auto simp: repair_rel_def)
      with Some ToolCall rel data show ?thesis
        by (fastforce simp: repair_rel_def repair_step_def dest: subsetD [OF set_map_set_subset])
    qed
  next
    case (ToolResult d)
    with rel data show ?thesis
      by (fastforce simp: repair_rel_def repair_step_def set_map_delete split: if_splits)
  qed (use rel data idle in \<open>fastforce simp: repair_rel_def repair_step_def\<close>)+
qed

lemma repair_rel_fold:
  assumes "seed_session log = Inr tr"
  shows "repair_rel log tr (repair_scan log)"
  using assms
proof (induction log arbitrary: tr rule: rev_induct)
  case Nil
  then show ?case
    by (auto simp: repair_rel_def repair_scan_def repair_start_def seed_session_def fresh_trace_def)
next
  case (snoc e log)
  then obtain tr0 where tr0: "seed_session log = Inr tr0" and step: "trace_step tr0 e = Inr tr"
    by (auto simp: seed_session_def foldR_snoc result_simps)
  have "trace_hist log tr0" using tr0 unfolding seed_session_def by (rule session_trace.hist_fold)
  from repair_rel_step [OF this snoc.IH [OF tr0] step] show ?case by (simp add: repair_scan_def)
qed

subsection \<open>The closers are accepted\<close>

lemma call_closer_step:
  assumes "tr_open_turn tr = Some turn" and "tr_open_step tr = Some (pe_step pe)"
    and "tr_last_seq tr = s - 1" and "pe_call_seq pe \<noteq> None \<Longrightarrow> c \<in> tr_pending tr"
  shows "trace_step tr (call_closer turn time s (c, pe)) =
    Inr (tr\<lparr>tr_last_seq := s, tr_pending := tr_pending tr - {c}\<rparr>)"
  using assms
  by (cases "pe_call_seq pe")
    (auto simp: call_closer_def trace_step_def validate_event_def keep_transition_def
      apply_transition_def require_open_step_def Let_def)

lemma call_closers_trace:
  assumes "tr_open_turn tr = Some turn" and "tr_last_seq tr = s - 1" and "map_ok m"
    and "\<forall>(c, pe) \<in> set m. tr_open_step tr = Some (pe_step pe) \<and> (pe_call_seq pe \<noteq> None \<longrightarrow> c \<in> tr_pending tr)"
  shows "foldR trace_step tr (call_closers turn time s m) =
    Inr (tr\<lparr>tr_last_seq := s - 1 + int (length m), tr_pending := tr_pending tr - fst ` set m\<rparr>)"
  using assms
proof (induction m arbitrary: tr s)
  case Nil
  then show ?case by simp
next
  case (Cons p m)
  obtain c pe where p: "p = (c, pe)" by force
  from Cons.prems p have one: "trace_step tr (call_closer turn time s p) =
      Inr (tr\<lparr>tr_last_seq := s, tr_pending := tr_pending tr - {c}\<rparr>)"
    by (auto intro: call_closer_step)
  have "foldR trace_step (tr\<lparr>tr_last_seq := s, tr_pending := tr_pending tr - {c}\<rparr>)
      (call_closers turn time (s + 1) m) =
      Inr (tr\<lparr>tr_last_seq := s + int (length m), tr_pending := tr_pending tr - {c} - fst ` set m\<rparr>)"
    using Cons.prems p
    by (subst Cons.IH) (auto simp: map_ok_def image_iff)
  moreover have "tr_pending tr - {c} - fst ` set m = tr_pending tr - fst ` set (p # m)"
    using p by auto
  ultimately show ?case using one by simp
qed

lemma closers_trace:
  assumes "seed_session log = Inr tr" and "tr_open_turn tr = Some turn"
  shows "foldR trace_step tr (interrupted_turn_closers log) =
    Inr \<lparr>tr_last_seq = tr_last_seq tr + int (length (interrupted_turn_closers log)),
      tr_open_turn = None, tr_open_step = None, tr_next_turn = turn + 1,
      tr_next_step = (case tr_open_step tr of None \<Rightarrow> tr_next_step tr | Some _ \<Rightarrow> tr_next_step tr + 1),
      tr_pending = {}\<rparr>"
proof -
  have hist: "trace_hist log tr"
    using assms(1) unfolding seed_session_def by (rule session_trace.hist_fold)
  with assms(2) have "log \<noteq> []"
    by (auto simp: trace_hist_def closed_turns_def)
  with hist have last: "array_last log = Some (last log)" "ev_seq (last log) = tr_last_seq tr"
    by (auto simp: array_last_def trace_hist_def)
  from hist assms(2) have next_turn: "tr_next_turn tr = turn"
    and idle: "tr_open_step tr = None \<Longrightarrow> tr_pending tr = {}"
    by (fastforce simp: trace_hist_def)+
  define rs where "rs = repair_scan log"
  have rel: "repair_rel log tr rs" unfolding rs_def by (rule repair_rel_fold [OF assms(1)])
  note calls = call_closers_trace [of tr turn "tr_last_seq tr + 1" "rs_pending rs" "ev_time (last log)"]
  define closed where "closed = tr\<lparr>tr_last_seq := tr_last_seq tr + int (length (rs_pending rs)),
      tr_pending := tr_pending tr - fst ` set (rs_pending rs)\<rparr>"
  have calls: "foldR trace_step tr (call_closers turn (ev_time (last log)) (tr_last_seq tr + 1) (rs_pending rs)) =
      Inr closed"
    unfolding closed_def using rel assms(2) by (subst calls) (auto simp: repair_rel_def)
  have len: "length (call_closers turn time s m) = length m" for time s m
    by (induction m arbitrary: s) simp_all
  show ?thesis
    using rel last assms(2) next_turn idle calls
    by (cases "tr_open_step tr")
      (simp_all add: interrupted_turn_closers_def rs_def [symmetric] repair_rel_def foldR_append len
        closed_def trace_step_def validate_event_def boundary_event_def keep_transition_def
        apply_transition_def require_open_step_def Let_def)
qed

lemma repair_scan_append: "repair_scan (es @ fs) = foldl repair_step (repair_scan es) fs"
  by (simp add: repair_scan_def)

lemma call_closers_scan:
  "rs_turn (foldl repair_step rs (call_closers turn time s m)) = rs_turn rs"
  by (induction m arbitrary: rs s)
    (auto simp: repair_step_def call_closer_def Let_def)

lemma closers_balanced:
  assumes "interrupted_turn_closers log \<noteq> []"
  shows "repair_scan (log @ interrupted_turn_closers log) = \<lparr>rs_turn = None, rs_step = None, rs_pending = []\<rparr>"
proof -
  obtain pre t s time where "interrupted_turn_closers log = pre @ [boundary_event s time (TurnEnd t EndInterrupted)]"
    using assms
    by (auto simp: interrupted_turn_closers_def Let_def split: option.splits)
  then show ?thesis by (simp add: repair_scan_append repair_step_def boundary_event_def)
qed

lemma closers_unanswered:
  "interrupted_turn_closers log = [] \<Longrightarrow> log \<noteq> [] \<Longrightarrow> rs_turn (repair_scan log) = None"
  by (auto simp: interrupted_turn_closers_def Let_def array_last_def split: option.splits)

subsection \<open>The closers extend the surface\<close>

lemma surface_append_step:
  assumes "ev_seq e = int (length log)" and "is_surface_eligible_type (ev_type e)"
    and "ev_surface_op e = Some (JStr ''append'')" and "cited_sources e = Inr sources"
  shows "surface_log_step 0 (st, reps, log) e =
    Inr (st\<lparr>sf_nodes := sf_nodes st @ [int (length log)]\<rparr>, reps, log @ [e])"
  using assms
  by (simp add: surface_log_step_def apply_surface_event_def plan_surface_event_def surface_op_of_def
      assert_provenance_def apply_surface_plan_def)

lemma surface_boundary_step:
  assumes "\<not> is_surface_eligible_type (data_type d)"
  shows "surface_log_step 0 (st, reps, log) (boundary_event (int (length log)) time d) =
    Inr (st, reps, log @ [boundary_event (int (length log)) time d])"
  using assms
  by (simp add: surface_log_step_def apply_surface_event_def plan_surface_event_def surface_op_of_def
      boundary_event_def apply_surface_plan_def)

lemma call_closer_sources:
  assumes "\<forall>q. pe_call_seq pe = Some q \<longrightarrow> is_event_seq q \<and> q < s"
  shows "\<exists>sources. cited_sources (call_closer turn time s (c, pe)) = Inr sources"
  using assms
  by (cases "pe_call_seq pe")
    (auto simp: call_closer_def cited_sources_def source_seq_of_def json_event_seq_def set_size_def Let_def)

lemma call_closers_surface:
  assumes "\<forall>(c, pe) \<in> set m. \<forall>q. pe_call_seq pe = Some q \<longrightarrow> is_event_seq q \<and> q < int (length log)"
  shows "foldR (surface_log_step 0) (st, reps, log) (call_closers turn time (int (length log)) m) =
    Inr (st\<lparr>sf_nodes := sf_nodes st @ map int [length log..<length log + length m]\<rparr>, reps,
      log @ call_closers turn time (int (length log)) m)"
  using assms
proof (induction m arbitrary: st log)
  case (Cons p m)
  obtain c pe where p: "p = (c, pe)" by force
  let ?e = "call_closer turn time (int (length log)) p"
  obtain sources where "cited_sources ?e = Inr sources"
    using call_closer_sources [where pe = pe and s = "int (length log)" and c = c and turn = turn and time = time]
      Cons.prems p by auto
  moreover have "ev_seq ?e = int (length log)" "ev_surface_op ?e = Some (JStr ''append'')"
      "is_surface_eligible_type (ev_type ?e)"
    by (simp_all add: p call_closer_def Let_def is_surface_eligible_type_def surface_event_types_def
        split del: if_split)
  ultimately have one: "surface_log_step 0 (st, reps, log) ?e =
      Inr (st\<lparr>sf_nodes := sf_nodes st @ [int (length log)]\<rparr>, reps, log @ [?e])"
    by (intro surface_append_step)
  have "\<forall>(c, pe) \<in> set m. \<forall>q. pe_call_seq pe = Some q \<longrightarrow> is_event_seq q \<and> q < int (length (log @ [?e]))"
    using Cons.prems by fastforce
  from Cons.IH [OF this, of "st\<lparr>sf_nodes := sf_nodes st @ [int (length log)]\<rparr>"]
  have "foldR (surface_log_step 0) (st\<lparr>sf_nodes := sf_nodes st @ [int (length log)]\<rparr>, reps, log @ [?e])
      (call_closers turn time (int (length log) + 1) m) =
    Inr (st\<lparr>sf_nodes := sf_nodes st @ map int [length log..<length log + length (p # m)]\<rparr>, reps,
      log @ ?e # call_closers turn time (int (length log) + 1) m)"
    by (simp add: algebra_simps upt_conv_Cons del: upt_Suc)
  with one show ?case by simp
qed simp

lemma closers_surface:
  assumes trace: "seed_session log = Inr tr" and surf: "fold_surface log = Inr r"
    and small: "int (length log) \<le> max_safe"
  shows "fold_surface (log @ interrupted_turn_closers log) =
    Inr (r\<lparr>fr_nodes := fr_nodes r @
      (if interrupted_turn_closers log = [] then []
       else map int [length log..<length log + length (rs_pending (repair_scan log))])\<rparr>)"
proof (cases "interrupted_turn_closers log = []")
  case True
  with surf show ?thesis by simp
next
  case False
  define rs where "rs = repair_scan log"
  from False obtain turn where turn: "rs_turn rs = Some turn" and last: "array_last log = Some (last log)"
      and ne: "log \<noteq> []"
    by (auto simp: interrupted_turn_closers_def rs_def Let_def array_last_def split: option.splits if_splits)
  obtain st where run: "foldR (surface_log_step 0) surface_start log = Inr (st, fr_replacements r, log)"
      and nodes: "sf_nodes st = fr_nodes r" and hist: "surface_hist 0 log (st, fr_replacements r, log)"
    using fold_surface_hist [OF surf] .
  from hist have seqs: "\<forall>i < length log. ev_seq (log ! i) = int i" by (simp add: surface_hist_def)
  have next_seq: "ev_seq (last log) + 1 = int (length log)"
    using ne seqs [rule_format, of "length log - 1"] by (simp add: last_conv_nth of_nat_diff Suc_le_eq)
  have seq_range: "0 \<le> q \<and> q < int (length log)" if "q \<in> ev_seq ` set log" for q
    using that seqs by (auto simp: in_set_conv_nth)
  have "repair_rel log tr rs" unfolding rs_def by (rule repair_rel_fold [OF trace])
  then have cited: "\<forall>(c, pe) \<in> set (rs_pending rs). \<forall>q. pe_call_seq pe = Some q \<longrightarrow>
      is_event_seq q \<and> q < int (length log)"
    using seq_range small by (fastforce simp: repair_rel_def is_event_seq_def is_safe_def)
  have bound: "\<not> is_surface_eligible_type ''step/end''" "\<not> is_surface_eligible_type ''turn/end''"
    by (simp_all add: is_surface_eligible_type_def surface_event_types_def)
  let ?calls = "call_closers turn (ev_time (last log)) (int (length log)) (rs_pending rs)"
  have len: "length (call_closers turn time s m) = length m" for time s m
    by (induction m arbitrary: s) simp_all
  let ?n = "int (length log) + int (length (rs_pending rs))"
  have first: "surface_log_step 0 (st', reps, log @ ?calls) (boundary_event ?n time d) =
      Inr (st', reps, log @ ?calls @ [boundary_event ?n time d])"
    if "\<not> is_surface_eligible_type (data_type d)" for st' reps time d
    using surface_boundary_step [of d st' reps "log @ ?calls" time] that by (simp add: len)
  have second: "surface_log_step 0 (st', reps, log @ ?calls @ [x]) (boundary_event (?n + 1) time d) =
      Inr (st', reps, log @ ?calls @ [x, boundary_event (?n + 1) time d])"
    if "\<not> is_surface_eligible_type (data_type d)" for st' reps time d x
    using surface_boundary_step [of d st' reps "log @ ?calls @ [x]" time] that by (simp add: len add_ac)
  show ?thesis
    using call_closers_surface [OF cited, of st "fr_replacements r" turn "ev_time (last log)"] run
      turn last next_seq False nodes
    by (cases "rs_step rs")
      (simp_all add: fold_surface_replay foldR_append interrupted_turn_closers_def Let_def
        rs_def [symmetric] first second bound)
qed

subsection \<open>The unanswered calls of a log\<close>

text \<open>
  What is to be closed, read off the log itself: a call is unanswered when an assistant message
  requested it and since then no result answered it and no step or turn boundary passed. It was
  started when a \<open>tool/call\<close> record followed that request.
\<close>

definition announced :: "session_event \<Rightarrow> string set" where
  "announced e =
     (case ev_data e of
        AssistantMessage _ _ m _ _ \<Rightarrow> {c. \<exists>n a. ToolCallBlock c n a \<in> set (msg_content m)}
      | _ \<Rightarrow> {})"

definition resets_calls :: "session_event \<Rightarrow> bool" where
  "resets_calls e =
     (case ev_data e of TurnStart _ \<Rightarrow> True | TurnEnd _ _ \<Rightarrow> True | StepEnd _ _ \<Rightarrow> True | _ \<Rightarrow> False)"

definition answers_call :: "string \<Rightarrow> session_event \<Rightarrow> bool" where
  "answers_call c e = (case ev_data e of ToolResult d \<Rightarrow> tr_call (trd_message d) = c | _ \<Rightarrow> False)"

definition records_call :: "string \<Rightarrow> session_event \<Rightarrow> bool" where
  "records_call c e = (case ev_data e of ToolCall _ _ c' _ _ \<Rightarrow> c' = c | _ \<Rightarrow> False)"

definition unanswered :: "session_event list \<Rightarrow> string \<Rightarrow> bool" where
  "unanswered log c \<longleftrightarrow> (\<exists>pre e post. log = pre @ e # post \<and> c \<in> announced e \<and>
     (\<forall>f \<in> set post. \<not> resets_calls f \<and> \<not> answers_call c f))"

definition started_at :: "session_event list \<Rightarrow> string \<Rightarrow> int \<Rightarrow> bool" where
  "started_at log c q \<longleftrightarrow> (\<exists>pre e post. log = pre @ e # post \<and>
     (records_call c e \<and> ev_seq e = q \<and> unanswered pre c) \<and>
     (\<forall>f \<in> set post. \<not> resets_calls f \<and> \<not> answers_call c f \<and> c \<notin> announced f \<and> \<not> records_call c f))"

text \<open>The last event of a list with a property, when an event is added at the end.\<close>

lemma last_such_snoc:
  "(\<exists>pre e post. xs @ [x] = pre @ e # post \<and> P pre e \<and> (\<forall>f \<in> set post. Q f)) \<longleftrightarrow>
   P xs x \<or> (Q x \<and> (\<exists>pre e post. xs = pre @ e # post \<and> P pre e \<and> (\<forall>f \<in> set post. Q f)))"
  (is "?l \<longleftrightarrow> ?r")
proof
  assume ?l
  then obtain pre e post where split: "xs @ [x] = pre @ e # post" "P pre e" "\<forall>f \<in> set post. Q f"
    by blast
  then show ?r by (cases post rule: rev_cases) auto
next
  assume ?r
  then show ?l
  proof
    assume "P xs x"
    then show ?l by (intro exI [of _ xs] exI [of _ x] exI [of _ "[]"]) simp
  next
    assume "Q x \<and> (\<exists>pre e post. xs = pre @ e # post \<and> P pre e \<and> (\<forall>f \<in> set post. Q f))"
    then obtain pre e post where "Q x" "xs = pre @ e # post" "P pre e" "\<forall>f \<in> set post. Q f" by blast
    then show ?l by (intro exI [of _ pre] exI [of _ e] exI [of _ "post @ [x]"]) simp
  qed
qed

lemma unanswered_snoc:
  "unanswered (log @ [e]) c \<longleftrightarrow>
   c \<in> announced e \<or> (\<not> resets_calls e \<and> \<not> answers_call c e) \<and> unanswered log c"
  unfolding unanswered_def by (rule last_such_snoc [where P = "\<lambda>_ e. c \<in> announced e"])

lemma started_at_snoc:
  "started_at (log @ [e]) c q \<longleftrightarrow>
   (records_call c e \<and> ev_seq e = q \<and> unanswered log c) \<or>
   (\<not> resets_calls e \<and> \<not> answers_call c e \<and> c \<notin> announced e \<and> \<not> records_call c e) \<and> started_at log c q"
  unfolding started_at_def
  by (rule last_such_snoc [where P = "\<lambda>pre e. records_call c e \<and> ev_seq e = q \<and> unanswered pre c"])

lemma register_blocks_get:
  "map_get (register_blocks s bs m) c =
   (if \<exists>n a. ToolCallBlock c n a \<in> set bs then Some \<lparr>pe_step = s, pe_call_seq = None\<rparr> else map_get m c)"
  by (induction s bs m rule: register_blocks.induct) auto

text \<open>The scan holds exactly the unanswered calls, each with the record that started it.\<close>

definition call_matches :: "session_event list \<Rightarrow> string \<Rightarrow> pending_entry option \<Rightarrow> bool" where
  "call_matches log c entry \<longleftrightarrow>
     (unanswered log c \<longleftrightarrow> entry \<noteq> None) \<and>
     (\<forall>q. started_at log c q \<longleftrightarrow> (\<exists>pe. entry = Some pe \<and> pe_call_seq pe = Some q))"

definition scan_calls :: "session_event list \<Rightarrow> repair_state \<Rightarrow> bool" where
  "scan_calls log rs \<longleftrightarrow> map_ok (rs_pending rs) \<and>
     (\<forall>c. call_matches log c (map_get (rs_pending rs) c))"

lemmas call_event_defs = announced_def resets_calls_def answers_call_def records_call_def

lemma repair_step_pending_ok:
  "map_ok (rs_pending rs) \<Longrightarrow> map_ok (rs_pending (repair_step rs e))"
  by (auto simp: repair_step_def register_blocks_ok split: event_data.splits option.splits)

lemma call_matches_step:
  assumes ok: "map_ok (rs_pending rs)" and one: "call_matches log c (map_get (rs_pending rs) c)"
  shows "call_matches (log @ [e]) c (map_get (rs_pending (repair_step rs e)) c)"
proof (cases "ev_data e")
  case (AssistantMessage t s m u b)
  with one show ?thesis
    by (auto simp: call_matches_def repair_step_def register_blocks_get unanswered_snoc started_at_snoc
        call_event_defs)
next
  case (ToolCall t s c' n a)
  with one show ?thesis
    by (cases "map_get (rs_pending rs) c'"; cases "c = c'")
      (auto simp: call_matches_def repair_step_def unanswered_snoc started_at_snoc call_event_defs)
next
  case (ToolResult d)
  with one ok show ?thesis
    by (cases "c = tr_call (trd_message d)")
      (auto simp: call_matches_def repair_step_def unanswered_snoc started_at_snoc call_event_defs
        AList.delete_conv')
qed (use one in \<open>simp add: call_matches_def repair_step_def unanswered_snoc started_at_snoc
      call_event_defs\<close>)+

lemma scan_calls_log: "scan_calls log (repair_scan log)"
proof (induction log rule: rev_induct)
  case Nil
  then show ?case
    by (simp add: scan_calls_def call_matches_def repair_scan_def repair_start_def unanswered_def started_at_def)
next
  case (snoc e log)
  have "repair_scan (log @ [e]) = repair_step (repair_scan log) e" by (simp add: repair_scan_def)
  with snoc show ?case
    unfolding scan_calls_def by (auto intro: repair_step_pending_ok call_matches_step)
qed

lemma scan_calls_keys: "set (map fst (rs_pending (repair_scan log))) = {c. unanswered log c}"
proof -
  have "c \<in> fst ` set (rs_pending (repair_scan log)) \<longleftrightarrow> unanswered log c" for c
    using scan_calls_log [of log] map_of_eq_None_iff [of "rs_pending (repair_scan log)" c]
    unfolding scan_calls_def call_matches_def by blast
  then show ?thesis by auto
qed

text \<open>The result that closes a call: an error that says whether the call had been started.\<close>

definition closing_result :: "session_event list \<Rightarrow> session_event \<Rightarrow> string \<Rightarrow> bool" where
  "closing_result log e c \<longleftrightarrow> (\<exists>d. ev_data e = ToolResult d \<and>
     tr_call (trd_message d) = c \<and> tr_block_call (trd_message d) = c \<and>
     tr_block_error (trd_message d) = Some True \<and>
     ((\<exists>q. started_at log c q \<and> ev_sources e = Some (JArr [JInt q]) \<and>
         trd_error d = Some (''ToolOutcomeUnknownError'', ''TOOL_OUTCOME_UNKNOWN'')) \<or>
      ((\<nexists>q. started_at log c q) \<and> ev_sources e = None \<and>
         trd_error d = Some (''ToolNotStartedError'', ''TOOL_NOT_STARTED''))))"

lemma call_closer_closes:
  assumes "call_matches log c (Some pe)"
  shows "closing_result log (call_closer turn time s (c, pe)) c"
proof (cases "pe_call_seq pe")
  case None
  with assms have "\<nexists>q. started_at log c q" by (simp add: call_matches_def)
  with None show ?thesis
    by (simp add: closing_result_def call_closer_def tool_not_started_def)
next
  case (Some q)
  with assms have "started_at log c q" by (simp add: call_matches_def)
  with Some show ?thesis
    by (auto simp: closing_result_def call_closer_def tool_outcome_unknown_def)
qed

lemma call_closers_close:
  assumes "\<forall>(c, pe) \<in> set m. call_matches log c (Some pe)"
  shows "list_all2 (closing_result log) (call_closers turn time s m) (map fst m)"
  using assms
proof (induction m arbitrary: s)
  case (Cons p m)
  then show ?case by (cases p) (simp add: call_closer_closes)
qed simp

lemma closers_answer:
  assumes "seed_session log = Inr tr" and "tr_open_turn tr = Some turn"
  shows "\<exists>results boundaries. interrupted_turn_closers log = results @ boundaries \<and>
    list_all2 (closing_result log) results (map fst (rs_pending (repair_scan log))) \<and>
    map ev_data boundaries =
      (case tr_open_step tr of None \<Rightarrow> [] | Some step \<Rightarrow> [StepEnd turn step]) @ [TurnEnd turn EndInterrupted]"
proof -
  define rs where "rs = repair_scan log"
  have rel: "repair_rel log tr rs" unfolding rs_def by (rule repair_rel_fold [OF assms(1)])
  have "log \<noteq> []" using assms by (auto simp: seed_session_def fresh_trace_def)
  then have last: "array_last log = Some (last log)" by (simp add: array_last_def)
  let ?calls = "call_closers turn (ev_time (last log)) (ev_seq (last log) + 1) (rs_pending rs)"
  have scan: "map_ok (rs_pending rs)" "\<And>c. call_matches log c (map_get (rs_pending rs) c)"
    using scan_calls_log [of log] by (simp_all add: scan_calls_def rs_def)
  have "call_matches log c (Some pe)" if "(c, pe) \<in> set (rs_pending rs)" for c pe
    using scan(2) [of c] that scan(1) by (simp add: map_ok_def)
  then have answered: "list_all2 (closing_result log) ?calls (map fst (rs_pending rs))"
    by (intro call_closers_close) auto
  show ?thesis
  proof (cases "tr_open_step tr")
    case None
    with rel assms(2) last answered show ?thesis
      by (intro exI [of _ ?calls] exI [of _ "drop (length ?calls) (interrupted_turn_closers log)"])
        (simp add: interrupted_turn_closers_def rs_def [symmetric] repair_rel_def boundary_event_def Let_def)
  next
    case (Some step)
    with rel assms(2) last answered show ?thesis
      by (intro exI [of _ ?calls] exI [of _ "drop (length ?calls) (interrupted_turn_closers log)"])
        (simp add: interrupted_turn_closers_def rs_def [symmetric] repair_rel_def boundary_event_def Let_def)
  qed
qed

subsection \<open>Properties\<close>

text \<open>
  C6. Repair closes an interrupted log. When the trace accepts the log, the closers are first one
  error result for each call that is unanswered in the log, and for no other call, saying that
  the outcome is unknown and citing the record when the call was started, and that it was not
  started otherwise; then the end of the open step and of the open turn, if there is one. The
  trace accepts them after the log, and then no turn, step or call is open.
\<close>

theorem repair_closes_trace:
  assumes "seed_session log = Inr tr"
  shows "\<exists>tr' calls results boundaries.
    interrupted_turn_closers log = results @ boundaries \<and>
    distinct calls \<and> set calls = {c. unanswered log c} \<and>
    list_all2 (closing_result log) results calls \<and>
    map ev_data boundaries =
      (case tr_open_turn tr of
         None \<Rightarrow> []
       | Some turn \<Rightarrow> (case tr_open_step tr of None \<Rightarrow> [] | Some step \<Rightarrow> [StepEnd turn step]) @
           [TurnEnd turn EndInterrupted]) \<and>
    seed_session (log @ interrupted_turn_closers log) = Inr tr' \<and>
    tr_open_turn tr' = None \<and> tr_open_step tr' = None \<and> tr_pending tr' = {}"
proof (cases "tr_open_turn tr")
  case None
  have "trace_hist log tr"
    using assms unfolding seed_session_def by (rule session_trace.hist_fold)
  with None have closed: "tr_open_step tr = None" "tr_pending tr = {}"
    by (fastforce simp: trace_hist_def)+
  have rel: "repair_rel log tr (repair_scan log)" by (rule repair_rel_fold [OF assms])
  from None rel have none: "interrupted_turn_closers log = []"
    by (simp add: interrupted_turn_closers_def repair_rel_def Let_def)
  from rel closed(1) have "rs_pending (repair_scan log) = []"
    by (cases "rs_pending (repair_scan log)") (auto simp: repair_rel_def)
  with scan_calls_keys [of log] have "{c. unanswered log c} = {}" by simp
  with assms None none closed show ?thesis
    by (intro exI [of _ tr] exI [of _ "[]"]) simp
next
  case (Some turn)
  from closers_answer [OF assms Some] obtain results boundaries where
    parts: "interrupted_turn_closers log = results @ boundaries"
      "list_all2 (closing_result log) results (map fst (rs_pending (repair_scan log)))"
      "map ev_data boundaries =
        (case tr_open_step tr of None \<Rightarrow> [] | Some step \<Rightarrow> [StepEnd turn step]) @ [TurnEnd turn EndInterrupted]"
    by blast
  have "distinct (map fst (rs_pending (repair_scan log)))"
    using scan_calls_log [of log] by (simp add: scan_calls_def map_ok_def)
  moreover obtain tr' where "seed_session (log @ interrupted_turn_closers log) = Inr tr'"
      "tr_open_turn tr' = None" "tr_open_step tr' = None" "tr_pending tr' = {}"
    using closers_trace [OF assms Some] assms by (simp add: seed_session_def foldR_append)
  ultimately show ?thesis
    using parts scan_calls_keys [of log] Some
    by (intro exI [of _ tr'] exI [of _ "map fst (rs_pending (repair_scan log))"] exI [of _ results]
        exI [of _ boundaries]) simp
qed

lemma repair_closes_trace_witness:
  "\<exists>tr' calls results boundaries.
     interrupted_turn_closers sample_tail = results @ boundaries \<and> distinct calls \<and>
     set calls = {c. unanswered sample_tail c} \<and>
     list_all2 (closing_result sample_tail) results calls \<and>
     map ev_data boundaries = [StepEnd 1 1, TurnEnd 1 EndInterrupted] \<and>
     seed_session (sample_tail @ interrupted_turn_closers sample_tail) = Inr tr' \<and>
     tr_open_turn tr' = None"
proof -
  have "seed_session sample_tail = Inr \<lparr>tr_last_seq = 3, tr_open_turn = Some 1, tr_open_step = Some 1,
     tr_next_turn = 1, tr_next_step = 1, tr_pending = {''c''}\<rparr>"
    by (simp add: sample_trace_defs)
  from repair_closes_trace [OF this] obtain tr' calls results boundaries where
    closed: "interrupted_turn_closers sample_tail = results @ boundaries" "distinct calls"
      "set calls = {c. unanswered sample_tail c}" "list_all2 (closing_result sample_tail) results calls"
      "seed_session (sample_tail @ interrupted_turn_closers sample_tail) = Inr tr'" "tr_open_turn tr' = None"
    and ends: "map ev_data boundaries = [StepEnd 1 1, TurnEnd 1 EndInterrupted]"
    unfolding session_trace.simps option.case append.simps by (elim exE conjE)
  show ?thesis by (intro exI conjI) (rule closed(1), rule closed(2), rule closed(3), rule closed(4), rule ends,
    rule closed(5), rule closed(6))
qed

text \<open>
  Repair is idempotent on every log, and a repaired log has an open turn only when there was
  nothing to repair it with: after the closers the scan sees no turn, step or unanswered call.
\<close>

theorem repair_idempotent:
  "interrupted_turn_closers (log @ interrupted_turn_closers log) = [] \<and>
   rs_turn (repair_scan (log @ interrupted_turn_closers log)) = None"
proof (cases "interrupted_turn_closers log = []")
  case True
  then have "rs_turn (repair_scan log) = None"
    using closers_unanswered [OF True]
    by (cases "log = []") (simp_all add: repair_scan_def repair_start_def)
  with True show ?thesis by simp
next
  case False
  from closers_balanced [OF this] show ?thesis
    by (simp add: interrupted_turn_closers_def [of "log @ _"] Let_def)
qed

text \<open>
  Repair extends the model-visible surface: when trace and surface fold accept the log, the
  fold accepts the closers, keeps every replacement and every node, and appends one answering
  tool result per pending call of the open turn, in the order the calls were requested.
\<close>

theorem repair_extends_surface:
  assumes "seed_session log = Inr tr" and "fold_surface log = Inr r"
    and "int (length log) \<le> max_safe"
  shows "\<exists>n. fold_surface (log @ interrupted_turn_closers log) =
      Inr (r\<lparr>fr_nodes := fr_nodes r @ map int [length log..<length log + n]\<rparr>) \<and>
    (interrupted_turn_closers log \<noteq> [] \<longrightarrow> n = length (rs_pending (repair_scan log)))"
proof (cases "interrupted_turn_closers log = []")
  case True
  with assms(2) show ?thesis by (intro exI [of _ 0]) simp
next
  case False
  with closers_surface [OF assms] show ?thesis by auto
qed

lemma repair_extends_surface_witness:
  "\<exists>n. fold_surface (sample_tail @ interrupted_turn_closers sample_tail) =
     Inr \<lparr>fr_nodes = 2 # map int [4..<4 + n], fr_replacements = []\<rparr>"
proof -
  have trace: "seed_session sample_tail = Inr \<lparr>tr_last_seq = 3, tr_open_turn = Some 1, tr_open_step = Some 1,
     tr_next_turn = 1, tr_next_step = 1, tr_pending = {''c''}\<rparr>"
    by (simp add: sample_trace_defs)
  have surf: "fold_surface sample_tail = Inr \<lparr>fr_nodes = [2], fr_replacements = []\<rparr>"
    by code_simp
  have len: "length sample_tail = 4" by (simp add: sample_tail_def)
  from repair_extends_surface [OF trace surf] show ?thesis by (auto simp: len max_safe_def)
qed

end
