(* ===== verification/RequestHeader.thy ===== *)
theory RequestHeader
  imports EventReplay SessionTypes
begin

text \<open>
  Request headers of a session log (\<open>packages/core/session/src/request-header.ts\<close> and
  \<open>callConfigEquals\<close> of \<open>packages/llm/llm/src/call-config.ts\<close>): canonical form, field-wise
  equality, and the folds of header and context events. The folds are instances of the
  incremental cache of \<open>EventReplay\<close>.
\<close>

definition call_config_equals :: "call_config \<Rightarrow> call_config \<Rightarrow> bool" where
  "call_config_equals a b \<longleftrightarrow>
     (if cc_provider a \<noteq> cc_provider b \<or> cc_model a \<noteq> cc_model b \<or>
         cc_reasoning_effort a \<noteq> cc_reasoning_effort b \<or>
         cc_temperature a \<noteq> cc_temperature b \<or> cc_max_tokens a \<noteq> cc_max_tokens b
      then False
      else case (cc_stop a, cc_stop b) of
             (Some xs, Some ys) \<Rightarrow> length xs = length ys \<and> list_all (\<lambda>(x, y). x = y) (zip xs ys)
           | (None, None) \<Rightarrow> True
           | _ \<Rightarrow> False)"

text \<open>An optional string or list is present and not empty.\<close>

definition drop_empty :: "'a list option \<Rightarrow> 'a list option" where
  "drop_empty x = (case x of Some (y # ys) \<Rightarrow> Some (y # ys) | _ \<Rightarrow> None)"

definition default_marker :: "(adapter_defaults \<Rightarrow> bool) \<Rightarrow> adapter_defaults option \<Rightarrow> bool" where
  "default_marker f d = (case d of None \<Rightarrow> False | Some x \<Rightarrow> f x)"

definition canonical_header :: "epoch_header \<Rightarrow> epoch_header" where
  "canonical_header h =
     \<lparr>eh_config = eh_config h,
      eh_adapter_defaults =
        (if default_marker ad_reasoning_effort (eh_adapter_defaults h) \<or>
            default_marker ad_max_tokens (eh_adapter_defaults h)
         then eh_adapter_defaults h else None),
      eh_system = drop_empty (eh_system h),
      eh_tools = drop_empty (eh_tools h)\<rparr>"

text \<open>Equal serializations: fields and parameters in the same order with the same values.\<close>

definition same_schema :: "tool_schema \<Rightarrow> tool_schema \<Rightarrow> bool" where
  "same_schema a b \<longleftrightarrow> a = b"

definition header_equals :: "epoch_header \<Rightarrow> epoch_header \<Rightarrow> bool" where
  "header_equals a b \<longleftrightarrow>
     (if \<not> call_config_equals (eh_config a) (eh_config b) \<or>
         default_marker ad_reasoning_effort (eh_adapter_defaults a) \<noteq>
         default_marker ad_reasoning_effort (eh_adapter_defaults b) \<or>
         default_marker ad_max_tokens (eh_adapter_defaults a) \<noteq>
         default_marker ad_max_tokens (eh_adapter_defaults b) \<or>
         eh_system a \<noteq> eh_system b
      then False
      else (let at = (case eh_tools a of None \<Rightarrow> [] | Some t \<Rightarrow> t);
                bt = (case eh_tools b of None \<Rightarrow> [] | Some t \<Rightarrow> t)
            in length at = length bt \<and> list_all (\<lambda>(x, y). same_schema x y) (zip at bt)))"

fun fold_request_header :: "epoch_header option \<Rightarrow> session_event list \<Rightarrow> epoch_header option" where
  "fold_request_header st [] = st"
| "fold_request_header st (e # es) =
     fold_request_header
       (case ev_data e of RequestHeader h _ \<Rightarrow> Some (canonical_header h) | _ \<Rightarrow> st) es"

fun fold_request_context :: "request_context option \<Rightarrow> session_event list \<Rightarrow> request_context option" where
  "fold_request_context st [] = st"
| "fold_request_context st (e # es) =
     fold_request_context (case ev_data e of RequestContext c \<Rightarrow> Some c | _ \<Rightarrow> st) es"

lemma fold_request_header_append:
  "fold_request_header st (es @ fs) = fold_request_header (fold_request_header st es) fs"
  by (induction st es rule: fold_request_header.induct) simp_all

lemma fold_request_context_append:
  "fold_request_context st (es @ fs) = fold_request_context (fold_request_context st es) fs"
  by (induction st es rule: fold_request_context.induct) simp_all

interpretation header_cache: log_cache fold_request_header None
  by unfold_locales (simp_all add: fold_request_header_append)

interpretation context_cache: log_cache fold_request_context None
  by unfold_locales (simp_all add: fold_request_context_append)

subsection \<open>Equality of canonical headers\<close>

lemma zip_all_eq: "length xs = length ys \<Longrightarrow> list_all (\<lambda>(x, y). x = y) (zip xs ys) \<longleftrightarrow> xs = ys"
  by (induction xs ys rule: list_induct2) auto

lemma call_config_equals_iff: "call_config_equals a b \<longleftrightarrow> a = b"
proof -
  have "(length xs = length ys \<and> list_all (\<lambda>(x, y). x = y) (zip xs ys)) \<longleftrightarrow> xs = ys"
    for xs ys :: "string list"
    using zip_all_eq by blast
  then show ?thesis
    by (cases a; cases b) (auto simp: call_config_equals_def split: option.splits)
qed

lemma canonical_idem: "canonical_header (canonical_header h) = canonical_header h"
  by (auto simp: canonical_header_def drop_empty_def default_marker_def split: option.splits list.splits)

lemma drop_empty_values:
  "(case drop_empty x of None \<Rightarrow> [] | Some t \<Rightarrow> t) = (case drop_empty y of None \<Rightarrow> [] | Some t \<Rightarrow> t) \<longleftrightarrow>
     drop_empty x = drop_empty y"
  by (auto simp: drop_empty_def split: option.splits list.splits)

lemma fold_request_header_canonical:
  assumes "fold_request_header st es = Some h" and "\<And>h'. st = Some h' \<Longrightarrow> canonical_header h' = h'"
  shows "canonical_header h = h"
  using assms
proof (induction st es rule: fold_request_header.induct)
  case (2 st e es)
  show ?case
  proof (rule "2.IH")
    show "fold_request_header
        (case ev_data e of RequestHeader h _ \<Rightarrow> Some (canonical_header h) | _ \<Rightarrow> st) es = Some h"
      using "2.prems"(1) by simp
    show "canonical_header h' = h'"
      if "(case ev_data e of RequestHeader h _ \<Rightarrow> Some (canonical_header h) | _ \<Rightarrow> st) = Some h'" for h'
      using that "2.prems"(2) by (auto simp: canonical_idem split: event_data.splits)
  qed
qed simp

text \<open>
  On canonical headers \<open>headerEquals\<close> is equality, and every header a log folds to is
  canonical: comparing a proposal with the folded header detects exactly the changes.
\<close>

theorem header_equals_canonical:
  "(header_equals (canonical_header a) (canonical_header b) \<longleftrightarrow> canonical_header a = canonical_header b) \<and>
   (case fold_request_header None es of None \<Rightarrow> True | Some h \<Rightarrow> canonical_header h = h)"
proof
  have marks: "(default_marker ad_reasoning_effort x = default_marker ad_reasoning_effort y \<and>
        default_marker ad_max_tokens x = default_marker ad_max_tokens y) \<longleftrightarrow> x = y"
    if "x = eh_adapter_defaults (canonical_header a)" "y = eh_adapter_defaults (canonical_header b)" for x y
    using that by (auto simp: canonical_header_def default_marker_def split: option.splits)
  have tools: "(length xs = length ys \<and> list_all (\<lambda>(x, y). same_schema x y) (zip xs ys)) \<longleftrightarrow> xs = ys" for xs ys
    using zip_all_eq unfolding same_schema_def by blast
  have "header_equals (canonical_header a) (canonical_header b) \<longleftrightarrow>
      eh_config (canonical_header a) = eh_config (canonical_header b) \<and>
      eh_adapter_defaults (canonical_header a) = eh_adapter_defaults (canonical_header b) \<and>
      eh_system (canonical_header a) = eh_system (canonical_header b) \<and>
      eh_tools (canonical_header a) = eh_tools (canonical_header b)"
    unfolding header_equals_def Let_def tools call_config_equals_iff
    using marks [OF refl refl] drop_empty_values [of "eh_tools a" "eh_tools b"]
    by (auto simp: canonical_header_def)
  then show "header_equals (canonical_header a) (canonical_header b) \<longleftrightarrow> canonical_header a = canonical_header b"
    by (auto intro: epoch_header.equality)
  show "case fold_request_header None es of None \<Rightarrow> True | Some h \<Rightarrow> canonical_header h = h"
    by (auto split: option.splits intro: fold_request_header_canonical)
qed

end
