(* ===== verification/SessionLog.thy ===== *)
theory SessionLog
  imports Repair RequestHeader
begin

text \<open>
  The session object (\<open>class Session\<close> of \<open>packages/core/session/src/index.ts\<close>): validation of
  seeds and headers, the append-only log with its surface manager, and the three caches over the
  log: the request header, the request context and the derived messages.

  An event arrives with a typed payload, so of the shape checks of a seed those remain that the
  types do not give. Freezing and detaching of objects have no counterpart on values.
\<close>

subsection \<open>Validation of a seed event\<close>

definition has_provider_model :: "string \<Rightarrow> string \<Rightarrow> bool" where
  "has_provider_model provider model \<longleftrightarrow> provider \<noteq> [] \<and> model \<noteq> []"

definition assert_adapter_defaults ::
    "adapter_defaults option \<Rightarrow> call_config \<Rightarrow> (js_error, unit) result" where
  "assert_adapter_defaults d config =
     (case d of
        None \<Rightarrow> Inr ()
      | Some defaults \<Rightarrow>
          throw_if ((ad_reasoning_effort defaults \<and> cc_reasoning_effort config = None) \<or>
                    (ad_max_tokens defaults \<and> cc_max_tokens config = None))
            (JsError ''seed request/header has invalid adapterDefaults'') (Inr ()))"

fun source_kind :: "message_source \<Rightarrow> string" where
  "source_kind (ModelSource _ _ _) = ''model''"
| "source_kind (ToolSource _) = ''tool''"
| "source_kind (OtherSource j) = (case json_get j ''kind'' of Some (JStr k) \<Rightarrow> k | _ \<Rightarrow> [])"

definition assert_message ::
    "message_role \<Rightarrow> message \<Rightarrow> (js_error, unit) result \<Rightarrow> (js_error, unit) result" where
  "assert_message expected m k =
     throw_if (msg_id m = []) (JsError ''event lacks an identified message'')
     (throw_if (msg_role m \<noteq> expected) (JsError ''event message has the wrong role'')
     (throw_if (source_kind (msg_source m) = []) (JsError ''event message has invalid source'') k))"

definition assert_message_event_shape :: "event_data \<Rightarrow> (js_error, unit) result" where
  "assert_message_event_shape d =
     (case d of
        UserMessage m \<Rightarrow> assert_message UserRole m (Inr ())
      | AssistantMessage _ _ m _ _ \<Rightarrow>
          assert_message AssistantRole m
            (throw_if (case msg_source m of ModelSource p q _ \<Rightarrow> \<not> has_provider_model p q | _ \<Rightarrow> True)
              (JsError ''event message must have model source'') (Inr ()))
      | ToolResult r \<Rightarrow>
          assert_message UserRole (tool_message (trd_message r))
            (throw_if (tr_call (trd_message r) = []) (JsError ''event message must have tool source'')
            (throw_if (tr_block_call (trd_message r) \<noteq> tr_call (trd_message r))
              (JsError ''event message has mismatched tool call ids'') (Inr ())))
      | _ \<Rightarrow> Inr ())"

definition assert_current_llm_shape :: "event_data \<Rightarrow> (js_error, unit) result" where
  "assert_current_llm_shape d =
     bindR (case d of
        RequestHeader h _ \<Rightarrow>
          throw_if (\<not> has_provider_model (cc_provider (eh_config h)) (cc_model (eh_config h)))
            (JsError ''seed request/header lacks provider/model'')
          (throw_if (cc_reasoning_effort (eh_config h) = Some [])
            (JsError ''seed request/header has an invalid reasoningEffort'')
          (assert_adapter_defaults (eh_adapter_defaults h) (eh_config h)))
      | _ \<Rightarrow> Inr ())
     (\<lambda>_. assert_message_event_shape d)"

definition assert_session_event_envelope :: "session_event \<Rightarrow> (js_error, unit) result" where
  "assert_session_event_envelope e =
     throw_if (ev_type e = ''request/header-delta'')
       (JsError ''seed event uses unsupported legacy request/header-delta format'')
     (throw_if (\<not> is_event_seq (ev_seq e) \<or> \<not> is_safe (ev_time e))
       (JsError ''seed event has an invalid event envelope'')
     (assert_current_llm_shape (ev_data e)))"

text \<open>The header reason \<open>fallback\<close> has no typed form, so it can only come as raw data.\<close>

definition assert_supported_request_header :: "event_data \<Rightarrow> (js_error, unit) result" where
  "assert_supported_request_header d =
     throw_if (data_type d = ''request/header-delta'')
       (JsError ''unsupported legacy request/header-delta format'')
     (throw_if (case d of PluginEvent t j \<Rightarrow>
           t = ''request/header'' \<and> json_get j ''reason'' = Some (JStr ''fallback'') | _ \<Rightarrow> False)
       (JsError ''unsupported legacy request/header reason fallback'')
     (Inr ()))"

definition is_absolute :: "string \<Rightarrow> bool" where
  "is_absolute p \<longleftrightarrow> (case p of [] \<Rightarrow> False | c # _ \<Rightarrow> c = CHR ''/'')"

definition bad_count :: "int option \<Rightarrow> bool" where
  "bad_count n = (case n of None \<Rightarrow> False | Some k \<Rightarrow> \<not> is_event_seq k)"

definition validate_session_header :: "string \<Rightarrow> session_header \<Rightarrow> (js_error, session_header) result" where
  "validate_session_header i h =
     throw_if (sh_version h \<noteq> session_format_version) (JsError ''session header version must be 0'')
     (throw_if (sh_id h \<noteq> i) (JsError ''session header id does not match session id'')
     (throw_if (\<not> is_event_seq (sh_created_at h))
       (JsError ''session header createdAt must be a non-negative safe integer'')
     (throw_if (case sh_cwd h of None \<Rightarrow> False | Some cwd \<Rightarrow> \<not> is_absolute cwd)
       (JsError ''session header cwd must be an absolute path'')
     (throw_if (bad_count (sh_seed_length h))
       (JsError ''session header seedLength must be a non-negative safe integer'')
     (throw_if (sh_origin h \<noteq> None \<and> sh_origin h \<noteq> Some ''subagent'')
       (JsError ''session header origin must be subagent'')
     (throw_if (bad_count (sh_delegation_depth h))
       (JsError ''session header delegationDepth must be a non-negative safe integer'')
     (Inr h)))))))"

subsection \<open>The session\<close>

record session_state =
  ss_log :: "session_event list"
  ss_surface :: surface_manager
  ss_header :: session_header
  ss_first_live :: nat
  ss_header_fold :: "epoch_header option \<times> nat"
  ss_context_fold :: "request_context option \<times> nat"
  ss_derived :: "message list"
  ss_derived_nodes :: nat
  ss_derived_generation :: nat

definition empty_session :: session_state where
  "empty_session =
     \<lparr>ss_log = [], ss_surface = new_surface_manager 0,
      ss_header = \<lparr>sh_version = 0, sh_id = [], sh_created_at = 0, sh_cwd = None,
        sh_parent_session = None, sh_seed_length = None, sh_origin = None,
        sh_delegation_depth = None, sh_agent_preset = None\<rparr>,
      ss_first_live = 0,
      ss_header_fold = (None, 0), ss_context_fold = (None, 0),
      ss_derived = [], ss_derived_nodes = 0, ss_derived_generation = 0\<rparr>"

text \<open>The initial fields; the header and the first live sequence are assigned by the constructor.\<close>

text \<open>
  \<open>append\<close> of an event of the given data at time \<open>now\<close>, up to the point where the event is
  complete and validated; \<open>busy\<close> says that the session's store entry is publishing an append.
  The event then enters the log.
\<close>

definition append_validate ::
    "session_state \<Rightarrow> bool \<Rightarrow> int \<Rightarrow> event_data \<Rightarrow> json option \<Rightarrow> json option
      \<Rightarrow> session_state \<times> (js_error, session_event) result" where
  "append_validate s busy now d op sources =
     (case assert_supported_request_header d of
        Inl err \<Rightarrow> (s, Inl err)
      | Inr _ \<Rightarrow>
          if busy then (s, Inl (JsError ''session append cannot reenter while another append is being published''))
          else
            (let e = \<lparr>ev_seq = int (length (ss_log s)), ev_time = now, ev_data = d, ev_ignorable = False,
                      ev_surface_op = op, ev_sources = sources\<rparr>
             in case validate_next (ss_surface s) (ss_log s) 0 e of
                  (m, Some err) \<Rightarrow> (s\<lparr>ss_surface := m\<rparr>, Inl err)
                | (m, None) \<Rightarrow> (s\<lparr>ss_surface := m\<rparr>, Inr e)))"

definition append_commit :: "session_state \<Rightarrow> session_event \<Rightarrow> session_state" where
  "append_commit s e = s\<lparr>ss_log := ss_log s @ [e]\<rparr>"

text \<open>
  What an append meets at the store entry the session is attached to: nothing in the way (as for
  a session that is not attached), a publication that is still open, or an internal dispatch
  handler (\<open>collectSessionCallbacks\<close>) that refuses the validated event with an error of its own
  before the log changes.
\<close>

datatype append_gate = GateOpen | GateBusy | GateVeto js_error

definition append_event ::
    "session_state \<Rightarrow> append_gate \<Rightarrow> int \<Rightarrow> event_data \<Rightarrow> json option \<Rightarrow> json option
      \<Rightarrow> session_state \<times> (js_error, session_event) result" where
  "append_event s gate now d op sources =
     (case append_validate s (gate = GateBusy) now d op sources of
        (s', Inl err) \<Rightarrow> (s', Inl err)
      | (s', Inr e) \<Rightarrow>
          (case gate of
             GateVeto err \<Rightarrow> (s', Inl err)
           | _ \<Rightarrow> (append_commit s' e, Inr e)))"

text \<open>One turn of the constructor's loop over the seed.\<close>

definition seed_event :: "session_state \<Rightarrow> session_event \<Rightarrow> (js_error, session_state) result" where
  "seed_event s e =
     bindR (assert_session_event_envelope e) (\<lambda>_.
     bindR (assert_supported_request_header (ev_data e)) (\<lambda>_.
     throw_if (ev_seq e \<noteq> int (length (ss_log s)))
       (JsError ''seed must be contiguous from 0'')
     (case validate_next (ss_surface s) (ss_log s) 0 e of
        (m, Some (JsError err)) \<Rightarrow> Inl (JsError (''invalid seed event: '' @ err))
      | (m, None) \<Rightarrow> Inr (s\<lparr>ss_surface := m, ss_log := ss_log s @ [e]\<rparr>))))"

definition ends_seeded :: "session_event list \<Rightarrow> bool" where
  "ends_seeded log \<longleftrightarrow> map_option ev_type (array_last log) = Some ''session/end-seed''"

text \<open>
  The constructor. A restored header is validated before the seed, any other header after it;
  both end with the mark that separates the seed from live events.
\<close>

definition validate_restored_session_header ::
    "string \<Rightarrow> session_header option \<Rightarrow> (js_error, session_header) result" where
  "validate_restored_session_header i header =
     (case header of
        None \<Rightarrow> Inl (JsError ''session header is not a plain JSON record'')
      | Some h \<Rightarrow> validate_session_header i h)"

definition snapshot_session_header ::
    "string \<Rightarrow> session_header option \<Rightarrow> int \<Rightarrow> (js_error, session_header) result" where
  "snapshot_session_header i header now =
     validate_session_header i
       (case header of
          Some h \<Rightarrow> h
        | None \<Rightarrow> \<lparr>sh_version = session_format_version, sh_id = i, sh_created_at = now, sh_cwd = None,
                   sh_parent_session = None, sh_seed_length = None, sh_origin = None,
                   sh_delegation_depth = None, sh_agent_preset = None\<rparr>)"

definition new_session ::
    "string \<Rightarrow> session_event list option \<Rightarrow> session_header option \<Rightarrow> bool \<Rightarrow> int
      \<Rightarrow> (js_error, session_state) result" where
  "new_session i seed header restore now =
     bindR (if restore then mapR (validate_restored_session_header i) [header] else Inr []) (\<lambda>restored.
     bindR (case seed of
              None \<Rightarrow> Inr empty_session
            | Some es \<Rightarrow> foldR seed_event empty_session es) (\<lambda>s.
     bindR (case restored of
              h # _ \<Rightarrow> Inr h
            | [] \<Rightarrow> snapshot_session_header i header now) (\<lambda>h'.
     (let s' = s\<lparr>ss_header := h', ss_first_live := length (ss_log s)\<rparr> in
      if seed \<noteq> None \<and> \<not> ends_seeded (ss_log s')
      then (case append_event s' GateOpen now EndSeed None None of
              (_, Inl err) \<Rightarrow> Inl err
            | (s'', Inr _) \<Rightarrow> Inr s'')
      else Inr s'))))"

subsection \<open>Reads\<close>

definition read_request_header :: "session_state \<Rightarrow> session_state \<times> epoch_header option" where
  "read_request_header s =
     (let c = cache_refresh fold_request_header (ss_log s) (ss_header_fold s)
      in (s\<lparr>ss_header_fold := c\<rparr>, fst c))"

definition read_request_context :: "session_state \<Rightarrow> session_state \<times> request_context option" where
  "read_request_context s =
     (let c = cache_refresh fold_request_context (ss_log s) (ss_context_fold s)
      in (s\<lparr>ss_context_fold := c\<rparr>, fst c))"

fun derive_nodes :: "session_event list \<Rightarrow> int list \<Rightarrow> (js_error, message list) result" where
  "derive_nodes log [] = Inr []"
| "derive_nodes log (n # ns) =
     (case array_at log n of
        None \<Rightarrow> Inl (JsError ''TypeError'')
      | Some e \<Rightarrow>
          bindR (derive_nodes log ns) (\<lambda>ms.
          Inr (case derive_event_message e of None \<Rightarrow> ms | Some m \<Rightarrow> m # ms)))"

definition derive_messages :: "session_state \<Rightarrow> session_state \<times> (js_error, message list) result" where
  "derive_messages s =
     (case manager_nodes (ss_surface s) (ss_log s) 0 of
        (m1, Inl err) \<Rightarrow> (s\<lparr>ss_surface := m1\<rparr>, Inl err)
      | (m1, Inr nodes) \<Rightarrow>
          (case manager_generation m1 (ss_log s) 0 of
             (m2, Inl err) \<Rightarrow> (s\<lparr>ss_surface := m2\<rparr>, Inl err)
           | (m2, Inr generation) \<Rightarrow>
               (let s' = (if generation \<noteq> ss_derived_generation s
                          then s\<lparr>ss_surface := m2, ss_derived := [], ss_derived_nodes := 0,
                                 ss_derived_generation := generation\<rparr>
                          else s\<lparr>ss_surface := m2\<rparr>)
                in case derive_nodes (ss_log s') (drop (ss_derived_nodes s') nodes) of
                     Inl err \<Rightarrow> (s', Inl err)
                   | Inr ms \<Rightarrow>
                       (s'\<lparr>ss_derived := ss_derived s' @ ms, ss_derived_nodes := length nodes\<rparr>,
                        Inr (ss_derived s' @ ms)))))"

subsection \<open>The invariant of a session\<close>

definition derived_for :: "session_event list \<Rightarrow> surface_state \<Rightarrow> session_state \<Rightarrow> bool" where
  "derived_for log st s \<longleftrightarrow>
     ss_derived_generation s \<le> sf_generation st \<and>
     (ss_derived_generation s = sf_generation st \<longrightarrow>
        ss_derived_nodes s \<le> length (sf_nodes st) \<and>
        derive_nodes log (take (ss_derived_nodes s) (sf_nodes st)) = Inr (ss_derived s))"

definition session_ok :: "session_state \<Rightarrow> bool" where
  "session_ok s \<longleftrightarrow>
     manager_rep 0 (ss_log s) (ss_surface s) \<and>
     (\<exists>st reps. foldR (surface_log_step 0) surface_start (ss_log s) = Inr (st, reps, ss_log s) \<and>
        derived_for (ss_log s) st s) \<and>
     cache_for fold_request_header None (ss_log s) (ss_header_fold s) \<and>
     cache_for fold_request_context None (ss_log s) (ss_context_fold s)"

lemma session_ok_hist:
  "session_ok s \<Longrightarrow> \<exists>st reps. foldR (surface_log_step 0) surface_start (ss_log s) = Inr (st, reps, ss_log s) \<and>
     surface_hist 0 (ss_log s) (st, reps, ss_log s)"
  unfolding session_ok_def using surface_run.hist_fold by blast

lemma derive_nodes_append:
  "derive_nodes log (xs @ ys) =
     bindR (derive_nodes log xs) (\<lambda>ms. bindR (derive_nodes log ys) (\<lambda>ms'. Inr (ms @ ms')))"
proof (induction xs)
  case Nil
  then show ?case by (cases "derive_nodes log ys") simp_all
next
  case (Cons n xs)
  then show ?case
    by (cases "array_at log n"; cases "derive_nodes log xs"; cases "derive_nodes log ys")
      (auto split: option.splits)
qed

lemma derive_nodes_log:
  "derive_nodes log ns = Inr ms \<Longrightarrow> derive_nodes (log @ es) ns = Inr ms"
  by (induction ns arbitrary: ms)
    (auto simp: result_simps array_at_append split: option.splits)

lemma derive_nodes_map:
  assumes "\<forall>n \<in> set ns. 0 \<le> n \<and> n < int (length log)"
  shows "derive_nodes log ns = Inr (List.map_filter (\<lambda>n. derive_event_message (log ! nat n)) ns)"
  using assms
  by (induction ns) (auto simp: map_filter_simps array_at_def split: option.splits)

lemma derive_nodes_range:
  assumes "surface_hist 0 log (st, reps, log)" and "set ns \<subseteq> set (sf_nodes st)"
  shows "derive_nodes log ns = Inr (List.map_filter (\<lambda>n. derive_event_message (log ! nat n)) ns)"
proof (rule derive_nodes_map)
  from assms(1) have "set (sf_nodes st) \<subseteq> surface_seqs 0 log"
    by (auto simp: surface_hist_def)
  then have "\<forall>n \<in> set (sf_nodes st). 0 \<le> n \<and> n < int (length log)"
    using surface_seqs_bound [of _ 0 log] by auto
  with assms(2) show "\<forall>n \<in> set ns. 0 \<le> n \<and> n < int (length log)" by blast
qed

text \<open>Within a generation the nodes only grow at the end.\<close>

lemma surface_step_nodes:
  assumes "surface_log_step 0 (st, reps, log) e = Inr (st', reps', log')"
  shows "(sf_generation st' = sf_generation st \<and> (\<exists>ns. sf_nodes st' = sf_nodes st @ ns)) \<or>
    sf_generation st' = Suc (sf_generation st)"
proof -
  from assms obtain plan rep where "apply_surface_plan st plan = (st', rep)"
    by (auto simp: surface_log_step_def apply_surface_event_def result_simps)
  then have "st' = fst (apply_surface_plan st plan)" by simp
  then show ?thesis
    by (cases plan) (auto simp: apply_surface_plan_def split: surface_plan.splits)
qed

lemma derived_for_step:
  assumes "derived_for log st s" and "surface_log_step 0 (st, reps, log) e = Inr (st', reps', log @ [e])"
  shows "derived_for (log @ [e]) st' (s\<lparr>ss_surface := m, ss_log := log @ [e]\<rparr>)"
  using assms(1) surface_step_nodes [OF assms(2)]
  by (auto simp: derived_for_def derive_nodes_log)

text \<open>A validated event is one the manager and the fold accept next.\<close>

definition pending_ok :: "session_state \<Rightarrow> session_event \<Rightarrow> bool" where
  "pending_ok s e \<longleftrightarrow> ev_seq e = int (length (ss_log s)) \<and>
     is_ok (foldR (surface_log_step 0) surface_start (ss_log s @ [e]))"

lemma session_ok_commit:
  assumes ok: "session_ok s" and pending: "pending_ok s e"
  shows "session_ok (append_commit s e)"
proof -
  from ok obtain st reps where run: "foldR (surface_log_step 0) surface_start (ss_log s) = Inr (st, reps, ss_log s)"
      and derived: "derived_for (ss_log s) st s" and rep: "manager_rep 0 (ss_log s) (ss_surface s)"
      and caches: "cache_for fold_request_header None (ss_log s) (ss_header_fold s)"
        "cache_for fold_request_context None (ss_log s) (ss_context_fold s)"
    by (auto simp: session_ok_def)
  from pending obtain run' where fold: "foldR (surface_log_step 0) surface_start (ss_log s @ [e]) = Inr run'"
    by (auto simp: pending_ok_def is_ok_iff)
  with surface_run.hist_fold [OF fold] obtain st' reps' where run': "run' = (st', reps', ss_log s @ [e])"
    by (cases run') (auto simp: surface_hist_def)
  from fold run run' have "surface_log_step 0 (st, reps, ss_log s) e = Inr (st', reps', ss_log s @ [e])"
    by (simp add: foldR_snoc)
  from derived_for_step [OF derived this] fold run' rep caches show ?thesis
    by (auto simp: session_ok_def append_commit_def derived_for_def manager_rep_push
        header_cache.cache_grow context_cache.cache_grow)
qed

lemma session_ok_push:
  assumes "session_ok s" and valid: "validate_next (ss_surface s) (ss_log s) 0 e = (m, None)"
    and "ev_seq e = int (length (ss_log s))"
  shows "session_ok (s\<lparr>ss_surface := m\<rparr>) \<and> pending_ok (s\<lparr>ss_surface := m\<rparr>) e \<and>
    session_ok (s\<lparr>ss_surface := m, ss_log := ss_log s @ [e]\<rparr>)"
proof -
  have rep: "manager_rep 0 (ss_log s) (ss_surface s)" using assms by (simp add: session_ok_def)
  have "session_ok (s\<lparr>ss_surface := m\<rparr>)"
    using validate_next_cases(1) [OF rep, of e] valid assms(1) by (simp add: session_ok_def derived_for_def)
  moreover have "pending_ok (s\<lparr>ss_surface := m\<rparr>) e"
    using validate_next_cases(2) [OF rep, of e] valid assms(3)
    by (auto simp: pending_ok_def split: sum.splits)
  moreover note session_ok_commit [OF calculation]
  ultimately show ?thesis by (simp add: append_commit_def)
qed

lemma session_ok_manager:
  "session_ok s \<Longrightarrow> manager_rep 0 (ss_log s) m \<Longrightarrow> session_ok (s\<lparr>ss_surface := m\<rparr>)"
  by (auto simp: session_ok_def derived_for_def)

lemma append_validate_cases:
  assumes ok: "session_ok s" and result: "append_validate s busy now d op sources = (s', r)"
  shows "session_ok s' \<and> ss_log s' = ss_log s \<and> ss_header s' = ss_header s \<and>
    (case r of
       Inl err \<Rightarrow> True
     | Inr e \<Rightarrow> pending_ok s' e \<and> \<not> busy \<and>
         e = \<lparr>ev_seq = int (length (ss_log s)), ev_time = now, ev_data = d, ev_ignorable = False,
              ev_surface_op = op, ev_sources = sources\<rparr>)"
proof -
  define e where "e = \<lparr>ev_seq = int (length (ss_log s)), ev_time = now, ev_data = d, ev_ignorable = False,
              ev_surface_op = op, ev_sources = sources\<rparr>"
  obtain m err where v: "validate_next (ss_surface s) (ss_log s) 0 e = (m, err)" by (metis surj_pair)
  have "manager_rep 0 (ss_log s) (ss_surface s)" using ok by (simp add: session_ok_def)
  from validate_next_cases(1) [OF this, of e] v have m: "session_ok (s\<lparr>ss_surface := m\<rparr>)"
    by (intro session_ok_manager ok) simp
  show ?thesis
  proof (cases err)
    case None
    with session_ok_push [OF ok, of e m] v have "pending_ok (s\<lparr>ss_surface := m\<rparr>) e" by (simp add: e_def)
    with m result ok v None show ?thesis
      by (auto simp: append_validate_def e_def [symmetric] Let_def split: sum.splits if_splits)
  next
    case (Some x)
    with m result ok v show ?thesis
      by (auto simp: append_validate_def e_def [symmetric] Let_def split: sum.splits if_splits)
  qed
qed

lemma append_event_ok:
  assumes "session_ok s"
  shows "session_ok (fst (append_event s gate now d op sources))"
proof -
  obtain s' r where v: "append_validate s (gate = GateBusy) now d op sources = (s', r)" by (metis surj_pair)
  from append_validate_cases [OF assms v] show ?thesis
    unfolding append_event_def v by (cases r; cases gate) (auto intro: session_ok_commit)
qed

text \<open>A closed gate: the append throws and the log stays.\<close>

lemma append_refused:
  assumes ok: "session_ok s" and gate: "gate \<noteq> GateOpen"
  shows "\<exists>s' err. append_event s gate now d op sources = (s', Inl err) \<and>
    ss_log s' = ss_log s \<and> session_ok s' \<and> ss_header s' = ss_header s"
proof -
  obtain s' r where v: "append_validate s (gate = GateBusy) now d op sources = (s', r)" by (metis surj_pair)
  from append_validate_cases [OF ok v] gate show ?thesis
    unfolding append_event_def v by (cases r; cases gate) auto
qed

lemma empty_session_ok: "session_ok empty_session"
  by (auto simp: session_ok_def empty_session_def manager_rep_new derived_for_def create_fold_state_def
      header_cache.cache_start context_cache.cache_start)

lemma seed_event_Inr:
  assumes "seed_event s e = Inr s'"
  shows "\<exists>m. validate_next (ss_surface s) (ss_log s) 0 e = (m, None) \<and>
      s' = s\<lparr>ss_surface := m, ss_log := ss_log s @ [e]\<rparr> \<and>
      assert_session_event_envelope e = Inr () \<and> ev_seq e = int (length (ss_log s))"
  using assms
  by (auto simp: seed_event_def result_simps split: prod.splits option.splits js_error.splits)

lemma seed_event_ok: "session_ok s \<Longrightarrow> seed_event s e = Inr s' \<Longrightarrow> session_ok s'"
  using seed_event_Inr [of s e s'] session_ok_push [of s e] by blast

interpretation seed_loop: replay seed_event empty_session "\<lambda>es s. session_ok s \<and> ss_log s = es"
proof
  show "session_ok empty_session \<and> ss_log empty_session = []"
    by (simp add: empty_session_ok) (simp add: empty_session_def)
  fix es s e s'
  assume "session_ok s \<and> ss_log s = es" and step: "seed_event s e = Inr s'"
  with seed_event_ok [OF _ step] seed_event_Inr [OF step] show "session_ok s' \<and> ss_log s' = es @ [e]"
    by auto
qed

lemma session_ok_fields:
  "session_ok (s\<lparr>ss_header := h, ss_first_live := n\<rparr>) \<longleftrightarrow> session_ok s"
  by (simp add: session_ok_def derived_for_def)

text \<open>An event without surface metadata is always accepted, whatever its data.\<close>

lemma append_plain:
  assumes "session_ok s" and supported: "assert_supported_request_header d = Inr ()"
    and log_only: "\<not> is_surface_eligible_type (data_type d)"
    and that: "plain = \<lparr>ev_seq = int (length (ss_log s)), ev_time = now, ev_data = d, ev_ignorable = False,
      ev_surface_op = None, ev_sources = None\<rparr>"
  shows "\<exists>m. append_event s GateOpen now d None None =
    (s\<lparr>ss_surface := m, ss_log := ss_log s @ [plain]\<rparr>, Inr plain) \<and>
    validate_next (ss_surface s) (ss_log s) 0 plain = (m, None)"
proof -
  obtain st reps where run: "foldR (surface_log_step 0) surface_start (ss_log s) = Inr (st, reps, ss_log s)"
    using assms(1) by (auto simp: session_ok_def)
  have "surface_log_step 0 (st, reps, ss_log s) plain = Inr (st, reps, ss_log s @ [plain])"
    using surface_boundary_step [OF log_only, of st reps "ss_log s" now]
    by (simp add: that boundary_event_def)
  with run have "foldR (surface_log_step 0) surface_start (ss_log s @ [plain]) =
      Inr (st, reps, ss_log s @ [plain])"
    by (simp add: foldR_snoc)
  moreover have "manager_rep 0 (ss_log s) (ss_surface s)" using assms by (simp add: session_ok_def)
  ultimately have "snd (validate_next (ss_surface s) (ss_log s) 0 plain) = None"
    by (simp add: validate_next_cases(2))
  then show ?thesis using supported
    by (cases "validate_next (ss_surface s) (ss_log s) 0 plain")
      (simp add: append_event_def append_validate_def append_commit_def that Let_def)
qed

lemma append_end_seed:
  assumes "session_ok s"
    and "plain = \<lparr>ev_seq = int (length (ss_log s)), ev_time = now, ev_data = EndSeed, ev_ignorable = False,
      ev_surface_op = None, ev_sources = None\<rparr>"
  shows "\<exists>m. append_event s GateOpen now EndSeed None None =
    (s\<lparr>ss_surface := m, ss_log := ss_log s @ [plain]\<rparr>, Inr plain) \<and>
    validate_next (ss_surface s) (ss_log s) 0 plain = (m, None)"
  using assms
  by (intro append_plain)
    (simp_all add: assert_supported_request_header_def is_surface_eligible_type_def surface_event_types_def)

lemma new_session_log:
  assumes "new_session i seed header restore now = Inr s"
  shows "session_ok s \<and> ss_log s =
    (case seed of None \<Rightarrow> []
     | Some es \<Rightarrow> if ends_seeded es then es
         else es @ [\<lparr>ev_seq = int (length es), ev_time = now, ev_data = EndSeed, ev_ignorable = False,
                    ev_surface_op = None, ev_sources = None\<rparr>])"
proof -
  from assms obtain s0 h where
      s0: "(case seed of None \<Rightarrow> Inr empty_session
            | Some es \<Rightarrow> foldR seed_event empty_session es) = (Inr s0 :: (js_error, session_state) result)" and
      fin: "(let s' = s0\<lparr>ss_header := h, ss_first_live := length (ss_log s0)\<rparr> in
        if seed \<noteq> None \<and> \<not> ends_seeded (ss_log s')
        then (case append_event s' GateOpen now EndSeed None None of
                (_, Inl err) \<Rightarrow> Inl err
              | (s'', Inr _) \<Rightarrow> Inr s'')
        else Inr s') = Inr s"
    unfolding new_session_def bindR_Inr by blast
  have ok: "session_ok s0 \<and> ss_log s0 = (case seed of None \<Rightarrow> [] | Some es \<Rightarrow> es)"
    using s0 seed_loop.hist_fold seed_loop.hist_init by (cases seed) auto
  define s1 where "s1 = s0\<lparr>ss_header := h, ss_first_live := length (ss_log s0)\<rparr>"
  have ok1: "session_ok s1" "ss_log s1 = ss_log s0" using ok by (simp_all add: s1_def session_ok_fields)
  show ?thesis
  proof (cases "seed \<noteq> None \<and> \<not> ends_seeded (ss_log s1)")
    case True
    from append_end_seed [OF ok1(1) refl, of now] fin True obtain m e where
        "validate_next (ss_surface s1) (ss_log s1) 0 e = (m, None)" and
        "s = s1\<lparr>ss_surface := m, ss_log := ss_log s1 @ [e]\<rparr>" and
        "e = \<lparr>ev_seq = int (length (ss_log s1)), ev_time = now, ev_data = EndSeed, ev_ignorable = False,
           ev_surface_op = None, ev_sources = None\<rparr>"
      by (auto simp: s1_def [symmetric] Let_def)
    with session_ok_push [OF ok1(1)] True ok ok1 show ?thesis by auto
  next
    case False
    with fin have "s = s1" by (auto simp: s1_def Let_def)
    with False ok ok1 show ?thesis by (auto split: option.splits)
  qed
qed

lemma session_ok_request_header: "session_ok s \<Longrightarrow> session_ok (fst (read_request_header s))"
  by (auto simp: read_request_header_def session_ok_def derived_for_def Let_def header_cache.cache_read)

lemma session_ok_request_context: "session_ok s \<Longrightarrow> session_ok (fst (read_request_context s))"
  by (auto simp: read_request_context_def session_ok_def derived_for_def Let_def context_cache.cache_read)

text \<open>One read of the derived messages: the whole surface, projected.\<close>

lemma derive_messages_run:
  assumes "session_ok s"
  shows "\<exists>st reps ms. foldR (surface_log_step 0) surface_start (ss_log s) = Inr (st, reps, ss_log s) \<and>
    derive_nodes (ss_log s) (sf_nodes st) = Inr ms \<and>
    snd (derive_messages s) = Inr ms \<and> session_ok (fst (derive_messages s))"
proof -
  from assms obtain st reps where
      run: "foldR (surface_log_step 0) surface_start (ss_log s) = Inr (st, reps, ss_log s)"
      and derived: "derived_for (ss_log s) st s" and rep: "manager_rep 0 (ss_log s) (ss_surface s)"
    by (auto simp: session_ok_def)
  have hist: "surface_hist 0 (ss_log s) (st, reps, ss_log s)" by (rule surface_run.hist_fold [OF run])
  obtain m1 where m1: "manager_nodes (ss_surface s) (ss_log s) 0 = (m1, Inr (sf_nodes st))"
      and rep1: "manager_rep 0 (ss_log s) m1"
    using manager_read_rep(1) [OF rep] manager_read_fold(1) [OF rep] run
    by (cases "manager_nodes (ss_surface s) (ss_log s) 0") simp
  obtain m2 where m2: "manager_generation m1 (ss_log s) 0 = (m2, Inr (sf_generation st))"
      and rep2: "manager_rep 0 (ss_log s) m2"
    using manager_read_rep(2) [OF rep1] manager_read_fold(2) [OF rep1] run
    by (cases "manager_generation m1 (ss_log s) 0") simp
  define s' where "s' = (if sf_generation st \<noteq> ss_derived_generation s
      then s\<lparr>ss_surface := m2, ss_derived := [], ss_derived_nodes := 0, ss_derived_generation := sf_generation st\<rparr>
      else s\<lparr>ss_surface := m2\<rparr>)"
  have log: "ss_log s' = ss_log s" and surf: "ss_surface s' = m2"
    and gen: "ss_derived_generation s' = sf_generation st"
    and folds: "ss_header_fold s' = ss_header_fold s" "ss_context_fold s' = ss_context_fold s"
    by (simp_all add: s'_def)
  from derived have pre: "derive_nodes (ss_log s) (take (ss_derived_nodes s') (sf_nodes st)) = Inr (ss_derived s')"
    by (auto simp: derived_for_def s'_def)
  obtain ms where rest: "derive_nodes (ss_log s) (drop (ss_derived_nodes s') (sf_nodes st)) = Inr ms"
    using derive_nodes_range [OF hist, of "drop (ss_derived_nodes s') (sf_nodes st)"]
    by (auto dest: in_set_dropD)
  have all: "derive_nodes (ss_log s) (sf_nodes st) = Inr (ss_derived s' @ ms)"
    using derive_nodes_append [of "ss_log s" "take (ss_derived_nodes s') (sf_nodes st)"
        "drop (ss_derived_nodes s') (sf_nodes st)"] pre rest by simp
  have result: "derive_messages s =
      (s'\<lparr>ss_derived := ss_derived s' @ ms, ss_derived_nodes := length (sf_nodes st)\<rparr>, Inr (ss_derived s' @ ms))"
    using m1 m2 rest log unfolding s'_def
    by (auto simp: derive_messages_def Let_def split: if_splits)
  have "session_ok (s'\<lparr>ss_derived := ss_derived s' @ ms, ss_derived_nodes := length (sf_nodes st)\<rparr>)"
    using assms rep2 run all by (auto simp: session_ok_def derived_for_def log surf gen folds)
  with result run all show ?thesis by simp
qed

text \<open>The sessions a client can hold: constructed, then appended to and read in any order.\<close>

inductive session_reach :: "session_state \<Rightarrow> bool" where
  created: "new_session i seed header restore now = Inr s \<Longrightarrow> session_reach s"
| appended: "session_reach s \<Longrightarrow> session_reach (fst (append_event s gate now d op sources))"
| read_header: "session_reach s \<Longrightarrow> session_reach (fst (read_request_header s))"
| read_ctx: "session_reach s \<Longrightarrow> session_reach (fst (read_request_context s))"
| read_messages: "session_reach s \<Longrightarrow> session_reach (fst (derive_messages s))"

lemma session_reach_ok: "session_reach s \<Longrightarrow> session_ok s"
proof (induction rule: session_reach.induct)
  case (created i seed header restore now s)
  then show ?case using new_session_log by blast
next
  case (read_messages s)
  then show ?case using derive_messages_run by blast
qed (simp_all add: append_event_ok session_ok_request_header session_ok_request_context)

subsection \<open>Properties\<close>

text \<open>
  C7. The log of a session is always replayable: whatever was appended, rejected or read, the
  complete surface fold accepts it, its sequences are 0, 1, 2 and so on, and the cached reads of
  header and context are the folds of the whole log.
\<close>

theorem session_log_replayable:
  assumes "session_reach s"
  shows "(\<exists>r. fold_surface (ss_log s) = Inr r) \<and>
    map ev_seq (ss_log s) = map int [0..<length (ss_log s)] \<and>
    snd (read_request_header s) = fold_request_header None (ss_log s) \<and>
    snd (read_request_context s) = fold_request_context None (ss_log s)"
proof -
  have ok: "session_ok s" by (rule session_reach_ok [OF assms])
  from session_ok_hist [OF ok] obtain st reps where
      run: "foldR (surface_log_step 0) surface_start (ss_log s) = Inr (st, reps, ss_log s)"
      and hist: "surface_hist 0 (ss_log s) (st, reps, ss_log s)" by blast
  from hist have "\<forall>i < length (ss_log s). ev_seq (ss_log s ! i) = int i" by (simp add: surface_hist_def)
  then have "map ev_seq (ss_log s) = map int [0..<length (ss_log s)]"
    by (intro nth_equalityI) simp_all
  with run ok show ?thesis
    by (auto simp: fold_surface_replay read_request_header_def read_request_context_def Let_def session_ok_def
        header_cache.cache_read context_cache.cache_read)
qed

definition sample_header :: session_header where
  "sample_header = \<lparr>sh_version = 0, sh_id = ''s'', sh_created_at = 5, sh_cwd = Some ''/work'',
     sh_parent_session = None, sh_seed_length = None, sh_origin = None,
     sh_delegation_depth = None, sh_agent_preset = None\<rparr>"

text \<open>A restored session, read once, then cut short by a replacement and read again.\<close>

definition sample_session :: session_state where
  "sample_session =
     (case new_session ''s'' (Some (take 2 sample_log)) (Some sample_header) True 9 of
        Inr s \<Rightarrow> s | Inl _ \<Rightarrow> empty_session)"

lemma sample_session_reach: "session_reach sample_session"
proof -
  have "is_ok (new_session ''s'' (Some (take 2 sample_log)) (Some sample_header) True 9)"
    by code_simp
  then obtain s where s: "new_session ''s'' (Some (take 2 sample_log)) (Some sample_header) True 9 = Inr s"
    by (auto simp: is_ok_iff)
  from created [OF s] show ?thesis by (simp add: sample_session_def s)
qed

lemma session_log_replayable_witness:
  "snd (read_request_header sample_session) = fold_request_header None (ss_log sample_session)"
  using session_log_replayable [OF sample_session_reach] by simp

text \<open>
  C8. The cached transcript is the uncached one: \<open>deriveMessages\<close> returns, whatever prefix it
  had projected under whatever generation, the messages of the current surface nodes in order,
  without those that derive to nothing.
\<close>

theorem derive_messages_cached:
  assumes "session_reach s" and "fold_surface (ss_log s) = Inr r"
  shows "snd (derive_messages s) =
    Inr (List.map_filter (\<lambda>n. derive_event_message (ss_log s ! nat n)) (fr_nodes r))"
proof -
  from derive_messages_run [OF session_reach_ok [OF assms(1)]] obtain st reps ms where
      run: "foldR (surface_log_step 0) surface_start (ss_log s) = Inr (st, reps, ss_log s)"
      and ms: "derive_nodes (ss_log s) (sf_nodes st) = Inr ms" "snd (derive_messages s) = Inr ms" by blast
  from run assms(2) have "fr_nodes r = sf_nodes st" by (auto simp: fold_surface_replay)
  with ms derive_nodes_range [OF surface_run.hist_fold [OF run]] show ?thesis by simp
qed

lemma derive_messages_cached_witness:
  "snd (derive_messages (fst (derive_messages sample_session))) = Inr [sample_message ''m'', sample_message ''m'']"
proof -
  have reach: "session_reach (fst (derive_messages sample_session))"
    by (intro read_messages sample_session_reach)
  have fold: "fold_surface (ss_log (fst (derive_messages sample_session))) =
      Inr \<lparr>fr_nodes = [0, 1], fr_replacements = []\<rparr>"
    by code_simp
  have at: "derive_event_message (ss_log (fst (derive_messages sample_session)) ! 0) = Some (sample_message ''m'')"
      "derive_event_message (ss_log (fst (derive_messages sample_session)) ! Suc 0) = Some (sample_message ''m'')"
    by code_simp+
  show ?thesis using derive_messages_cached [OF reach fold] by (simp add: map_filter_simps at)
qed

text \<open>
  C9. \<open>append\<close> is exact. It stores the event it returns, at the end of the log, when the event
  is in supported vocabulary, the complete fold accepts the extended log, no publication is open
  and no internal dispatch handler refuses it; otherwise it throws and the log is unchanged. A
  handler's error is thrown as it is, and only for an event that would have been stored.
\<close>

theorem append_event_exact:
  assumes "session_reach s"
    and "e = \<lparr>ev_seq = int (length (ss_log s)), ev_time = now, ev_data = d, ev_ignorable = False,
              ev_surface_op = op, ev_sources = sources\<rparr>"
    and "valid \<longleftrightarrow> assert_supported_request_header d = Inr () \<and> is_ok (fold_surface (ss_log s @ [e]))"
  shows "ss_log (fst (append_event s gate now d op sources)) =
      (if valid \<and> gate = GateOpen then ss_log s @ [e] else ss_log s) \<and>
    (snd (append_event s gate now d op sources) = Inr e \<longleftrightarrow> valid \<and> gate = GateOpen) \<and>
    (is_ok (snd (append_event s gate now d op sources)) \<longleftrightarrow> valid \<and> gate = GateOpen) \<and>
    (\<forall>err. valid \<longrightarrow> gate = GateVeto err \<longrightarrow> snd (append_event s gate now d op sources) = Inl err)"
proof -
  have rep: "manager_rep 0 (ss_log s) (ss_surface s)"
    using session_reach_ok [OF assms(1)] by (simp add: session_ok_def)
  have fold: "is_ok (fold_surface log) \<longleftrightarrow> is_ok (foldR (surface_log_step 0) surface_start log)" for log
    by (cases "foldR (surface_log_step 0) surface_start log") (auto simp: fold_surface_replay)
  obtain m err where v: "validate_next (ss_surface s) (ss_log s) 0 e = (m, err)" by (metis surj_pair)
  with validate_next_cases(2) [OF rep, of e]
  have "err = None \<longleftrightarrow> is_ok (fold_surface (ss_log s @ [e]))"
    unfolding fold by (auto split: sum.splits)
  with v show ?thesis
    unfolding assms(3)
    by (cases gate)
      (auto simp: append_event_def append_validate_def append_commit_def assms(2) [symmetric] Let_def
        split: sum.splits option.splits)
qed

lemma append_event_exact_witness:
  "ss_log (fst (append_event sample_session GateOpen 3 (TurnStart 1) None None)) =
     ss_log sample_session @ [\<lparr>ev_seq = 3, ev_time = 3, ev_data = TurnStart 1, ev_ignorable = False,
       ev_surface_op = None, ev_sources = None\<rparr>] \<and>
   snd (append_event sample_session (GateVeto (JsError ''no'')) 3 (TurnStart 1) None None) =
     Inl (JsError ''no'')"
proof -
  have len: "length (ss_log sample_session) = 3" by code_simp
  have ok: "is_ok (fold_surface (ss_log sample_session @
      [\<lparr>ev_seq = int (length (ss_log sample_session)), ev_time = 3, ev_data = TurnStart 1,
        ev_ignorable = False, ev_surface_op = None, ev_sources = None\<rparr>]))"
    by code_simp
  have sup: "assert_supported_request_header (TurnStart 1) = Inr ()" by code_simp
  note exact = append_event_exact [OF sample_session_reach refl refl, of _ 3 "TurnStart 1" None None]
  from exact [of GateOpen] exact [of "GateVeto (JsError ''no'')"] ok sup
  show ?thesis by (simp add: len)
qed

lemma seed_event_mark:
  assumes "session_ok s" and "is_safe now" and "int (length (ss_log s)) \<le> max_safe"
  shows "\<exists>s'. seed_event s \<lparr>ev_seq = int (length (ss_log s)), ev_time = now, ev_data = EndSeed,
      ev_ignorable = False, ev_surface_op = None, ev_sources = None\<rparr> = Inr s'"
  using append_end_seed [OF assms(1) refl, of now] assms(2,3)
  by (auto simp: seed_event_def assert_session_event_envelope_def assert_current_llm_shape_def
      assert_message_event_shape_def assert_supported_request_header_def is_event_seq_def is_safe_def)

text \<open>
  Opening a stored session again does not grow its log: a log built by the constructor ends
  with the seed mark, is itself accepted as a seed, and is reproduced unchanged.
\<close>

theorem reopen_keeps_log:
  assumes "new_session i (Some es) (Some h) restore now = Inr s"
    and "is_safe now" and "int (length es) \<le> max_safe"
  shows "\<exists>s'. new_session i (Some (ss_log s)) (Some h) True later = Inr s' \<and> ss_log s' = ss_log s"
proof -
  from assms(1) obtain s0 where seed: "foldR seed_event empty_session es = Inr s0"
      and h: "validate_session_header i h = Inr h"
    by (auto simp: new_session_def result_simps validate_restored_session_header_def
        snapshot_session_header_def validate_session_header_def split: if_splits)
  have s0: "session_ok s0" "ss_log s0 = es" using seed_loop.hist_fold [OF seed] by simp_all
  note log = new_session_log [OF assms(1)]
  have "\<exists>s1. foldR seed_event empty_session (ss_log s) = Inr s1"
  proof (cases "ends_seeded es")
    case True
    with log seed show ?thesis by simp
  next
    case False
    with log seed seed_event_mark [OF s0(1) assms(2)] assms(3) s0(2) show ?thesis
      by (auto simp: foldR_snoc)
  qed
  then obtain s1 where s1: "foldR seed_event empty_session (ss_log s) = Inr s1" by blast
  have "ends_seeded (ss_log s)" using log by (auto simp: ends_seeded_def array_last_def)
  moreover have "ss_log s1 = ss_log s" using seed_loop.hist_fold [OF s1] by simp
  ultimately show ?thesis
    using s1 h by (simp add: new_session_def validate_restored_session_header_def Let_def)
qed

lemma reopen_keeps_log_witness:
  "\<exists>s s'. new_session ''s'' (Some (take 2 sample_log)) (Some sample_header) True 9 = Inr s \<and>
     new_session ''s'' (Some (ss_log s)) (Some sample_header) True 77 = Inr s' \<and> ss_log s' = ss_log s"
proof -
  have "is_ok (new_session ''s'' (Some (take 2 sample_log)) (Some sample_header) True 9)"
    by code_simp
  then obtain s where s: "new_session ''s'' (Some (take 2 sample_log)) (Some sample_header) True 9 = Inr s"
    by (auto simp: is_ok_iff)
  from reopen_keeps_log [OF s, of 77] s show ?thesis by (auto simp: is_safe_def max_safe_def sample_log_def)
qed

end
