(* ===== verification/SessionStore.thy ===== *)
theory SessionStore
  imports SessionLog
begin

text \<open>
  The store of live sessions (\<open>class SessionStore\<close> of \<open>packages/core/session/src/index.ts\<close>):
  preparation, entering, announcing, appending through an attached session, deferred detaching,
  and forking. Objects and entries live in two heaps, so that identity is a position. What
  listeners do between the start and the end of a publication is a sequence of further
  operations of the store.
\<close>

subsection \<open>State\<close>

record session_entry =
  en_id :: string
  en_object :: nat
  en_announced :: bool
  en_announcing :: bool
  en_appending :: bool
  en_detach_requested :: bool
  en_entered :: bool
  en_inflight :: "session_event option"

datatype publication = Created nat | Disposed nat | Published nat session_event

record store_state =
  so_objects :: "session_state list"
  so_entries :: "session_entry list"
  so_store :: "(string, nat) jsmap"
  so_attached :: "(nat, nat) jsmap"
  so_counter :: nat
  so_published :: "publication list"

definition empty_store :: store_state where
  "empty_store = \<lparr>so_objects = [], so_entries = [], so_store = [], so_attached = [],
     so_counter = 0, so_published = []\<rparr>"

definition set_entry :: "store_state \<Rightarrow> nat \<Rightarrow> session_entry \<Rightarrow> store_state" where
  "set_entry st n en = st\<lparr>so_entries := (so_entries st)[n := en]\<rparr>"

text \<open>An entry is live while the store maps its id to it.\<close>

definition entry_live :: "store_state \<Rightarrow> nat \<Rightarrow> bool" where
  "entry_live st n \<longleftrightarrow> n < length (so_entries st) \<and>
     map_get (so_store st) (en_id (so_entries st ! n)) = Some n"

subsection \<open>Preparation\<close>

text \<open>
  A fresh id: the counter is advanced until its name is free. The number of tries is bounded by
  the number of live sessions.
\<close>

fun free_id :: "nat \<Rightarrow> nat \<Rightarrow> (string, nat) jsmap \<Rightarrow> (nat \<times> string) option" where
  "free_id 0 counter m = None"
| "free_id (Suc fuel) counter m =
     (let name = ''session-'' @ show_nat (Suc counter) in
      if map_has m name then free_id fuel (Suc counter) m else Some (Suc counter, name))"

record create_meta =
  cm_created_at :: "int option"
  cm_cwd :: "string option"
  cm_parent_session :: "string option"
  cm_seed_length :: "int option"
  cm_origin :: "string option"
  cm_delegation_depth :: "int option"
  cm_agent_preset :: "string option"

definition empty_meta :: create_meta where
  "empty_meta = \<lparr>cm_created_at = None, cm_cwd = None, cm_parent_session = None, cm_seed_length = None,
     cm_origin = None, cm_delegation_depth = None, cm_agent_preset = None\<rparr>"

datatype prepare_options =
    CreateOptions "session_event list option" create_meta
  | RestoreOptions "session_event list" session_header

definition created_header :: "string \<Rightarrow> create_meta \<Rightarrow> int \<Rightarrow> session_header" where
  "created_header i m now =
     \<lparr>sh_version = session_format_version, sh_id = i,
      sh_created_at = (case cm_created_at m of None \<Rightarrow> now | Some t \<Rightarrow> t),
      sh_cwd = cm_cwd m, sh_parent_session = cm_parent_session m, sh_seed_length = cm_seed_length m,
      sh_origin = cm_origin m, sh_delegation_depth = cm_delegation_depth m,
      sh_agent_preset = cm_agent_preset m\<rparr>"

text \<open>The prepared session becomes a new object; its position is returned.\<close>

definition prepare ::
    "store_state \<Rightarrow> string option \<Rightarrow> prepare_options \<Rightarrow> int \<Rightarrow> store_state \<times> (js_error, nat) result" where
  "prepare st request options now =
     (case (case request of
              Some i \<Rightarrow> Some (so_counter st, i)
            | None \<Rightarrow> free_id (Suc (length (so_store st))) (so_counter st) (so_store st)) of
        None \<Rightarrow> (st, Inl (JsError ''no free session id''))
      | Some (counter, i) \<Rightarrow>
          (let st' = st\<lparr>so_counter := counter\<rparr> in
           if map_has (so_store st) i then (st', Inl (JsError ''session already exists''))
           else
             case (case options of
                     RestoreOptions seed header \<Rightarrow> new_session i (Some seed) (Some header) True now
                   | CreateOptions seed m \<Rightarrow> new_session i seed (Some (created_header i m now)) False now) of
               Inl err \<Rightarrow> (st', Inl err)
             | Inr s \<Rightarrow> (st'\<lparr>so_objects := so_objects st' @ [s]\<rparr>, Inr (length (so_objects st')))))"

subsection \<open>Entering and detaching\<close>

definition enter :: "store_state \<Rightarrow> nat \<Rightarrow> store_state \<times> (js_error, nat) result" where
  "enter st obj =
     (let i = sh_id (ss_header (so_objects st ! obj)) in
      if map_has (so_store st) i then (st, Inl (JsError ''session already exists''))
      else if map_has (so_attached st) obj then (st, Inl (JsError ''session is already attached to a store''))
      else
        (let n = length (so_entries st);
             en = \<lparr>en_id = i, en_object = obj, en_announced = False, en_announcing = False,
                   en_appending = False, en_detach_requested = False, en_entered = True, en_inflight = None\<rparr>
         in (st\<lparr>so_entries := so_entries st @ [en], so_store := map_set i n (so_store st),
                so_attached := map_set obj n (so_attached st)\<rparr>, Inr n)))"

definition detach_entered :: "store_state \<Rightarrow> nat \<Rightarrow> store_state" where
  "detach_entered st n =
     (let en = (so_entries st ! n)\<lparr>en_detach_requested := False\<rparr>;
          st' = set_entry st n en
      in if map_get (so_store st') (en_id en) \<noteq> Some n then st'
         else st'\<lparr>so_store := map_delete (en_id en) (so_store st'),
                  so_attached := map_delete (en_object en) (so_attached st'),
                  so_published := so_published st' @ (if en_announced en then [Disposed n] else [])\<rparr>)"

text \<open>The capability \<open>enter\<close> returns for its entry.\<close>

definition detach :: "store_state \<Rightarrow> nat \<Rightarrow> store_state" where
  "detach st n =
     (let en = so_entries st ! n in
      if \<not> en_entered en then st
      else if en_announcing en \<or> en_appending en
           then set_entry st n (en\<lparr>en_entered := False, en_detach_requested := True\<rparr>)
           else detach_entered (set_entry st n (en\<lparr>en_entered := False\<rparr>)) n)"

subsection \<open>Announcing\<close>

definition live_entry_for :: "store_state \<Rightarrow> nat \<Rightarrow> (js_error, nat) result" where
  "live_entry_for st obj =
     (case map_get (so_attached st) obj of
        None \<Rightarrow> Inl (JsError ''session is not live in this store'')
      | Some n \<Rightarrow>
          if map_get (so_store st) (en_id (so_entries st ! n)) \<noteq> Some n
          then Inl (JsError ''session is not live in this store'') else Inr n)"

definition announce_begin :: "store_state \<Rightarrow> nat \<Rightarrow> store_state \<times> (js_error, nat) result" where
  "announce_begin st obj =
     (case live_entry_for st obj of
        Inl err \<Rightarrow> (st, Inl err)
      | Inr n \<Rightarrow>
          (let en = so_entries st ! n in
           if en_announced en \<or> en_announcing en then (st, Inl (JsError ''session was already announced''))
           else ((set_entry st n (en\<lparr>en_announced := True, en_announcing := True\<rparr>))
                   \<lparr>so_published := so_published st @ [Created n]\<rparr>, Inr n)))"

definition announce_end :: "store_state \<Rightarrow> nat \<Rightarrow> store_state" where
  "announce_end st n =
     (let en = (so_entries st ! n)\<lparr>en_announcing := False\<rparr>;
          st' = set_entry st n en
      in if en_detach_requested en \<and> \<not> en_appending en then detach_entered st' n else st')"

subsection \<open>Appending to an attached session\<close>

text \<open>
  Validation marks the entry as appending and keeps the event; the listeners are collected, and
  unless that throws the event enters the log and is published; the end of the publication runs
  on every path. A session that is not attached appends at once.
\<close>

definition set_object :: "store_state \<Rightarrow> nat \<Rightarrow> session_state \<Rightarrow> store_state" where
  "set_object st obj s = st\<lparr>so_objects := (so_objects st)[obj := s]\<rparr>"

definition append_begin ::
    "store_state \<Rightarrow> nat \<Rightarrow> int \<Rightarrow> event_data \<Rightarrow> json option \<Rightarrow> json option
      \<Rightarrow> store_state \<times> (js_error, session_event) result" where
  "append_begin st obj now d op sources =
     (let s = so_objects st ! obj in
      case map_get (so_attached st) obj of
        None \<Rightarrow> (case append_event s GateOpen now d op sources of (s', r) \<Rightarrow> (set_object st obj s', r))
      | Some n \<Rightarrow>
          (case append_validate s (en_appending (so_entries st ! n)) now d op sources of
             (s', Inl err) \<Rightarrow> (set_object st obj s', Inl err)
           | (s', Inr e) \<Rightarrow>
               (set_entry (set_object st obj s') n
                  ((so_entries st ! n)\<lparr>en_appending := True, en_inflight := Some e\<rparr>), Inr e)))"

definition append_push :: "store_state \<Rightarrow> nat \<Rightarrow> store_state" where
  "append_push st n =
     (let en = so_entries st ! n in
      case en_inflight en of
        None \<Rightarrow> st
      | Some e \<Rightarrow>
          (set_entry (set_object st (en_object en) (append_commit (so_objects st ! en_object en) e)) n
             (en\<lparr>en_inflight := None\<rparr>))\<lparr>so_published := so_published st @ [Published n e]\<rparr>)"

definition append_end :: "store_state \<Rightarrow> nat \<Rightarrow> store_state" where
  "append_end st n =
     (let en = (so_entries st ! n)\<lparr>en_appending := False, en_inflight := None\<rparr>;
          st' = set_entry st n en
      in if en_detach_requested en \<and> \<not> en_announcing en then detach_entered st' n else st')"

subsection \<open>Operations in sequence\<close>

datatype store_op =
    OpPrepare "string option" prepare_options int
  | OpEnter nat
  | OpDetach nat
  | OpAnnounceBegin nat
  | OpAnnounceEnd nat
  | OpAppendBegin nat int event_data "json option" "json option"
  | OpAppendPush nat
  | OpAppendEnd nat

text \<open>
  One operation. Its object or entry must exist, and a publication is pushed or ended only while
  it runs, as the call stack guarantees in the code.
\<close>

fun store_exec :: "store_state \<Rightarrow> store_op \<Rightarrow> store_state" where
  "store_exec st (OpPrepare request options now) = fst (prepare st request options now)"
| "store_exec st (OpEnter obj) = (if obj < length (so_objects st) then fst (enter st obj) else st)"
| "store_exec st (OpDetach n) = (if n < length (so_entries st) then detach st n else st)"
| "store_exec st (OpAnnounceBegin obj) =
     (if obj < length (so_objects st) then fst (announce_begin st obj) else st)"
| "store_exec st (OpAnnounceEnd n) =
     (if n < length (so_entries st) \<and> en_announcing (so_entries st ! n) then announce_end st n else st)"
| "store_exec st (OpAppendBegin obj now d op sources) =
     (if obj < length (so_objects st) then fst (append_begin st obj now d op sources) else st)"
| "store_exec st (OpAppendPush n) =
     (if n < length (so_entries st) \<and> en_appending (so_entries st ! n) then append_push st n else st)"
| "store_exec st (OpAppendEnd n) =
     (if n < length (so_entries st) \<and> en_appending (so_entries st ! n) then append_end st n else st)"

definition store_run :: "store_state \<Rightarrow> store_op list \<Rightarrow> store_state" where
  "store_run st ops = foldl store_exec st ops"

text \<open>
  \<open>create\<close>: prepare, enter and announce as one effect; when a listener throws, the effect's
  disposer detaches the entry. \<open>listeners\<close> is what the listeners of the creation do.
\<close>

definition create_session ::
    "store_state \<Rightarrow> string option \<Rightarrow> prepare_options \<Rightarrow> int \<Rightarrow> store_op list \<Rightarrow> bool
      \<Rightarrow> store_state \<times> (js_error, nat) result" where
  "create_session st request options now listeners throws =
     (case prepare st request options now of
        (st1, Inl err) \<Rightarrow> (st1, Inl err)
      | (st1, Inr obj) \<Rightarrow>
          (case enter st1 obj of
             (st2, Inl err) \<Rightarrow> (st2, Inl err)
           | (st2, Inr n) \<Rightarrow>
               (case announce_begin st2 obj of
                  (st3, Inl err) \<Rightarrow> (detach st3 n, Inl err)
                | (st3, Inr _) \<Rightarrow>
                    (let st4 = announce_end (store_run st3 listeners) n in
                     if throws then (detach st4 n, Inl (JsError ''session/created listener threw''))
                     else (st4, Inr obj)))))"

subsection \<open>Forking\<close>

datatype fork_error =
    ForkNotFound
  | ForkNotLive
  | ForkExists
  | ForkBoundary
  | ForkOpenTurn
  | ForkOther js_error

fun last_turn_boundary :: "event_data option \<Rightarrow> session_event list \<Rightarrow> event_data option" where
  "last_turn_boundary found [] = found"
| "last_turn_boundary found (e # es) =
     last_turn_boundary
       (case ev_data e of
          TurnStart t \<Rightarrow> Some (TurnStart t)
        | TurnEnd t r \<Rightarrow> Some (TurnEnd t r)
        | _ \<Rightarrow> found) es"

definition fork_seed :: "session_event list \<Rightarrow> int option \<Rightarrow> (fork_error, session_event list) result" where
  "fork_seed events requested =
     (case (requested, array_last events) of
        (None, None) \<Rightarrow> Inr []
      | (r, lst) \<Rightarrow>
          (let boundary = (case (r, lst) of (Some b, _) \<Rightarrow> b | (None, Some e) \<Rightarrow> ev_seq e | _ \<Rightarrow> 0) in
           throw_if (\<not> is_event_seq boundary) ForkBoundary
           (throw_if (int (length events) \<le> boundary) ForkBoundary
           (case array_at events boundary of
              None \<Rightarrow> Inl ForkBoundary
            | Some e \<Rightarrow>
                throw_if (ev_seq e \<noteq> boundary) ForkBoundary
                (throw_if (case last_turn_boundary None (take (nat boundary + 1) events) of
                     Some (TurnStart _) \<Rightarrow> True | _ \<Rightarrow> False) ForkOpenTurn
                (Inr (take (nat boundary + 1) events)))))))"

text \<open>A fork source is an id or a session object.\<close>

datatype fork_source = SourceId string | SourceObject nat

definition store_lookup :: "store_state \<Rightarrow> string \<Rightarrow> nat option" where
  "store_lookup st i = map_option (\<lambda>n. en_object (so_entries st ! n)) (map_get (so_store st) i)"

definition list_sessions :: "store_state \<Rightarrow> nat list" where
  "list_sessions st = map (\<lambda>n. en_object (so_entries st ! n)) (map_values (so_store st))"

definition resolve_fork_source :: "store_state \<Rightarrow> fork_source \<Rightarrow> (fork_error, nat) result" where
  "resolve_fork_source st source =
     (case source of
        SourceId i \<Rightarrow> (case store_lookup st i of None \<Rightarrow> Inl ForkNotFound | Some obj \<Rightarrow> Inr obj)
      | SourceObject obj \<Rightarrow>
          (case store_lookup st (sh_id (ss_header (so_objects st ! obj))) of
             None \<Rightarrow> Inl ForkNotFound
           | Some live \<Rightarrow> if live \<noteq> obj then Inl ForkNotLive else Inr obj))"

definition fork_live ::
    "store_state \<Rightarrow> nat \<Rightarrow> int option \<Rightarrow> string option \<Rightarrow> int \<Rightarrow> store_op list \<Rightarrow> bool
      \<Rightarrow> store_state \<times> (fork_error, nat) result" where
  "fork_live st obj boundary child now listeners throws =
     (let s = so_objects st ! obj in
      case fork_seed (ss_log s) boundary of
        Inl err \<Rightarrow> (st, Inl err)
      | Inr seed \<Rightarrow>
          (case create_session st child
                  (CreateOptions (Some seed)
                     (empty_meta\<lparr>cm_cwd := sh_cwd (ss_header s), cm_parent_session := Some (sh_id (ss_header s)),
                                 cm_seed_length := Some (int (length seed))\<rparr>)) now listeners throws of
             (st', r) \<Rightarrow> (st', mapError ForkOther r)))"

definition fork ::
    "store_state \<Rightarrow> fork_source \<Rightarrow> int option \<Rightarrow> string option \<Rightarrow> int \<Rightarrow> store_op list \<Rightarrow> bool
      \<Rightarrow> store_state \<times> (fork_error, nat) result" where
  "fork st source boundary child now listeners throws =
     (if (case child of None \<Rightarrow> False | Some i \<Rightarrow> store_lookup st i \<noteq> None) then (st, Inl ForkExists)
      else case resolve_fork_source st source of
             Inl err \<Rightarrow> (st, Inl err)
           | Inr obj \<Rightarrow> fork_live st obj boundary child now listeners throws)"

subsection \<open>The lifecycle invariant\<close>

fun about :: "publication \<Rightarrow> nat" where
  "about (Created n) = n"
| "about (Disposed n) = n"
| "about (Published n _) = n"

fun lifecycle_edge :: "publication \<Rightarrow> bool" where
  "lifecycle_edge (Published _ _) = False"
| "lifecycle_edge _ = True"

definition disposal_last :: "publication list \<Rightarrow> bool" where
  "disposal_last ps \<longleftrightarrow> sorted_wrt (\<lambda>a b. case a of Disposed n \<Rightarrow> about b \<noteq> n | _ \<Rightarrow> True) ps"

definition entry_ok :: "store_state \<Rightarrow> nat \<Rightarrow> bool" where
  "entry_ok st n \<longleftrightarrow>
     (let en = so_entries st ! n in
      en_object en < length (so_objects st) \<and>
      en_id en = sh_id (ss_header (so_objects st ! en_object en)) \<and>
      (entry_live st n \<longleftrightarrow> en_entered en \<or> en_detach_requested en) \<and>
      (en_detach_requested en \<longrightarrow> \<not> en_entered en \<and> (en_announcing en \<or> en_appending en)) \<and>
      (entry_live st n \<longrightarrow> map_get (so_attached st) (en_object en) = Some n) \<and>
      (en_announcing en \<longrightarrow> en_announced en) \<and>
      (en_announcing en \<or> en_appending en \<longrightarrow> entry_live st n) \<and>
      (\<forall>e. en_inflight en = Some e \<longrightarrow> en_appending en \<and> pending_ok (so_objects st ! en_object en) e) \<and>
      (Created n \<in> set (so_published st) \<longleftrightarrow> en_announced en) \<and>
      (Disposed n \<in> set (so_published st) \<longleftrightarrow> en_announced en \<and> \<not> entry_live st n))"

definition store_ok :: "store_state \<Rightarrow> bool" where
  "store_ok st \<longleftrightarrow>
     (\<forall>n < length (so_entries st). entry_ok st n) \<and>
     map_ok (so_store st) \<and> map_ok (so_attached st) \<and>
     (\<forall>k n. map_get (so_store st) k = Some n \<longrightarrow> n < length (so_entries st) \<and> en_id (so_entries st ! n) = k) \<and>
     (\<forall>k n. map_get (so_attached st) k = Some n \<longrightarrow>
        n < length (so_entries st) \<and> en_object (so_entries st ! n) = k \<and> entry_live st n) \<and>
     (\<forall>s \<in> set (so_objects st). session_ok s) \<and>
     (\<forall>x \<in> set (so_published st). about x < length (so_entries st)) \<and>
     disposal_last (so_published st) \<and> distinct (filter lifecycle_edge (so_published st))"

lemma store_ok_entry: "store_ok st \<Longrightarrow> n < length (so_entries st) \<Longrightarrow> entry_ok st n"
  by (simp add: store_ok_def)

lemma empty_store_ok: "store_ok empty_store"
  by (simp add: store_ok_def empty_store_def disposal_last_def)

lemma set_entry_simps [simp]:
  "so_objects (set_entry st n en) = so_objects st"
  "so_entries (set_entry st n en) = (so_entries st)[n := en]"
  "so_store (set_entry st n en) = so_store st"
  "so_attached (set_entry st n en) = so_attached st"
  "so_published (set_entry st n en) = so_published st"
  "so_counter (set_entry st n en) = so_counter st"
  by (simp_all add: set_entry_def)

lemma set_object_simps [simp]:
  "so_objects (set_object st k s) = (so_objects st)[k := s]"
  "so_entries (set_object st k s) = so_entries st"
  "so_store (set_object st k s) = so_store st"
  "so_attached (set_object st k s) = so_attached st"
  "so_published (set_object st k s) = so_published st"
  "so_counter (set_object st k s) = so_counter st"
  by (simp_all add: set_object_def)

lemma entry_live_set_entry:
  assumes "en_id en = en_id (so_entries st ! n)"
  shows "entry_live (set_entry st n en) m \<longleftrightarrow> entry_live st m"
  using assms by (cases "n = m") (auto simp: entry_live_def)

lemma entry_live_cong:
  assumes "so_store st' = so_store st" and "map en_id (so_entries st') = map en_id (so_entries st)"
  shows "entry_live st' = entry_live st"
proof
  fix n
  have "length (so_entries st') = length (so_entries st)" using assms(2) by (metis length_map)
  moreover from this have "n < length (so_entries st) \<Longrightarrow> en_id (so_entries st' ! n) = en_id (so_entries st ! n)"
    using assms(2) by (metis nth_map)
  ultimately show "entry_live st' n = entry_live st n" by (auto simp: entry_live_def assms(1))
qed

text \<open>Changing the flags of one entry.\<close>

lemma store_ok_set_entry:
  assumes ok: "store_ok st" and n: "n < length (so_entries st)"
    and same: "en_id en = en_id (so_entries st ! n)" "en_object en = en_object (so_entries st ! n)"
    and entry: "entry_ok (set_entry st n en) n"
  shows "store_ok (set_entry st n en)"
proof -
  note live = entry_live_set_entry [OF same(1)]
  have "entry_ok (set_entry st n en) m" if "m < length (so_entries st)" for m
  proof (cases "m = n")
    case False
    then have "entry_ok (set_entry st n en) m \<longleftrightarrow> entry_ok st m"
      unfolding entry_ok_def Let_def live by simp
    with store_ok_entry [OF ok that] show ?thesis by simp
  qed (use entry in simp)
  moreover have "\<forall>k m. map_get (so_store st) k = Some m \<longrightarrow>
      m < length (so_entries st) \<and> en_id ((so_entries st)[n := en] ! m) = k"
    using ok same n unfolding store_ok_def by (metis nth_list_update_eq nth_list_update_neq)
  moreover have "\<forall>k m. map_get (so_attached st) k = Some m \<longrightarrow>
      m < length (so_entries st) \<and> en_object ((so_entries st)[n := en] ! m) = k \<and> entry_live st m"
    using ok same n unfolding store_ok_def by (metis nth_list_update_eq nth_list_update_neq)
  ultimately show ?thesis using ok unfolding store_ok_def live by simp
qed

text \<open>Removing a live entry whose publications are over.\<close>

lemma disposal_last_snoc:
  "disposal_last (ps @ [x]) \<longleftrightarrow> disposal_last ps \<and> Disposed (about x) \<notin> set ps"
  by (auto simp: disposal_last_def sorted_wrt_append split: publication.splits)

lemma store_ok_remove:
  assumes ok: "store_ok st" and live: "entry_live st n"
    and en: "en_id en = en_id (so_entries st ! n)" "en_object en = en_object (so_entries st ! n)"
      "en_announced en = en_announced (so_entries st ! n)"
      "\<not> en_announcing en" "\<not> en_appending en" "\<not> en_entered en" "en_inflight en = None"
  shows "store_ok (detach_entered (set_entry st n en) n) \<and>
    \<not> entry_live (detach_entered (set_entry st n en) n) n"
proof -
  define st' where "st' = detach_entered (set_entry st n en) n"
  define en' where "en' = en\<lparr>en_detach_requested := False\<rparr>"
  have n: "n < length (so_entries st)" and store: "map_get (so_store st) (en_id en) = Some n"
    using live by (simp_all add: entry_live_def en)
  have st': "so_objects st' = so_objects st" "so_entries st' = (so_entries st)[n := en']"
      "so_store st' = map_delete (en_id en) (so_store st)"
      "so_attached st' = map_delete (en_object en) (so_attached st)"
      "so_published st' = so_published st @ (if en_announced en then [Disposed n] else [])"
    using n store by (simp_all add: st'_def detach_entered_def Let_def en'_def)
  have att: "map_get (so_attached st) (en_object en) = Some n"
    using store_ok_entry [OF ok n] live by (simp add: entry_ok_def Let_def en)
  have dead: "\<not> entry_live st' n" using n by (simp add: entry_live_def st' en'_def delete_conv')
  have other: "entry_live st' m \<longleftrightarrow> entry_live st m" if "m \<noteq> n" for m
    using that store by (auto simp: entry_live_def st' delete_conv')
  have "entry_ok st' m" if m: "m < length (so_entries st)" for m
  proof (cases "m = n")
    case True
    have "entry_ok st n" by (rule store_ok_entry [OF ok n])
    with dead n True live show ?thesis
      by (auto simp: entry_ok_def Let_def st' en'_def en)
  next
    case False
    have "entry_live st m \<Longrightarrow> en_object (so_entries st ! m) \<noteq> en_object en"
      using store_ok_entry [OF ok m] att False by (auto simp: entry_ok_def Let_def)
    moreover have "entry_ok st m" by (rule store_ok_entry [OF ok m])
    ultimately show ?thesis using False
      unfolding entry_ok_def Let_def other [OF False] by (auto simp: st' delete_conv')
  qed
  moreover have "disposal_last (so_published st')"
    using ok store_ok_entry [OF ok n] live
    by (auto simp: st' store_ok_def disposal_last_snoc entry_ok_def Let_def)
  moreover have "distinct (filter lifecycle_edge (so_published st'))"
    using ok store_ok_entry [OF ok n] live
    by (auto simp: st' store_ok_def entry_ok_def Let_def)
  moreover have "\<forall>k m. map_get (so_store st') k = Some m \<longrightarrow> m < length (so_entries st') \<and> en_id (so_entries st' ! m) = k"
  proof (intro allI impI)
    fix k m assume "map_get (so_store st') k = Some m"
    then have k: "k \<noteq> en_id en" "map_get (so_store st) k = Some m"
      by (auto simp: st' delete_conv' split: if_splits)
    with ok have m: "m < length (so_entries st)" "en_id (so_entries st ! m) = k"
      unfolding store_ok_def by blast+
    with k en(1) have "m \<noteq> n" by auto
    with m show "m < length (so_entries st') \<and> en_id (so_entries st' ! m) = k" by (simp add: st')
  qed
  moreover have "\<forall>k m. map_get (so_attached st') k = Some m \<longrightarrow>
      m < length (so_entries st') \<and> en_object (so_entries st' ! m) = k \<and> entry_live st' m"
  proof (intro allI impI)
    fix k m assume "map_get (so_attached st') k = Some m"
    then have k: "k \<noteq> en_object en" "map_get (so_attached st) k = Some m"
      by (auto simp: st' delete_conv' split: if_splits)
    with ok have m: "m < length (so_entries st)" "en_object (so_entries st ! m) = k" "entry_live st m"
      unfolding store_ok_def by blast+
    with k en(2) have "m \<noteq> n" by auto
    with m other show "m < length (so_entries st') \<and> en_object (so_entries st' ! m) = k \<and> entry_live st' m"
      by (simp add: st')
  qed
  moreover have "\<forall>x \<in> set (so_published st'). about x < length (so_entries st')"
    using ok n by (auto simp: st' store_ok_def)
  ultimately have "store_ok st'"
    using ok by (simp add: store_ok_def st')
  with dead show ?thesis by (simp add: st'_def)
qed

text \<open>Adding and replacing objects.\<close>

lemma entry_live_objects [simp]:
  "entry_live (st\<lparr>so_objects := os\<rparr>) n = entry_live st n"
  "entry_live (st\<lparr>so_counter := c\<rparr>) n = entry_live st n"
  "entry_live (set_object st k s) n = entry_live st n"
  "entry_live (st\<lparr>so_published := ps\<rparr>) n = entry_live st n"
  by (simp_all add: entry_live_def)

lemma store_ok_counter [simp]: "store_ok (st\<lparr>so_counter := c\<rparr>) \<longleftrightarrow> store_ok st"
  by (simp add: store_ok_def entry_ok_def)

lemma store_ok_add_object:
  assumes "store_ok st" and "session_ok s"
  shows "store_ok (st\<lparr>so_objects := so_objects st @ [s]\<rparr>)"
proof -
  have "entry_ok (st\<lparr>so_objects := so_objects st @ [s]\<rparr>) n" if "n < length (so_entries st)" for n
    using store_ok_entry [OF assms(1) that] by (auto simp: entry_ok_def Let_def nth_append)
  with assms show ?thesis by (auto simp: store_ok_def)
qed

lemma store_ok_set_object:
  assumes ok: "store_ok st" and s: "session_ok s" "ss_header s = ss_header (so_objects st ! k)"
    and k: "k < length (so_objects st)"
    and idle: "\<And>m e. m < length (so_entries st) \<Longrightarrow> en_object (so_entries st ! m) = k \<Longrightarrow>
        en_inflight (so_entries st ! m) = Some e \<Longrightarrow> pending_ok s e"
  shows "store_ok (set_object st k s)"
proof -
  have "entry_ok (set_object st k s) n" if n: "n < length (so_entries st)" for n
    using store_ok_entry [OF ok n] idle [OF n] s(2) k
    by (cases "en_object (so_entries st ! n) = k") (auto simp: entry_ok_def Let_def)
  moreover have "\<forall>x \<in> set ((so_objects st)[k := s]). session_ok x"
    using ok s(1) by (auto simp: store_ok_def dest!: subsetD [OF set_update_subset_insert])
  ultimately show ?thesis using ok by (simp add: store_ok_def)
qed

lemma prepare_cases:
  obtains (failed) c err where "prepare st request options now = (st\<lparr>so_counter := c\<rparr>, Inl err)"
  | (prepared) c s where "session_ok s"
      and "prepare st request options now =
        (st\<lparr>so_counter := c, so_objects := so_objects st @ [s]\<rparr>, Inr (length (so_objects st)))"
proof -
  define pick where "pick = (case request of Some i \<Rightarrow> Some (so_counter st, i)
      | None \<Rightarrow> free_id (Suc (length (so_store st))) (so_counter st) (so_store st))"
  show thesis
  proof (cases pick)
    case None
    then have "prepare st request options now = (st\<lparr>so_counter := so_counter st\<rparr>, Inl (JsError ''no free session id''))"
      unfolding prepare_def pick_def [symmetric] by simp
    then show thesis by (rule failed)
  next
    case (Some ci)
    obtain c i where ci: "pick = Some (c, i)" using Some by (cases ci) simp
    define made where "made = (case options of
        RestoreOptions seed header \<Rightarrow> new_session i (Some seed) (Some header) True now
      | CreateOptions seed m \<Rightarrow> new_session i seed (Some (created_header i m now)) False now)"
    have unfold: "prepare st request options now =
        (if map_has (so_store st) i then (st\<lparr>so_counter := c\<rparr>, Inl (JsError ''session already exists''))
         else case made of
             Inl err \<Rightarrow> (st\<lparr>so_counter := c\<rparr>, Inl err)
           | Inr s \<Rightarrow> (st\<lparr>so_counter := c, so_objects := so_objects st @ [s]\<rparr>, Inr (length (so_objects st))))"
      unfolding prepare_def pick_def [symmetric] ci
      by (simp add: Let_def made_def [symmetric] split: sum.split)
    show thesis
    proof (cases "map_has (so_store st) i \<or> (\<exists>err. made = Inl err)")
      case True
      then have "\<exists>err. prepare st request options now = (st\<lparr>so_counter := c\<rparr>, Inl err)"
        using unfold by auto
      then show thesis using failed by blast
    next
      case False
      then obtain s where s: "made = Inr s" by (cases made) auto
      then have "session_ok s"
        unfolding made_def using new_session_log by (auto split: prepare_options.splits)
      moreover have "prepare st request options now =
          (st\<lparr>so_counter := c, so_objects := so_objects st @ [s]\<rparr>, Inr (length (so_objects st)))"
        using unfold False s by simp
      ultimately show thesis by (rule prepared)
    qed
  qed
qed

lemma store_ok_prepare:
  assumes "store_ok st"
  shows "store_ok (fst (prepare st request options now))"
proof (cases rule: prepare_cases [of st request options now])
  case (prepared c s)
  have "store_ok (st\<lparr>so_counter := c\<rparr>)" using assms by simp
  from store_ok_add_object [OF this prepared(1)] prepared(2) show ?thesis by simp
qed (use assms in simp)

lemma store_ok_enter:
  assumes ok: "store_ok st" and obj: "obj < length (so_objects st)"
  shows "store_ok (fst (enter st obj))"
proof (cases "snd (enter st obj)")
  case (Inl err)
  then have "fst (enter st obj) = st" by (auto simp: enter_def Let_def split: if_splits)
  with ok show ?thesis by simp
next
  case (Inr r)
  define i where "i = sh_id (ss_header (so_objects st ! obj))"
  define n where "n = length (so_entries st)"
  define en where "en = \<lparr>en_id = i, en_object = obj, en_announced = False, en_announcing = False,
      en_appending = False, en_detach_requested = False, en_entered = True, en_inflight = None\<rparr>"
  define st' where "st' = fst (enter st obj)"
  from Inr have free: "map_get (so_store st) i = None" "map_get (so_attached st) obj = None"
    by (auto simp: enter_def Let_def i_def split: if_splits)
  then have st': "so_objects st' = so_objects st" "so_entries st' = so_entries st @ [en]"
      "so_store st' = map_set i n (so_store st)" "so_attached st' = map_set obj n (so_attached st)"
      "so_published st' = so_published st"
    by (simp_all add: st'_def enter_def Let_def i_def n_def en_def)
  have pub: "\<forall>x \<in> set (so_published st). about x < n" using ok by (simp add: store_ok_def n_def)
  then have unpublished: "Created n \<notin> set (so_published st)" "Disposed n \<notin> set (so_published st)"
    by fastforce+
  have live_new: "entry_live st' n" by (simp add: entry_live_def st' n_def en_def)
  have live_old: "entry_live st' m \<longleftrightarrow> entry_live st m" if "m < n" for m
    using that free(1) by (auto simp: entry_live_def st' nth_append n_def)
  have "entry_ok st' m" if m: "m < Suc n" for m
  proof (cases "m = n")
    case True
    then show ?thesis using live_new unpublished obj
      by (simp add: entry_ok_def Let_def) (simp add: st' en_def i_def n_def)
  next
    case False
    with m have "m < n" by simp
    moreover from this have "entry_ok st m" using store_ok_entry [OF ok] by (simp add: n_def)
    ultimately show ?thesis using free(2) live_old [of m]
      unfolding entry_ok_def Let_def by (auto simp: st' nth_append n_def)
  qed
  moreover have "map_get (so_store st') k = Some m \<Longrightarrow> m < Suc n \<and> en_id (so_entries st' ! m) = k" for k m
    using ok by (auto simp: st' store_ok_def nth_append n_def en_def split: if_splits)
  moreover have "map_get (so_attached st') k = Some m \<Longrightarrow>
      m < Suc n \<and> en_object (so_entries st' ! m) = k \<and> entry_live st' m" for k m
  proof (cases "k = obj")
    case False
    assume "map_get (so_attached st') k = Some m"
    with False have "map_get (so_attached st) k = Some m" by (simp add: st')
    with ok have "m < n" "en_object (so_entries st ! m) = k" "entry_live st m"
      unfolding store_ok_def n_def by blast+
    with live_old show ?thesis by (simp add: st' nth_append n_def)
  qed (use live_new in \<open>auto simp: st' nth_append n_def en_def\<close>)
  moreover have "\<forall>x \<in> set (so_published st'). about x < length (so_entries st')"
    using pub by (auto simp: st' n_def)
  ultimately show ?thesis
    using ok unfolding st'_def [symmetric] store_ok_def by (simp add: st' n_def)
qed

lemma entry_inflight_object:
  assumes ok: "store_ok st" and "n < length (so_entries st)" and "m < length (so_entries st)"
    and "en_inflight (so_entries st ! m) = Some e" and "entry_live st n"
    and "en_object (so_entries st ! m) = en_object (so_entries st ! n)"
  shows "m = n"
  using store_ok_entry [OF ok assms(2)] store_ok_entry [OF ok assms(3)] assms(4-6)
  by (auto simp: entry_ok_def Let_def)

lemma store_ok_detach:
  assumes ok: "store_ok st" and n: "n < length (so_entries st)"
  shows "store_ok (detach st n)"
proof -
  define en where "en = so_entries st ! n"
  have entry: "entry_ok st n" by (rule store_ok_entry [OF ok n])
  show ?thesis
  proof (cases "en_entered en")
    case False
    with ok show ?thesis by (simp add: detach_def en_def Let_def)
  next
    case entered: True
    with entry have live: "entry_live st n" by (simp add: entry_ok_def Let_def en_def)
    show ?thesis
    proof (cases "en_announcing en \<or> en_appending en")
      case True
      have "entry_ok (set_entry st n (en\<lparr>en_entered := False, en_detach_requested := True\<rparr>)) n"
        using entry n True live unfolding entry_ok_def Let_def
        by (subst entry_live_set_entry) (auto simp: en_def entry_live_set_entry)
      then have "store_ok (set_entry st n (en\<lparr>en_entered := False, en_detach_requested := True\<rparr>))"
        by (intro store_ok_set_entry ok n) (simp_all add: en_def)
      with True entered show ?thesis by (simp add: detach_def en_def Let_def)
    next
      case False
      have "en_inflight en = None" using entry False
        by (cases "en_inflight en") (auto simp: entry_ok_def Let_def en_def)
      then have "store_ok (detach_entered (set_entry st n (en\<lparr>en_entered := False\<rparr>)) n)"
        using False live ok by (intro store_ok_remove [THEN conjunct1]) (auto simp: en_def)
      with False entered show ?thesis by (simp add: detach_def en_def Let_def)
    qed
  qed
qed

lemma live_entry_for_Inr:
  assumes ok: "store_ok st" and "live_entry_for st obj = Inr n"
  shows "n < length (so_entries st) \<and> entry_live st n \<and> en_object (so_entries st ! n) = obj"
proof -
  from assms(2) have "map_get (so_attached st) obj = Some n"
    by (auto simp: live_entry_for_def split: option.splits if_splits)
  with ok show ?thesis unfolding store_ok_def by blast
qed

lemma store_ok_announce_begin:
  assumes ok: "store_ok st"
  shows "store_ok (fst (announce_begin st obj))"
proof (cases "snd (announce_begin st obj)")
  case (Inl err)
  then have "fst (announce_begin st obj) = st"
    by (auto simp: announce_begin_def Let_def split: sum.splits if_splits)
  with ok show ?thesis by simp
next
  case (Inr n)
  define en where "en = so_entries st ! n"
  define st' where "st' = (set_entry st n (en\<lparr>en_announced := True, en_announcing := True\<rparr>))
      \<lparr>so_published := so_published st @ [Created n]\<rparr>"
  from Inr have found: "live_entry_for st obj = Inr n" and idle: "\<not> en_announced en" "\<not> en_announcing en"
      and st': "fst (announce_begin st obj) = st'"
    by (auto simp: announce_begin_def Let_def en_def st'_def split: sum.splits if_splits)
  from live_entry_for_Inr [OF ok found] have n: "n < length (so_entries st)" and live: "entry_live st n"
    by simp_all
  have entry: "entry_ok st n" by (rule store_ok_entry [OF ok n])
  have live_same: "entry_live st' m = entry_live st m" for m
    unfolding st'_def by (simp add: entry_live_set_entry en_def)
  have "entry_ok st' m" if m: "m < length (so_entries st)" for m
  proof (cases "m = n")
    case True
    with entry n live idle show ?thesis
      unfolding entry_ok_def Let_def live_same by (auto simp: st'_def en_def)
  next
    case False
    with store_ok_entry [OF ok m] show ?thesis
      unfolding entry_ok_def Let_def live_same by (auto simp: st'_def)
  qed
  moreover have "disposal_last (so_published st')" "distinct (filter lifecycle_edge (so_published st'))"
    using ok entry idle live
    by (auto simp: st'_def store_ok_def disposal_last_snoc entry_ok_def Let_def en_def)
  moreover have "\<forall>k m. map_get (so_store st) k = Some m \<longrightarrow>
      m < length (so_entries st) \<and> en_id (so_entries st' ! m) = k"
    using ok n unfolding store_ok_def st'_def
    by (simp add: nth_list_update en_def)
  moreover have "\<forall>k m. map_get (so_attached st) k = Some m \<longrightarrow>
      m < length (so_entries st) \<and> en_object (so_entries st' ! m) = k \<and> entry_live st m"
    using ok n unfolding store_ok_def st'_def
    by (simp add: nth_list_update en_def)
  ultimately show ?thesis
    using ok n unfolding st' store_ok_def live_same by (simp add: st'_def)
qed

text \<open>Ending a publication: the entry is removed when its detach was deferred to this point.\<close>

lemma store_ok_publication_end:
  assumes ok: "store_ok st" and n: "n < length (so_entries st)"
    and en: "en_id en = en_id (so_entries st ! n)" "en_object en = en_object (so_entries st ! n)"
      "en_announced en = en_announced (so_entries st ! n)" "en_entered en = en_entered (so_entries st ! n)"
      "en_detach_requested en = en_detach_requested (so_entries st ! n)"
      "en_announcing en \<Longrightarrow> en_announcing (so_entries st ! n)"
      "en_appending en \<Longrightarrow> en_appending (so_entries st ! n)"
      "\<And>e. en_inflight en = Some e \<Longrightarrow> en_inflight (so_entries st ! n) = Some e \<and> en_appending en"
  shows "store_ok (if en_detach_requested en \<and> \<not> en_announcing en \<and> \<not> en_appending en
     then detach_entered (set_entry st n en) n else set_entry st n en)"
proof -
  have entry: "entry_ok st n" by (rule store_ok_entry [OF ok n])
  show ?thesis
  proof (cases "en_detach_requested en \<and> \<not> en_announcing en \<and> \<not> en_appending en")
    case True
    with entry en have live: "entry_live st n" and left: "\<not> en_entered en"
      by (auto simp: entry_ok_def Let_def)
    moreover have "en_inflight en = None" using en(8) True by (cases "en_inflight en") auto
    ultimately show ?thesis using True
      by (simp add: store_ok_remove [OF ok live en(1-3)])
  next
    case False
    have "entry_ok (set_entry st n en) n"
      using entry n False en unfolding entry_ok_def Let_def entry_live_set_entry [OF en(1)] by auto
    from store_ok_set_entry [OF ok n en(1,2) this] False show ?thesis by auto
  qed
qed

lemma store_ok_announce_end:
  assumes "store_ok st" and "n < length (so_entries st)"
  shows "store_ok (announce_end st n)"
proof -
  have "entry_ok st n" by (rule store_ok_entry [OF assms])
  then have "store_ok (let en = (so_entries st ! n)\<lparr>en_announcing := False\<rparr> in
      if en_detach_requested en \<and> \<not> en_announcing en \<and> \<not> en_appending en
      then detach_entered (set_entry st n en) n else set_entry st n en)"
    unfolding Let_def by (intro store_ok_publication_end assms) (auto simp: entry_ok_def Let_def)
  then show ?thesis by (simp add: announce_end_def Let_def)
qed

lemma store_ok_append_end:
  assumes "store_ok st" and "n < length (so_entries st)"
  shows "store_ok (append_end st n)"
proof -
  have "store_ok (let en = (so_entries st ! n)\<lparr>en_appending := False, en_inflight := None\<rparr> in
      if en_detach_requested en \<and> \<not> en_announcing en \<and> \<not> en_appending en
      then detach_entered (set_entry st n en) n else set_entry st n en)"
    unfolding Let_def by (intro store_ok_publication_end assms) auto
  then show ?thesis by (simp add: append_end_def Let_def)
qed

lemma append_event_header: "ss_header (fst (append_event s gate now d op sources)) = ss_header s"
  by (auto simp: append_event_def append_validate_def append_commit_def Let_def
      split: sum.splits prod.splits option.splits append_gate.splits)

lemma store_ok_append_begin:
  assumes ok: "store_ok st" and obj: "obj < length (so_objects st)"
  shows "store_ok (fst (append_begin st obj now d op sources))"
proof -
  define s where "s = so_objects st ! obj"
  have s: "session_ok s" using ok obj by (simp add: store_ok_def s_def)
  show ?thesis
  proof (cases "map_get (so_attached st) obj")
    case None
    have "store_ok (set_object st obj (fst (append_event s GateOpen now d op sources)))"
    proof (rule store_ok_set_object [OF ok append_event_ok [OF s]])
      fix m e
      assume m: "m < length (so_entries st)" "en_object (so_entries st ! m) = obj"
        "en_inflight (so_entries st ! m) = Some e"
      with store_ok_entry [OF ok m(1)] None
      show "pending_ok (fst (append_event s GateOpen now d op sources)) e"
        by (auto simp: entry_ok_def Let_def)
    qed (simp_all add: append_event_header s_def obj)
    then show ?thesis using None by (simp add: append_begin_def Let_def s_def [symmetric] case_prod_unfold)
  next
    case (Some n)
    with ok have n: "n < length (so_entries st)" and at: "en_object (so_entries st ! n) = obj"
      and live: "entry_live st n"
      unfolding store_ok_def by blast+
    define en where "en = so_entries st ! n"
    obtain s' r where v: "append_validate s (en_appending en) now d op sources = (s', r)" by (metis surj_pair)
    note valid = append_validate_cases [OF s v]
    have pend: "pending_ok s e \<Longrightarrow> pending_ok s' e" for e using valid by (simp add: pending_ok_def)
    have obj_ok: "store_ok (set_object st obj s')"
    proof (rule store_ok_set_object [OF ok])
      fix m e
      assume m: "m < length (so_entries st)" "en_object (so_entries st ! m) = obj"
        "en_inflight (so_entries st ! m) = Some e"
      with store_ok_entry [OF ok m(1)] have "pending_ok s e" by (simp add: entry_ok_def Let_def s_def)
      with pend show "pending_ok s' e" by blast
    qed (use valid obj in \<open>auto simp: s_def\<close>)
    show ?thesis
    proof (cases r)
      case (Inl err)
      with v Some obj_ok show ?thesis
        by (simp add: append_begin_def Let_def s_def [symmetric] en_def [symmetric])
    next
      case (Inr e)
      define en' where "en' = en\<lparr>en_appending := True, en_inflight := Some e\<rparr>"
      have eid: "en_id en' = en_id (so_entries (set_object st obj s') ! n)"
        by (simp add: en'_def en_def)
      have "entry_ok (set_object st obj s') n" using store_ok_entry [OF obj_ok] n by simp
      then have "entry_ok (set_entry (set_object st obj s') n en') n"
        using n at live obj valid Inr unfolding entry_ok_def Let_def entry_live_set_entry [OF eid]
        by (auto simp: en'_def en_def)
      then have "store_ok (set_entry (set_object st obj s') n en')"
        using n by (intro store_ok_set_entry obj_ok) (simp_all add: en'_def en_def)
      with v Some Inr show ?thesis
        by (simp add: append_begin_def Let_def s_def [symmetric] en_def [symmetric] en'_def)
    qed
  qed
qed

lemma store_ok_append_push:
  assumes ok: "store_ok st" and n: "n < length (so_entries st)"
  shows "store_ok (append_push st n)"
proof -
  define en where "en = so_entries st ! n"
  have entry: "entry_ok st n" by (rule store_ok_entry [OF ok n])
  show ?thesis
  proof (cases "en_inflight en")
    case None
    with ok show ?thesis by (simp add: append_push_def en_def Let_def)
  next
    case (Some e)
    define obj where "obj = en_object en"
    define s' where "s' = append_commit (so_objects st ! obj) e"
    from entry Some have live: "entry_live st n" and obj: "obj < length (so_objects st)"
      and pend: "pending_ok (so_objects st ! obj) e" and app: "en_appending en"
      by (auto simp: entry_ok_def Let_def en_def obj_def)
    from ok obj have "session_ok (so_objects st ! obj)" by (simp add: store_ok_def)
    from session_ok_commit [OF this pend] have s': "session_ok s'" by (simp add: s'_def)
    define st1 where "st1 = set_entry st n (en\<lparr>en_inflight := None\<rparr>)"
    have same: "en_id (en\<lparr>en_inflight := None\<rparr>) = en_id (so_entries st ! n)" by (simp add: en_def)
    have "entry_ok st1 n"
      using entry n unfolding st1_def entry_ok_def Let_def entry_live_set_entry [OF same] by (auto simp: en_def)
    then have st1: "store_ok st1"
      unfolding st1_def by (intro store_ok_set_entry ok n) (simp_all add: en_def)
    have st2: "store_ok (set_object st1 obj s')"
    proof (rule store_ok_set_object [OF st1 s'])
      fix m x
      assume m: "m < length (so_entries st1)" "en_object (so_entries st1 ! m) = obj"
        "en_inflight (so_entries st1 ! m) = Some x"
      then have "m \<noteq> n" using n by (auto simp: st1_def)
      with m have "m < length (so_entries st)" "en_object (so_entries st ! m) = en_object (so_entries st ! n)"
          "en_inflight (so_entries st ! m) = Some x"
        by (simp_all add: st1_def obj_def en_def)
      with entry_inflight_object [OF ok n _ _ live] \<open>m \<noteq> n\<close> show "pending_ok s' x" by blast
    qed (simp_all add: s'_def append_commit_def st1_def obj)
    define st3 where "st3 = (set_object st1 obj s')\<lparr>so_published := so_published st @ [Published n e]\<rparr>"
    have live3: "entry_live st3 m = entry_live (set_object st1 obj s') m" for m by (simp add: st3_def)
    have "entry_ok st3 m = entry_ok (set_object st1 obj s') m" for m
      unfolding entry_ok_def Let_def live3 by (simp add: st3_def st1_def)
    then have "entry_ok st3 m" if "m < length (so_entries st)" for m
      using store_ok_entry [OF st2, of m] that by (simp add: st1_def)
    moreover have "disposal_last (so_published st3)"
      using ok entry live by (simp add: st3_def store_ok_def disposal_last_snoc entry_ok_def Let_def)
    ultimately have "store_ok st3"
      using st2 n ok unfolding store_ok_def live3 by (simp add: st3_def st1_def)
    moreover have "append_push st n = st3"
      using Some by (simp add: append_push_def Let_def en_def [symmetric] st3_def st1_def obj_def s'_def
          set_entry_def set_object_def)
    ultimately show ?thesis by simp
  qed
qed

lemma store_exec_ok: "store_ok st \<Longrightarrow> store_ok (store_exec st op)"
  by (cases op)
    (simp_all add: store_ok_prepare store_ok_enter store_ok_detach store_ok_announce_begin
      store_ok_announce_end store_ok_append_begin store_ok_append_push store_ok_append_end)

lemma store_run_ok: "store_ok st \<Longrightarrow> store_ok (store_run st ops)"
  unfolding store_run_def by (induction ops arbitrary: st) (simp_all add: store_exec_ok)

subsection \<open>Properties\<close>

text \<open>
  C10. The session lifecycle: after any interleaving of preparing, entering, announcing,
  appending and detaching, also from inside a publication, every entry is created at most once
  and disposed at most once, disposed exactly when it was announced and is gone, nothing is
  published about it after its disposal, and an entry whose detach was requested while no
  publication of it runs is gone.
\<close>

theorem store_lifecycle:
  assumes "n < length (so_entries (store_run empty_store ops))"
  shows "(let st = store_run empty_store ops; en = so_entries st ! n in
    (Created n \<in> set (so_published st) \<longleftrightarrow> en_announced en) \<and>
    (Disposed n \<in> set (so_published st) \<longleftrightarrow> en_announced en \<and> \<not> entry_live st n) \<and>
    disposal_last (so_published st) \<and> distinct (filter lifecycle_edge (so_published st)) \<and>
    (en_entered en \<or> en_announcing en \<or> en_appending en \<or> \<not> entry_live st n))"
proof -
  have ok: "store_ok (store_run empty_store ops)" by (intro store_run_ok empty_store_ok)
  from store_ok_entry [OF this assms] ok show ?thesis
    by (auto simp: entry_ok_def store_ok_def Let_def)
qed

text \<open>A session announced while its own listener detaches it, and one that stays.\<close>

definition sample_ops :: "store_op list" where
  "sample_ops =
     [OpPrepare (Some ''a'') (CreateOptions None empty_meta) 1, OpEnter 0, OpAnnounceBegin 0,
      OpDetach 0, OpAppendBegin 0 2 (TurnStart 1) None None, OpAppendPush 0, OpAppendEnd 0,
      OpAnnounceEnd 0,
      OpPrepare None (CreateOptions None empty_meta) 1, OpEnter 1, OpAnnounceBegin 1, OpAnnounceEnd 1]"

lemma store_lifecycle_witness:
  "Disposed 0 \<in> set (so_published (store_run empty_store sample_ops)) \<and>
   Disposed 1 \<notin> set (so_published (store_run empty_store sample_ops))"
proof -
  have len: "length (so_entries (store_run empty_store sample_ops)) = 2" by code_simp
  have "en_announced (so_entries (store_run empty_store sample_ops) ! 0)"
      "\<not> entry_live (store_run empty_store sample_ops) 0"
      "entry_live (store_run empty_store sample_ops) 1"
    by code_simp+
  with store_lifecycle [of 0 sample_ops] store_lifecycle [of 1 sample_ops] show ?thesis
    by (simp add: len Let_def)
qed

text \<open>
  C11. One id, one live session. After any interleaving of operations the stored ids and the
  attached session objects correspond one to one through the live entries: a stored id leads to
  an entry of that id whose object is attached as this entry, and an attached object leads to an
  entry of its own, stored under the id in the object's header. So looking up an id finds
  exactly the attached object with that id, and every session object, live or not, keeps a log
  the complete surface fold accepts.
\<close>

theorem store_identity:
  "let st = store_run empty_store ops in
   (\<forall>i n. map_get (so_store st) i = Some n \<longrightarrow>
      n < length (so_entries st) \<and> en_id (so_entries st ! n) = i \<and>
      map_get (so_attached st) (en_object (so_entries st ! n)) = Some n) \<and>
   (\<forall>obj n. map_get (so_attached st) obj = Some n \<longrightarrow>
      n < length (so_entries st) \<and> en_object (so_entries st ! n) = obj \<and> obj < length (so_objects st) \<and>
      map_get (so_store st) (sh_id (ss_header (so_objects st ! obj))) = Some n) \<and>
   (\<forall>i obj. store_lookup st i = Some obj \<longleftrightarrow>
      map_has (so_attached st) obj \<and> sh_id (ss_header (so_objects st ! obj)) = i) \<and>
   (\<forall>obj < length (so_objects st). is_ok (fold_surface (ss_log (so_objects st ! obj))))"
proof -
  define st where "st = store_run empty_store ops"
  have ok: "store_ok st" unfolding st_def by (intro store_run_ok empty_store_ok)
  have by_id: "n < length (so_entries st) \<and> en_id (so_entries st ! n) = i \<and>
      map_get (so_attached st) (en_object (so_entries st ! n)) = Some n"
    if stored: "map_get (so_store st) i = Some n" for i n
  proof -
    from ok stored have n: "n < length (so_entries st)" "en_id (so_entries st ! n) = i"
      unfolding store_ok_def by blast+
    with stored have "entry_live st n" by (simp add: entry_live_def)
    with n store_ok_entry [OF ok n(1)] show ?thesis by (simp add: entry_ok_def Let_def)
  qed
  have by_object: "n < length (so_entries st) \<and> en_object (so_entries st ! n) = obj \<and>
      obj < length (so_objects st) \<and> map_get (so_store st) (sh_id (ss_header (so_objects st ! obj))) = Some n"
    if attached: "map_get (so_attached st) obj = Some n" for obj n
  proof -
    from ok attached have n: "n < length (so_entries st)" "en_object (so_entries st ! n) = obj" "entry_live st n"
      unfolding store_ok_def by blast+
    with store_ok_entry [OF ok n(1)] show ?thesis by (simp add: entry_ok_def entry_live_def Let_def)
  qed
  have "store_lookup st i = Some obj \<longleftrightarrow>
      map_has (so_attached st) obj \<and> sh_id (ss_header (so_objects st ! obj)) = i" for i obj
  proof
    assume "store_lookup st i = Some obj"
    then obtain n where n: "map_get (so_store st) i = Some n" "en_object (so_entries st ! n) = obj"
      by (auto simp: store_lookup_def)
    with by_id [of i n] store_ok_entry [OF ok, of n]
    show "map_has (so_attached st) obj \<and> sh_id (ss_header (so_objects st ! obj)) = i"
      by (auto simp: entry_ok_def Let_def)
  next
    assume "map_has (so_attached st) obj \<and> sh_id (ss_header (so_objects st ! obj)) = i"
    then show "store_lookup st i = Some obj" using by_object [of obj] by (auto simp: store_lookup_def)
  qed
  moreover have "is_ok (fold_surface (ss_log (so_objects st ! obj)))" if "obj < length (so_objects st)" for obj
  proof -
    from ok that have "session_ok (so_objects st ! obj)" by (simp add: store_ok_def)
    from session_ok_hist [OF this] show ?thesis by (auto simp: fold_surface_replay)
  qed
  ultimately show ?thesis using by_id by_object unfolding st_def [symmetric] Let_def by blast
qed

lemma store_identity_witness:
  "map_get (so_attached (store_run empty_store sample_ops))
     (en_object (so_entries (store_run empty_store sample_ops) ! 1)) = Some 1"
proof -
  have "map_get (so_store (store_run empty_store sample_ops))
      (en_id (so_entries (store_run empty_store sample_ops) ! 1)) = Some 1"
    by code_simp
  with store_identity [of sample_ops] show ?thesis by (simp add: Let_def)
qed

subsection \<open>Fresh ids, rollback and forks\<close>

lemma free_id_None:
  "free_id fuel counter m = None \<Longrightarrow>
     \<forall>k \<in> {counter<..counter + fuel}. map_has m (''session-'' @ show_nat k)"
proof (induction fuel counter m rule: free_id.induct)
  case (2 fuel counter m)
  from "2.prems" have now: "map_has m (''session-'' @ show_nat (Suc counter))"
      and rest: "free_id fuel (Suc counter) m = None"
    by (auto simp: Let_def split: if_splits)
  show ?case
  proof
    fix k assume "k \<in> {counter<..counter + Suc fuel}"
    then have "k = Suc counter \<or> k \<in> {Suc counter<..Suc counter + fuel}" by auto
    with "2.IH" [OF refl now rest] now show "map_has m (''session-'' @ show_nat k)" by blast
  qed
qed simp

lemma free_id_Some:
  "free_id fuel counter m = Some (c, i) \<Longrightarrow>
     counter < c \<and> c \<le> counter + fuel \<and> i = ''session-'' @ show_nat c \<and> map_get m i = None"
  by (induction fuel counter m rule: free_id.induct) (fastforce simp: Let_def split: if_splits)+

text \<open>
  C13. Choosing an id ends: among one more candidates than there are live sessions one is free,
  so the loop over the counter finds an unused id and advances the counter.
\<close>

theorem free_id_terminates:
  "\<exists>c i. free_id (Suc (length m)) counter m = Some (c, i) \<and> counter < c \<and> map_get m i = None"
proof (cases "free_id (Suc (length m)) counter m")
  case None
  let ?names = "(\<lambda>k. ''session-'' @ show_nat k) ` {counter<..counter + Suc (length m)}"
  have "inj_on (\<lambda>k. ''session-'' @ show_nat k) {counter<..counter + Suc (length m)}"
    by (auto intro!: inj_onI dest: show_nat_inj)
  then have "card ?names = Suc (length m)" by (simp add: card_image)
  moreover have "?names \<subseteq> set (map fst m)"
    using free_id_None [OF None] by (force simp: map_of_eq_None_iff)
  then have "card ?names \<le> card (set (map fst m))" by (intro card_mono) auto
  moreover have "card (set (map fst m)) \<le> length m" using card_length [of "map fst m"] by simp
  ultimately show ?thesis by simp
qed (use free_id_Some in \<open>fastforce\<close>)

lemma detach_entry:
  assumes "n < length (so_entries st)"
  shows "\<not> en_entered (so_entries (detach st n) ! n)"
    and "en_announcing (so_entries (detach st n) ! n) = en_announcing (so_entries st ! n)"
    and "length (so_entries (detach st n)) = length (so_entries st)"
  using assms by (auto simp: detach_def detach_entered_def Let_def)

lemma announce_end_entry:
  assumes "n < length (so_entries st)"
  shows "\<not> en_announcing (so_entries (announce_end st n) ! n)"
    and "length (so_entries (announce_end st n)) = length (so_entries st)"
  using assms by (auto simp: announce_end_def detach_entered_def Let_def)

lemma append_begin_length:
  "length (so_entries (fst (append_begin st obj now d op sources))) = length (so_entries st)"
  by (simp add: append_begin_def Let_def case_prod_unfold split: option.split sum.split)

lemma store_exec_length: "length (so_entries st) \<le> length (so_entries (store_exec st op))"
proof (cases op)
  case (OpPrepare request options now)
  then show ?thesis by (cases rule: prepare_cases [of st request options now]) simp_all
next
  case (OpAppendBegin obj now d op sources)
  then show ?thesis by (simp add: append_begin_length)
qed (auto simp: enter_def detach_entry announce_begin_def announce_end_entry append_push_def append_end_def
    detach_entered_def Let_def split: sum.splits option.splits)

lemma store_run_length: "length (so_entries st) \<le> length (so_entries (store_run st ops))"
  unfolding store_run_def
  by (induction ops arbitrary: st) (simp, simp, meson le_trans store_exec_length)

lemma announce_begin_length: "length (so_entries (fst (announce_begin st obj))) = length (so_entries st)"
  by (auto simp: announce_begin_def Let_def split: sum.splits)

text \<open>
  C12. Creation rolls back: when a listener of the creation throws, \<open>create\<close> throws, and whatever
  the listeners did the new entry is gone and its announced creation has been paired with a
  disposal, unless an append of it is still being published, which then removes it at its end.
\<close>

theorem create_rollback:
  assumes "create_session (store_run empty_store ops) request options now listeners True = (st', r)"
    and "n = length (so_entries (store_run empty_store ops))" and "n < length (so_entries st')"
  shows "\<not> is_ok r \<and>
    (en_appending (so_entries st' ! n) \<or>
     \<not> entry_live st' n \<and> (Created n \<in> set (so_published st') \<longrightarrow> Disposed n \<in> set (so_published st')))"
proof -
  define st where "st = store_run empty_store ops"
  have ok: "store_ok st" unfolding st_def by (intro store_run_ok empty_store_ok)
  obtain st1 obj where prep: "prepare st request options now = (st1, Inr obj)"
      and "length (so_entries st1) = n" and obj: "obj < length (so_objects st1)"
    using assms unfolding st_def [symmetric]
    by (cases rule: prepare_cases [of st request options now]) (auto simp: create_session_def)
  moreover have ok1: "store_ok st1" using store_ok_prepare [OF ok, of request options now] prep by simp
  ultimately obtain st2 where enter: "enter st1 obj = (st2, Inr n)" and len2: "length (so_entries st2) = Suc n"
      and flags: "en_announcing (so_entries st2 ! n) = False"
    using assms unfolding st_def [symmetric]
    by (auto simp: create_session_def enter_def Let_def nth_append split: if_splits)
  have ok2: "store_ok st2" using store_ok_enter [OF ok1 obj] enter by simp
  have fin: "\<exists>st4. store_ok st4 \<and> n < length (so_entries st4) \<and> \<not> en_announcing (so_entries st4 ! n) \<and>
      st' = detach st4 n \<and> \<not> is_ok r"
  proof (cases "announce_begin st2 obj")
    case (Pair st3 a)
    have ok3: "store_ok st3" and len3: "length (so_entries st3) = Suc n"
      using store_ok_announce_begin [OF ok2, of obj] announce_begin_length [of st2 obj] Pair len2 by simp_all
    show ?thesis
    proof (cases a)
      case (Inl err)
      then have "st3 = st2" using Pair by (auto simp: announce_begin_def Let_def split: sum.splits if_splits)
      with Inl Pair assms(1) prep enter ok2 len2 flags show ?thesis
        by (auto simp: create_session_def st_def [symmetric])
    next
      case (Inr _)
      define st4 where "st4 = announce_end (store_run st3 listeners) n"
      have lenr: "n < length (so_entries (store_run st3 listeners))"
        using store_run_length [of st3 listeners] len3 by simp
      have "store_ok st4" unfolding st4_def by (intro store_ok_announce_end store_run_ok ok3 lenr)
      moreover have "n < length (so_entries st4)" "\<not> en_announcing (so_entries st4 ! n)"
        unfolding st4_def using announce_end_entry [OF lenr] lenr by simp_all
      moreover have "st' = detach st4 n" "\<not> is_ok r"
        using Inr Pair assms(1) prep enter by (auto simp: create_session_def st_def [symmetric] st4_def Let_def)
      ultimately show ?thesis by blast
    qed
  qed
  then obtain st4 where st4: "store_ok st4" "n < length (so_entries st4)"
      "\<not> en_announcing (so_entries st4 ! n)" and st': "st' = detach st4 n" and r: "\<not> is_ok r" by blast
  have "entry_ok st' n" unfolding st'
    using store_ok_entry [OF store_ok_detach [OF st4(1,2)]] detach_entry(3) [OF st4(2)] st4(2) by simp
  moreover have "\<not> en_entered (so_entries st' ! n)" "\<not> en_announcing (so_entries st' ! n)"
    unfolding st' using detach_entry [OF st4(2)] st4(3) by simp_all
  ultimately show ?thesis using r by (auto simp: entry_ok_def Let_def)
qed

lemma create_rollback_witness:
  "\<exists>st' r. create_session (store_run empty_store []) (Some ''a'') (CreateOptions None empty_meta) 1 [OpDetach 0] True
      = (st', r) \<and> \<not> entry_live st' 0 \<and> \<not> is_ok r"
proof -
  obtain st' r where run: "create_session (store_run empty_store []) (Some ''a'') (CreateOptions None empty_meta) 1
      [OpDetach 0] True = (st', r)" by (metis surj_pair)
  have "length (so_entries (fst (create_session (store_run empty_store []) (Some ''a'')
      (CreateOptions None empty_meta) 1 [OpDetach 0] True))) = 1"
    "\<not> en_appending (so_entries (fst (create_session (store_run empty_store []) (Some ''a'')
      (CreateOptions None empty_meta) 1 [OpDetach 0] True)) ! 0)"
    "length (so_entries (store_run empty_store [])) = 0"
    by code_simp+
  then have "length (so_entries (store_run empty_store [])) = 0" "length (so_entries st') = 1"
      "\<not> en_appending (so_entries st' ! 0)"
    unfolding run by simp_all
  with create_rollback [OF run, of 0] run show ?thesis by simp
qed

text \<open>The last turn boundary is the last turn mark.\<close>

lemma last_turn_boundary_open:
  assumes "turn_marks es \<noteq> []" and "last (turn_marks es) = (True, t)"
  shows "last_turn_boundary found es = Some (TurnStart t)"
  using assms
proof (induction found es rule: last_turn_boundary.induct)
  case (2 found e es)
  show ?case
  proof (cases "turn_marks es = []")
    case True
    have none: "last_turn_boundary f es = f" if "turn_marks es = []" for f
      using that by (induction f es rule: last_turn_boundary.induct) (auto split: event_data.splits)
    from 2(2,3) True show ?thesis by (auto simp: none split: event_data.splits)
  next
    case False
    with 2(2,3) have "last (turn_marks es) = (True, t)" by (auto split: event_data.splits)
    with "2.IH" False show ?thesis by simp
  qed
qed simp

lemma fork_seed_Inr:
  assumes "fork_seed log boundary = Inr seed"
  shows "\<exists>k. seed = take k log \<and>
    (case last_turn_boundary None seed of Some (TurnStart _) \<Rightarrow> False | _ \<Rightarrow> True) \<and>
    (\<forall>b. boundary = Some b \<longrightarrow> 0 \<le> b \<and> b < int (length log) \<and> k = nat b + 1)"
proof (cases "boundary = None \<and> array_last log = None")
  case True
  with assms have "seed = take 0 log" by (simp add: fork_seed_def)
  with True show ?thesis by (intro exI [of _ 0]) simp
next
  case False
  then obtain b where "\<forall>b'. boundary = Some b' \<longrightarrow> b' = b"
    and "(let boundary = b in
           throw_if (\<not> is_event_seq boundary) ForkBoundary
           (throw_if (int (length log) \<le> boundary) ForkBoundary
           (case array_at log boundary of
              None \<Rightarrow> Inl ForkBoundary
            | Some e \<Rightarrow>
                throw_if (ev_seq e \<noteq> boundary) ForkBoundary
                (throw_if (case last_turn_boundary None (take (nat boundary + 1) log) of
                     Some (TurnStart _) \<Rightarrow> True | _ \<Rightarrow> False) ForkOpenTurn
                (Inr (take (nat boundary + 1) log)))))) = Inr seed"
    using assms by (cases boundary; cases "array_last log") (auto simp: fork_seed_def Let_def)
  then have "is_event_seq b" "b < int (length log)" "seed = take (nat b + 1) log"
      "\<not> (case last_turn_boundary None (take (nat b + 1) log) of Some (TurnStart _) \<Rightarrow> True | _ \<Rightarrow> False)"
    by (cases "array_at log b"; simp add: result_simps Let_def)+
  moreover have "(case x of Some (TurnStart _) \<Rightarrow> False | _ \<Rightarrow> True) \<longleftrightarrow>
      \<not> (case x of Some (TurnStart _) \<Rightarrow> True | _ \<Rightarrow> False)" for x :: "event_data option"
    by (cases x) (simp_all split: event_data.split)
  ultimately show ?thesis
    using \<open>\<forall>b'. boundary = Some b' \<longrightarrow> b' = b\<close>
    by (intro exI [of _ "nat b + 1"]) (auto simp: is_event_seq_def)
qed

text \<open>
  C14. A fork never splits a turn: of a log the trace accepts, the seed of a fork is the prefix
  that ends with the boundary event, is itself accepted by trace and surface fold, and has no
  open turn.
\<close>

theorem fork_seed_closed:
  assumes "seed_session log = Inr tr" and "fold_surface log = Inr r" and "fork_seed log boundary = Inr seed"
  shows "(\<exists>k. seed = take k log \<and> (\<forall>b. boundary = Some b \<longrightarrow> k = nat b + 1)) \<and>
    (\<exists>tr'. seed_session seed = Inr tr' \<and> tr_open_turn tr' = None) \<and>
    is_ok (fold_surface seed)"
proof -
  from fork_seed_Inr [OF assms(3)] obtain k where k: "seed = take k log"
      "\<forall>b. boundary = Some b \<longrightarrow> k = nat b + 1"
      and closed: "case last_turn_boundary None seed of Some (TurnStart _) \<Rightarrow> False | _ \<Rightarrow> True" by blast
  from session_trace.take_accepted [OF assms(1) [unfolded seed_session_def], of k]
  obtain tr' where tr': "seed_session seed = Inr tr'" and hist: "trace_hist seed tr'"
    by (auto simp: k seed_session_def)
  have "tr_open_turn tr' = None"
  proof (rule ccontr)
    assume "tr_open_turn tr' \<noteq> None"
    then obtain t where "tr_open_turn tr' = Some t" by blast
    with hist have "turn_marks seed = closed_turns (tr_next_turn tr' - 1) @ [(True, t)]"
      by (simp add: trace_hist_def)
    then have "last_turn_boundary None seed = Some (TurnStart t)"
      by (intro last_turn_boundary_open) simp_all
    with closed show False by simp
  qed
  moreover from assms(2) obtain run where "foldR (surface_log_step 0) surface_start log = Inr run"
    by (auto simp: fold_surface_replay result_simps)
  from surface_run.take_accepted [OF this, of k] have "is_ok (fold_surface seed)"
    by (auto simp: k fold_surface_replay)
  ultimately show ?thesis using k tr' by blast
qed

lemma fork_seed_closed_witness: "\<exists>tr'. seed_session (take 7 sample_turn) = Inr tr' \<and> tr_open_turn tr' = None"
proof -
  have surf: "is_ok (fold_surface sample_turn)" by code_simp
  then obtain r where r: "fold_surface sample_turn = Inr r" by (auto simp: is_ok_iff)
  have "fork_seed sample_turn (Some 6) = Inr (take 7 sample_turn)" by code_simp
  from fork_seed_closed [OF sample_turn_trace r this] show ?thesis by blast
qed

end
