(* ===== verification/GoalFold.thy ===== *)
theory GoalFold
  imports JsText SessionStore
begin

text \<open>
  Durable goals (\<open>packages/goal/goal/src/fold.ts\<close>, \<open>domain.ts\<close>, \<open>types.ts\<close>): the strict decoder
  of \<open>goal/change\<close> payloads, the validated transitions of a goal, and the fold of a session log.
  The payload is JSON, as stored; an encoder gives the value the service writes.
\<close>

subsection \<open>Goal data\<close>

datatype goal_phase = GoalActive | GoalPaused | GoalBlocked | GoalComplete

datatype goal_operation = OpCreate | OpEdit | OpPause | OpResume | OpComplete | OpBlock

record goal_ref =
  gr_id :: string
  gr_revision :: int

record block_reason =
  br_code :: string
  br_message :: string

record goal_snapshot =
  gs_id :: string
  gs_revision :: int
  gs_objective :: string
  gs_phase :: goal_phase
  gs_blocked :: "block_reason option"
  gs_max_rounds :: int

record goal_snapshot_change =
  gc_operation :: goal_operation
  gc_goal :: goal_snapshot
  gc_rounds :: int
  gc_created_at :: int
  gc_updated_at :: int

datatype goal_change =
    GoalSnapshotChange goal_snapshot_change
  | GoalClear goal_ref int

record goal_source =
  go_goal :: string
  go_revision :: int
  go_round :: int

record goal_fold_state =
  gf_goal :: "goal_snapshot option"
  gf_rounds :: int
  gf_created :: "int option"
  gf_updated :: "int option"
  gf_last_ref :: "goal_ref option"
  gf_seen :: "string set"

definition empty_goal_fold_state :: goal_fold_state where
  "empty_goal_fold_state = \<lparr>gf_goal = None, gf_rounds = 0, gf_created = None, gf_updated = None,
     gf_last_ref = None, gf_seen = {}\<rparr>"

fun phase_name :: "goal_phase \<Rightarrow> string" where
  "phase_name GoalActive = ''active''"
| "phase_name GoalPaused = ''paused''"
| "phase_name GoalBlocked = ''blocked''"
| "phase_name GoalComplete = ''complete''"

definition phase_of_name :: "string \<Rightarrow> goal_phase option" where
  "phase_of_name s =
     find (\<lambda>p. phase_name p = s) [GoalActive, GoalPaused, GoalBlocked, GoalComplete]"

fun operation_name :: "goal_operation \<Rightarrow> string" where
  "operation_name OpCreate = ''create''"
| "operation_name OpEdit = ''edit''"
| "operation_name OpPause = ''pause''"
| "operation_name OpResume = ''resume''"
| "operation_name OpComplete = ''complete''"
| "operation_name OpBlock = ''block''"

definition operation_of_name :: "string \<Rightarrow> goal_operation option" where
  "operation_of_name s =
     find (\<lambda>p. operation_name p = s) [OpCreate, OpEdit, OpPause, OpResume, OpComplete, OpBlock]"

subsection \<open>Decoding\<close>

definition positive_integer :: "json option \<Rightarrow> (js_error, int) result" where
  "positive_integer v =
     (case v of
        Some (JInt n) \<Rightarrow>
          throw_if (\<not> is_safe n \<or> n < 1) (JsError ''goal change field must be a positive safe integer'') (Inr n)
      | _ \<Rightarrow> Inl (JsError ''goal change field must be a positive safe integer''))"

definition non_negative_integer :: "json option \<Rightarrow> (js_error, int) result" where
  "non_negative_integer v =
     (case v of
        Some (JInt n) \<Rightarrow>
          throw_if (\<not> is_safe n \<or> n < 0) (JsError ''goal change field must be a non-negative safe integer'') (Inr n)
      | _ \<Rightarrow> Inl (JsError ''goal change field must be a non-negative safe integer''))"

definition normalized :: "string \<Rightarrow> bool" where
  "normalized s \<longleftrightarrow> trim s \<noteq> [] \<and> trim s = s"

definition decode_block_reason :: "json option \<Rightarrow> (js_error, block_reason) result" where
  "decode_block_reason v =
     (case v of
        Some (JObj fs) \<Rightarrow>
          throw_if (sorted_keys fs \<noteq> ''code,message'')
            (JsError ''goal change goal.blockedReason must have exactly code and message fields'')
          (case map_get fs ''code'' of
             Some (JStr code) \<Rightarrow>
               throw_if (\<not> is_kebab code) (JsError ''goal change goal.blockedReason.code must be lower-kebab-case'')
               (case map_get fs ''message'' of
                  Some (JStr msg) \<Rightarrow>
                    throw_if (\<not> normalized msg)
                      (JsError ''goal change goal.blockedReason.message must be non-empty and normalized'')
                    (Inr \<lparr>br_code = code, br_message = msg\<rparr>)
                | _ \<Rightarrow> Inl (JsError ''goal change goal.blockedReason.message must be non-empty and normalized''))
           | _ \<Rightarrow> Inl (JsError ''goal change goal.blockedReason.code must be lower-kebab-case''))
      | _ \<Rightarrow> Inl (JsError ''goal change goal.blockedReason must have exactly code and message fields''))"

definition expected_keys :: "goal_phase \<Rightarrow> string" where
  "expected_keys p =
     (if p = GoalBlocked then ''blockedReason,id,maxGoalRounds,objective,phase,revision''
      else ''id,maxGoalRounds,objective,phase,revision'')"

definition decode_goal_snapshot :: "json option \<Rightarrow> (js_error, goal_snapshot) result" where
  "decode_goal_snapshot v =
     (case v of
        Some (JObj fs) \<Rightarrow>
          (case map_get fs ''id'' of
             Some (JStr i) \<Rightarrow>
               throw_if (i = []) (JsError ''goal change goal.id must be a non-empty string'')
               (case map_get fs ''objective'' of
                  Some (JStr objective) \<Rightarrow>
                    throw_if (\<not> normalized objective)
                      (JsError ''goal change goal.objective must be non-empty and normalized'')
                    (case Option.bind (map_get fs ''phase'') (\<lambda>j. case j of JStr p \<Rightarrow> phase_of_name p | _ \<Rightarrow> None) of
                       None \<Rightarrow> Inl (JsError ''goal change goal.phase is invalid'')
                     | Some phase \<Rightarrow>
                         throw_if (sorted_keys fs \<noteq> expected_keys phase)
                           (JsError ''goal change goal must have exactly the fields of its phase'')
                         (bindR (positive_integer (map_get fs ''revision'')) (\<lambda>revision.
                          bindR (positive_integer (map_get fs ''maxGoalRounds'')) (\<lambda>rounds.
                          bindR (if phase = GoalBlocked
                                 then bindR (decode_block_reason (map_get fs ''blockedReason'')) (\<lambda>r. Inr (Some r))
                                 else Inr None) (\<lambda>blocked.
                          Inr \<lparr>gs_id = i, gs_revision = revision, gs_objective = objective, gs_phase = phase,
                               gs_blocked = blocked, gs_max_rounds = rounds\<rparr>)))))
                | _ \<Rightarrow> Inl (JsError ''goal change goal.objective must be non-empty and normalized''))
           | _ \<Rightarrow> Inl (JsError ''goal change goal.id must be a non-empty string''))
      | _ \<Rightarrow> Inl (JsError ''goal change goal must be a record''))"

definition decode_goal_ref :: "json option \<Rightarrow> (js_error, goal_ref) result" where
  "decode_goal_ref v =
     (case v of
        Some (JObj fs) \<Rightarrow>
          throw_if (sorted_keys fs \<noteq> ''id,revision'')
            (JsError ''goal clear tombstone must have exactly id and revision fields'')
          (case map_get fs ''id'' of
             Some (JStr i) \<Rightarrow>
               throw_if (i = []) (JsError ''goal clear tombstone id must be a non-empty string'')
               (bindR (positive_integer (map_get fs ''revision'')) (\<lambda>revision.
                Inr \<lparr>gr_id = i, gr_revision = revision\<rparr>))
           | _ \<Rightarrow> Inl (JsError ''goal clear tombstone id must be a non-empty string''))
      | _ \<Rightarrow> Inl (JsError ''goal clear tombstone must have exactly id and revision fields''))"

definition decode_goal_change :: "json \<Rightarrow> (js_error, goal_change option) result" where
  "decode_goal_change v =
     (case v of
        JObj fs \<Rightarrow>
          if map_get fs ''kind'' \<noteq> Some (JStr ''goal/change'') then Inr None
          else
            throw_if (map_get fs ''version'' \<noteq> Some (JInt 1)) (JsError ''unsupported goal change version'')
            (if map_get fs ''operation'' = Some (JStr ''clear'') then
               throw_if (sorted_keys fs \<noteq> ''cleared,clearedAt,kind,operation,version'')
                 (JsError ''goal clear change must have exactly its fields'')
               (bindR (decode_goal_ref (map_get fs ''cleared'')) (\<lambda>ref.
                bindR (non_negative_integer (map_get fs ''clearedAt'')) (\<lambda>t.
                Inr (Some (GoalClear ref t)))))
             else
               (case Option.bind (map_get fs ''operation'') (\<lambda>j. case j of JStr p \<Rightarrow> operation_of_name p | _ \<Rightarrow> None) of
                  None \<Rightarrow> Inl (JsError ''goal change operation is invalid'')
                | Some operation \<Rightarrow>
                    throw_if (sorted_keys fs \<noteq> ''createdAt,goal,kind,operation,roundsStarted,updatedAt,version'')
                      (JsError ''goal snapshot change must have exactly its fields'')
                    (bindR (non_negative_integer (map_get fs ''createdAt'')) (\<lambda>created.
                     bindR (non_negative_integer (map_get fs ''updatedAt'')) (\<lambda>updated.
                     throw_if (updated < created) (JsError ''goal change updatedAt cannot precede createdAt'')
                     (bindR (decode_goal_snapshot (map_get fs ''goal'')) (\<lambda>goal.
                      bindR (non_negative_integer (map_get fs ''roundsStarted'')) (\<lambda>rounds.
                      Inr (Some (GoalSnapshotChange
                        \<lparr>gc_operation = operation, gc_goal = goal, gc_rounds = rounds,
                         gc_created_at = created, gc_updated_at = updated\<rparr>)))))))))
             )
      | _ \<Rightarrow> Inr None)"

text \<open>The source of an admitted round; any other kind of source is not a goal's.\<close>

definition decode_goal_source :: "message_source \<Rightarrow> (js_error, goal_source option) result" where
  "decode_goal_source s =
     (case s of
        OtherSource j \<Rightarrow>
          if json_get j ''kind'' \<noteq> Some (JStr ''goal'') then Inr None
          else
            (case (json_get j ''goalId'', json_get j ''revision'', json_get j ''round'') of
               (Some (JStr i), Some (JInt revision), Some (JInt round)) \<Rightarrow>
                 throw_if (i = [] \<or> \<not> is_safe revision \<or> revision < 1 \<or> \<not> is_safe round \<or> round < 1)
                   (JsError ''goal message source is invalid'')
                 (Inr (Some \<lparr>go_goal = i, go_revision = revision, go_round = round\<rparr>))
             | _ \<Rightarrow> Inl (JsError ''goal message source is invalid''))
      | _ \<Rightarrow> Inr None)"

subsection \<open>Transitions\<close>

definition require_same_definition ::
    "goal_snapshot \<Rightarrow> goal_snapshot \<Rightarrow> (js_error, 'a) result \<Rightarrow> (js_error, 'a) result" where
  "require_same_definition current nxt k =
     throw_if (gs_objective nxt \<noteq> gs_objective current \<or> gs_max_rounds nxt \<noteq> gs_max_rounds current)
       (JsError ''goal operation cannot change objective or maxGoalRounds'') k"

definition require_next_revision ::
    "goal_snapshot \<Rightarrow> goal_ref \<Rightarrow> (js_error, 'a) result \<Rightarrow> (js_error, 'a) result" where
  "require_next_revision current nxt k =
     throw_if (gr_id nxt \<noteq> gs_id current \<or> gr_revision nxt \<noteq> gs_revision current + 1)
       (JsError ''goal operation must advance the current goal by one revision'') k"

definition snapshot_ref :: "goal_snapshot \<Rightarrow> goal_ref" where
  "snapshot_ref g = \<lparr>gr_id = gs_id g, gr_revision = gs_revision g\<rparr>"

definition validate_snapshot_transition ::
    "goal_fold_state \<Rightarrow> goal_snapshot_change \<Rightarrow> goal_snapshot \<Rightarrow> (js_error, unit) result" where
  "validate_snapshot_transition st c current =
     (let nxt = gc_goal c in
      require_next_revision current (snapshot_ref nxt)
      (case gf_updated st of
         None \<Rightarrow> Inl (JsError ''current goal fold lacks updatedAt'')
       | Some updated \<Rightarrow>
           throw_if (Some (gc_created_at c) \<noteq> gf_created st \<or> gc_updated_at c < updated \<or> gc_rounds c \<noteq> gf_rounds st)
             (JsError ''goal operation does not preserve the current counters and timestamps'')
           (case gc_operation c of
              OpEdit \<Rightarrow>
                throw_if (gs_phase nxt \<noteq> gs_phase current \<or> gs_blocked nxt \<noteq> gs_blocked current)
                  (JsError ''goal edit cannot change phase or blocked reason'') (Inr ())
            | OpPause \<Rightarrow>
                require_same_definition current nxt
                (throw_if (gs_phase current \<noteq> GoalActive \<or> gs_phase nxt \<noteq> GoalPaused)
                  (JsError ''goal pause has an invalid phase transition'') (Inr ()))
            | OpResume \<Rightarrow>
                require_same_definition current nxt
                (throw_if (\<not> List.member [GoalActive, GoalPaused, GoalBlocked] (gs_phase current) \<or>
                    gs_phase nxt \<noteq> GoalActive \<or> gs_max_rounds nxt \<le> gf_rounds st)
                  (JsError ''goal resume has an invalid phase transition or exhausted round budget'') (Inr ()))
            | OpComplete \<Rightarrow>
                require_same_definition current nxt
                (throw_if (gs_phase current = GoalComplete \<or> gs_phase nxt \<noteq> GoalComplete)
                  (JsError ''goal complete has an invalid phase transition'') (Inr ()))
            | OpBlock \<Rightarrow>
                require_same_definition current nxt
                (throw_if (gs_phase current \<noteq> GoalActive \<or> gs_phase nxt \<noteq> GoalBlocked)
                  (JsError ''goal block has an invalid phase transition'') (Inr ()))
            | OpCreate \<Rightarrow> Inl (JsError ''goal create cannot be validated as a current-goal transition''))))"

fun goal_change_ref :: "goal_change \<Rightarrow> goal_ref" where
  "goal_change_ref (GoalClear ref _) = ref"
| "goal_change_ref (GoalSnapshotChange c) = snapshot_ref (gc_goal c)"

definition apply_goal_change :: "goal_fold_state \<Rightarrow> goal_change \<Rightarrow> (js_error, goal_fold_state) result" where
  "apply_goal_change st change =
     (case change of
        GoalClear cleared cleared_at \<Rightarrow>
          (case gf_goal st of
             None \<Rightarrow> Inl (JsError ''goal clear requires a current goal'')
           | Some current \<Rightarrow>
               require_next_revision current cleared
               (case gf_updated st of
                  None \<Rightarrow> Inl (JsError ''current goal fold lacks updatedAt'')
                | Some updated \<Rightarrow>
                    throw_if (cleared_at < updated)
                      (JsError ''goal clear timestamp cannot precede the current goal update'')
                    (Inr (st\<lparr>gf_goal := None, gf_rounds := 0, gf_created := None, gf_updated := None,
                             gf_last_ref := Some cleared\<rparr>))))
      | GoalSnapshotChange c \<Rightarrow>
          bindR (if gc_operation c = OpCreate then
                   throw_if (gs_revision (gc_goal c) \<noteq> 1 \<or> gs_phase (gc_goal c) \<noteq> GoalActive \<or> gc_rounds c \<noteq> 0 \<or>
                       (case gf_goal st of None \<Rightarrow> False | Some g \<Rightarrow> gs_phase g \<noteq> GoalComplete) \<or>
                       gs_id (gc_goal c) \<in> gf_seen st)
                     (JsError ''goal create requires a fresh active revision-one goal with zero rounds'')
                   (Inr (st\<lparr>gf_seen := insert (gs_id (gc_goal c)) (gf_seen st)\<rparr>))
                 else
                   (case gf_goal st of
                      None \<Rightarrow> Inl (JsError ''goal operation requires a current goal'')
                    | Some current \<Rightarrow> bindR (validate_snapshot_transition st c current) (\<lambda>_. Inr st)))
          (\<lambda>st'. Inr (st'\<lparr>gf_goal := Some (gc_goal c), gf_rounds := gc_rounds c,
             gf_created := Some (gc_created_at c), gf_updated := Some (gc_updated_at c),
             gf_last_ref := Some (goal_change_ref change)\<rparr>)))"

definition admit_goal_round :: "goal_fold_state \<Rightarrow> goal_source \<Rightarrow> (js_error, goal_fold_state) result" where
  "admit_goal_round st source =
     (case gf_goal st of
        None \<Rightarrow> Inl (JsError ''goal round is not the next admitted round of the active goal'')
      | Some current \<Rightarrow>
          throw_if (gs_phase current \<noteq> GoalActive \<or> go_goal source \<noteq> gs_id current \<or>
              go_revision source \<noteq> gs_revision current \<or> go_round source \<noteq> gf_rounds st + 1 \<or>
              gs_max_rounds current < go_round source)
            (JsError ''goal round is not the next admitted round of the active goal'')
          (Inr (st\<lparr>gf_rounds := go_round source\<rparr>)))"

definition apply_goal_event :: "goal_fold_state \<Rightarrow> session_event \<Rightarrow> (js_error, goal_fold_state) result" where
  "apply_goal_event st e =
     (case ev_data e of
        PluginEvent t payload \<Rightarrow>
          if t = ''goal/change'' then
            bindR (decode_goal_change payload) (\<lambda>change.
            case change of
              None \<Rightarrow> Inl (JsError ''goal change has an invalid kind'')
            | Some c \<Rightarrow> apply_goal_change st c)
          else Inr st
      | UserMessage m \<Rightarrow>
          bindR (decode_goal_source (msg_source m)) (\<lambda>source.
          case source of
            None \<Rightarrow> Inr st
          | Some g \<Rightarrow> admit_goal_round st g)
      | _ \<Rightarrow> Inr st)"

record folded_goal =
  fg_goal :: "goal_snapshot option"
  fg_rounds :: int
  fg_created :: "int option"
  fg_updated :: "int option"
  fg_last_ref :: "goal_ref option"

definition fold_goal :: "session_event list \<Rightarrow> (js_error, folded_goal) result" where
  "fold_goal events =
     bindR (foldR apply_goal_event empty_goal_fold_state events) (\<lambda>st.
     Inr \<lparr>fg_goal = gf_goal st, fg_rounds = gf_rounds st, fg_created = gf_created st,
          fg_updated = gf_updated st, fg_last_ref = gf_last_ref st\<rparr>)"

subsection \<open>What is written\<close>

text \<open>The payload of a change as the service appends it.\<close>

definition encode_snapshot :: "goal_snapshot \<Rightarrow> json" where
  "encode_snapshot g =
     JObj ([(''id'', JStr (gs_id g)), (''revision'', JInt (gs_revision g)),
            (''objective'', JStr (gs_objective g)), (''phase'', JStr (phase_name (gs_phase g))),
            (''maxGoalRounds'', JInt (gs_max_rounds g))] @
       (case gs_blocked g of
          None \<Rightarrow> []
        | Some r \<Rightarrow> [(''blockedReason'', JObj [(''code'', JStr (br_code r)), (''message'', JStr (br_message r))])]))"

fun encode_goal_change :: "goal_change \<Rightarrow> json" where
  "encode_goal_change (GoalClear ref t) =
     JObj [(''kind'', JStr ''goal/change''), (''version'', JInt 1), (''operation'', JStr ''clear''),
           (''cleared'', JObj [(''id'', JStr (gr_id ref)), (''revision'', JInt (gr_revision ref))]),
           (''clearedAt'', JInt t)]"
| "encode_goal_change (GoalSnapshotChange c) =
     JObj [(''kind'', JStr ''goal/change''), (''version'', JInt 1),
           (''operation'', JStr (operation_name (gc_operation c))),
           (''goal'', encode_snapshot (gc_goal c)), (''roundsStarted'', JInt (gc_rounds c)),
           (''createdAt'', JInt (gc_created_at c)), (''updatedAt'', JInt (gc_updated_at c))]"

text \<open>The values a decoded change can have.\<close>

definition reason_ok :: "block_reason \<Rightarrow> bool" where
  "reason_ok r \<longleftrightarrow> is_kebab (br_code r) \<and> normalized (br_message r)"

definition positive_safe :: "int \<Rightarrow> bool" where
  "positive_safe n \<longleftrightarrow> is_safe n \<and> 1 \<le> n"

definition snapshot_ok :: "goal_snapshot \<Rightarrow> bool" where
  "snapshot_ok g \<longleftrightarrow> gs_id g \<noteq> [] \<and> normalized (gs_objective g) \<and> positive_safe (gs_revision g) \<and>
     positive_safe (gs_max_rounds g) \<and>
     (case gs_blocked g of None \<Rightarrow> gs_phase g \<noteq> GoalBlocked
      | Some r \<Rightarrow> gs_phase g = GoalBlocked \<and> reason_ok r)"

fun change_ok :: "goal_change \<Rightarrow> bool" where
  "change_ok (GoalClear ref t) = (gr_id ref \<noteq> [] \<and> positive_safe (gr_revision ref) \<and> is_event_seq t)"
| "change_ok (GoalSnapshotChange c) =
     (snapshot_ok (gc_goal c) \<and> is_event_seq (gc_rounds c) \<and> is_event_seq (gc_created_at c) \<and>
      is_event_seq (gc_updated_at c) \<and> gc_created_at c \<le> gc_updated_at c)"

subsection \<open>Decoding is the inverse of encoding\<close>

lemma sorted_key_names:
  "sorted_keys [(''kind'', a), (''version'', b), (''operation'', c), (''cleared'', d), (''clearedAt'', e)] =
     ''cleared,clearedAt,kind,operation,version''"
  "sorted_keys [(''kind'', a), (''version'', b), (''operation'', c), (''goal'', d), (''roundsStarted'', e),
     (''createdAt'', f), (''updatedAt'', g)] = ''createdAt,goal,kind,operation,roundsStarted,updatedAt,version''"
  "sorted_keys [(''id'', a), (''revision'', b)] = ''id,revision''"
  "sorted_keys [(''code'', a), (''message'', b)] = ''code,message''"
  "sorted_keys [(''id'', a), (''revision'', b), (''objective'', c), (''phase'', d), (''maxGoalRounds'', e)] =
     ''id,maxGoalRounds,objective,phase,revision''"
  "sorted_keys [(''id'', a), (''revision'', b), (''objective'', c), (''phase'', d), (''maxGoalRounds'', e),
     (''blockedReason'', f)] = ''blockedReason,id,maxGoalRounds,objective,phase,revision''"
  unfolding sorted_keys_def list.map fst_conv by code_simp+

lemma phase_of_phase_name [simp]: "phase_of_name (phase_name p) = Some p"
  by (cases p) (simp_all add: phase_of_name_def)

lemma operation_of_operation_name [simp]: "operation_of_name (operation_name p) = Some p"
  by (cases p) (simp_all add: operation_of_name_def)

lemma operation_name_clear [simp]: "operation_name p \<noteq> ''clear''"
  by (cases p) simp_all

lemma positive_integer_JInt: "positive_integer (Some (JInt n)) = Inr m \<longleftrightarrow> m = n \<and> positive_safe n"
  by (auto simp: positive_integer_def result_simps positive_safe_def)

lemma positive_integer_enc: "positive_safe n \<Longrightarrow> positive_integer (Some (JInt n)) = Inr n"
  by (simp add: positive_integer_JInt)

lemma non_negative_integer_enc: "is_event_seq n \<Longrightarrow> non_negative_integer (Some (JInt n)) = Inr n"
  by (simp add: non_negative_integer_def is_event_seq_def)

lemma positive_integer_Inr: "positive_integer v = Inr n \<Longrightarrow> positive_safe n"
  by (auto simp: positive_integer_def positive_safe_def result_simps split: option.splits json.splits)

lemma non_negative_integer_Inr: "non_negative_integer v = Inr n \<Longrightarrow> is_event_seq n"
  by (auto simp: non_negative_integer_def is_event_seq_def result_simps split: option.splits json.splits)

lemma decode_encode_snapshot:
  assumes "snapshot_ok g"
  shows "decode_goal_snapshot (Some (encode_snapshot g)) = Inr g"
proof (cases "gs_blocked g")
  case None
  with assms show ?thesis
    by (cases g) (simp add: snapshot_ok_def decode_goal_snapshot_def encode_snapshot_def sorted_key_names
        expected_keys_def positive_integer_enc)
next
  case (Some r)
  with assms have "decode_block_reason (Some (JObj [(''code'', JStr (br_code r)), (''message'', JStr (br_message r))])) = Inr r"
    by (cases r) (simp add: snapshot_ok_def reason_ok_def decode_block_reason_def sorted_key_names)
  with assms Some show ?thesis
    by (cases g) (simp add: snapshot_ok_def decode_goal_snapshot_def encode_snapshot_def sorted_key_names
        expected_keys_def positive_integer_enc phase_of_name_def)
qed

lemma decode_encode_change:
  assumes "change_ok c"
  shows "decode_goal_change (encode_goal_change c) = Inr (Some c)"
proof (cases c)
  case (GoalClear ref t)
  with assms show ?thesis
    by (cases ref) (simp add: decode_goal_change_def sorted_key_names decode_goal_ref_def positive_integer_enc
        non_negative_integer_enc)
next
  case (GoalSnapshotChange x)
  with assms show ?thesis
    by (cases x) (simp add: decode_goal_change_def sorted_key_names decode_encode_snapshot non_negative_integer_enc)
qed

lemma decode_block_reason_Inr: "decode_block_reason v = Inr r \<Longrightarrow> reason_ok r"
  by (auto simp: decode_block_reason_def reason_ok_def result_simps split: option.splits json.splits)

lemma decode_goal_snapshot_Inr:
  assumes "decode_goal_snapshot v = Inr g"
  shows "snapshot_ok g"
proof -
  from assms obtain fs i objective phase revision rounds blocked where
      "i \<noteq> []" "normalized objective" "positive_integer (map_get fs ''revision'') = Inr revision"
      "positive_integer (map_get fs ''maxGoalRounds'') = Inr rounds"
      "(if phase = GoalBlocked
        then bindR (decode_block_reason (map_get fs ''blockedReason'')) (\<lambda>r. Inr (Some r))
        else Inr None) = (Inr blocked :: (js_error, block_reason option) result)"
      "g = \<lparr>gs_id = i, gs_revision = revision, gs_objective = objective, gs_phase = phase,
            gs_blocked = blocked, gs_max_rounds = rounds\<rparr>"
    by (auto simp: decode_goal_snapshot_def result_simps split: option.splits json.splits)
  then show ?thesis
    by (auto simp: snapshot_ok_def result_simps positive_integer_Inr decode_block_reason_Inr
        split: if_splits option.splits)
qed

lemma decode_goal_ref_Inr: "decode_goal_ref v = Inr r \<Longrightarrow> gr_id r \<noteq> [] \<and> positive_safe (gr_revision r)"
  by (auto simp: decode_goal_ref_def result_simps positive_integer_Inr split: option.splits json.splits)

lemma decode_goal_change_Inr:
  assumes "decode_goal_change v = Inr (Some c)"
  shows "change_ok c"
  using assms
  by (auto simp: decode_goal_change_def result_simps non_negative_integer_Inr decode_goal_snapshot_Inr
      dest: decode_goal_ref_Inr split: json.splits if_splits option.splits)

subsection \<open>The history of a goal log\<close>

text \<open>The refs and the admitted rounds a log records, in order.\<close>

definition event_ref :: "session_event \<Rightarrow> goal_ref list" where
  "event_ref e =
     (case ev_data e of
        PluginEvent t payload \<Rightarrow>
          if t = ''goal/change''
          then (case decode_goal_change payload of Inr (Some c) \<Rightarrow> [goal_change_ref c] | _ \<Rightarrow> [])
          else []
      | _ \<Rightarrow> [])"

definition event_round :: "session_event \<Rightarrow> goal_source list" where
  "event_round e =
     (case ev_data e of
        UserMessage m \<Rightarrow> (case decode_goal_source (msg_source m) of Inr (Some g) \<Rightarrow> [g] | _ \<Rightarrow> [])
      | _ \<Rightarrow> [])"

definition goal_revisions :: "string \<Rightarrow> session_event list \<Rightarrow> int list" where
  "goal_revisions i es = map gr_revision (filter (\<lambda>r. gr_id r = i) (concat (map event_ref es)))"

definition goal_rounds :: "string \<Rightarrow> session_event list \<Rightarrow> int list" where
  "goal_rounds i es = map go_round (filter (\<lambda>r. go_goal r = i) (concat (map event_round es)))"

definition goal_state_ok :: "goal_fold_state \<Rightarrow> bool" where
  "goal_state_ok st \<longleftrightarrow>
     (case gf_goal st of
        None \<Rightarrow> gf_created st = None \<and> gf_updated st = None \<and> gf_rounds st = 0
      | Some g \<Rightarrow> snapshot_ok g \<and> gs_id g \<in> gf_seen st \<and> is_event_seq (gf_rounds st) \<and>
          gf_last_ref st = Some (snapshot_ref g) \<and>
          (\<exists>c u. gf_created st = Some c \<and> gf_updated st = Some u \<and> is_event_seq c \<and> is_event_seq u \<and> c \<le> u))"

definition goal_hist :: "session_event list \<Rightarrow> goal_fold_state \<Rightarrow> bool" where
  "goal_hist es st \<longleftrightarrow>
     goal_state_ok st \<and>
     (\<forall>i. \<exists>k m. goal_revisions i es = [1..k] \<and> goal_rounds i es = [1..m]) \<and>
     (\<forall>i. i \<notin> gf_seen st \<longrightarrow> goal_revisions i es = [] \<and> goal_rounds i es = []) \<and>
     (case gf_goal st of
        None \<Rightarrow> True
      | Some g \<Rightarrow> goal_revisions (gs_id g) es = [1..gs_revision g] \<and> goal_rounds (gs_id g) es = [1..gf_rounds st])"

lemma goal_revisions_snoc:
  "goal_revisions i (es @ [e]) = goal_revisions i es @ map gr_revision (filter (\<lambda>r. gr_id r = i) (event_ref e))"
  by (simp add: goal_revisions_def)

lemma goal_rounds_snoc:
  "goal_rounds i (es @ [e]) = goal_rounds i es @ map go_round (filter (\<lambda>r. go_goal r = i) (event_round e))"
  by (simp add: goal_rounds_def)

lemma empty_goal_hist: "goal_hist [] empty_goal_fold_state"
proof -
  have "\<exists>k :: int. [] = [1..k]" by (rule exI [of _ 0]) simp
  then show ?thesis
    by (simp add: goal_hist_def goal_state_ok_def empty_goal_fold_state_def goal_revisions_def goal_rounds_def)
qed

text \<open>The transitions of a current goal, as a relation between its snapshots.\<close>

definition same_definition :: "goal_snapshot \<Rightarrow> goal_snapshot \<Rightarrow> bool" where
  "same_definition g h \<longleftrightarrow> gs_objective h = gs_objective g \<and> gs_max_rounds h = gs_max_rounds g"

fun transition_allowed :: "goal_operation \<Rightarrow> goal_snapshot \<Rightarrow> goal_snapshot \<Rightarrow> int \<Rightarrow> bool" where
  "transition_allowed OpCreate g h n = False"
| "transition_allowed OpEdit g h n = (gs_phase h = gs_phase g \<and> gs_blocked h = gs_blocked g)"
| "transition_allowed OpPause g h n = (same_definition g h \<and> gs_phase g = GoalActive \<and> gs_phase h = GoalPaused)"
| "transition_allowed OpResume g h n =
     (same_definition g h \<and> gs_phase g \<noteq> GoalComplete \<and> gs_phase h = GoalActive \<and> n < gs_max_rounds h)"
| "transition_allowed OpComplete g h n =
     (same_definition g h \<and> gs_phase g \<noteq> GoalComplete \<and> gs_phase h = GoalComplete)"
| "transition_allowed OpBlock g h n = (same_definition g h \<and> gs_phase g = GoalActive \<and> gs_phase h = GoalBlocked)"

lemma resumable_phases:
  "p = GoalActive \<or> p = GoalPaused \<or> p = GoalBlocked \<longleftrightarrow> p \<noteq> GoalComplete"
  by (cases p) simp_all

lemma validate_snapshot_transition_iff:
  "validate_snapshot_transition st c current = Inr () \<longleftrightarrow>
     gs_id (gc_goal c) = gs_id current \<and> gs_revision (gc_goal c) = gs_revision current + 1 \<and>
     gf_created st = Some (gc_created_at c) \<and> gc_rounds c = gf_rounds st \<and>
     (\<exists>u. gf_updated st = Some u \<and> u \<le> gc_updated_at c) \<and>
     transition_allowed (gc_operation c) current (gc_goal c) (gf_rounds st)"
  using resumable_phases [of "gs_phase current"]
  by (cases "gc_operation c")
    (auto simp: validate_snapshot_transition_def require_next_revision_def require_same_definition_def
      same_definition_def snapshot_ref_def Let_def result_simps split: option.splits)

text \<open>An accepted transition of a current goal keeps its identity and advances it by one.\<close>

lemma snapshot_transition_Inr:
  assumes "validate_snapshot_transition st c current = Inr ()"
  shows "gs_id (gc_goal c) = gs_id current \<and> gs_revision (gc_goal c) = gs_revision current + 1 \<and>
    gf_created st = Some (gc_created_at c) \<and> gc_rounds c = gf_rounds st \<and> gc_operation c \<noteq> OpCreate \<and>
    (\<exists>u. gf_updated st = Some u \<and> u \<le> gc_updated_at c)"
  using assms by (cases "gc_operation c") (auto simp: validate_snapshot_transition_iff)

lemma apply_goal_change_hist:
  assumes hist: "goal_hist es st" and ok: "change_ok c" and step: "apply_goal_change st c = Inr st'"
    and ref: "event_ref e = [goal_change_ref c]" and round: "event_round e = []"
  shows "goal_hist (es @ [e]) st'"
proof -
  have rounds: "goal_rounds i (es @ [e]) = goal_rounds i es" for i by (simp add: goal_rounds_snoc round)
  have revs: "goal_revisions i (es @ [e]) =
      (if i = gr_id (goal_change_ref c) then goal_revisions i es @ [gr_revision (goal_change_ref c)]
       else goal_revisions i es)" for i
    by (simp add: goal_revisions_snoc ref)
  show ?thesis
  proof (cases c)
    case (GoalClear cleared t)
    with step obtain g where g: "gf_goal st = Some g" and "gr_id cleared = gs_id g"
        and "gr_revision cleared = gs_revision g + 1"
        and st': "st' = st\<lparr>gf_goal := None, gf_rounds := 0, gf_created := None, gf_updated := None,
             gf_last_ref := Some cleared\<rparr>"
      by (auto simp: apply_goal_change_def require_next_revision_def result_simps split: option.splits)
    moreover have "0 \<le> gs_revision g" "gs_id g \<in> gf_seen st" "goal_revisions (gs_id g) es = [1..gs_revision g]"
      using hist g by (auto simp: goal_hist_def goal_state_ok_def snapshot_ok_def positive_safe_def)
    moreover have "goal_revisions (gs_id g) (es @ [e]) = [1..gs_revision g + 1]"
      using calculation GoalClear by (simp add: revs upto_snoc)
    ultimately show ?thesis
      using hist GoalClear by (auto simp: goal_hist_def goal_state_ok_def rounds revs)
  next
    case (GoalSnapshotChange x)
    define g where "g = gc_goal x"
    have snap: "snapshot_ok g" "is_event_seq (gc_rounds x)" "is_event_seq (gc_created_at x)"
        "is_event_seq (gc_updated_at x)" "gc_created_at x \<le> gc_updated_at x"
      using ok GoalSnapshotChange by (simp_all add: g_def)
    show ?thesis
    proof (cases "gc_operation x = OpCreate")
      case True
      with step GoalSnapshotChange have fresh: "gs_id g \<notin> gf_seen st" and one: "gs_revision g = 1" "gc_rounds x = 0"
          and st': "st' = st\<lparr>gf_seen := insert (gs_id g) (gf_seen st), gf_goal := Some g, gf_rounds := gc_rounds x,
             gf_created := Some (gc_created_at x), gf_updated := Some (gc_updated_at x),
             gf_last_ref := Some (snapshot_ref g)\<rparr>"
        by (auto simp: apply_goal_change_def result_simps g_def split: if_splits)
      have none: "goal_revisions (gs_id g) es = []" "goal_rounds (gs_id g) es = []"
        using hist fresh by (auto simp: goal_hist_def)
      then have new: "goal_revisions (gs_id g) (es @ [e]) = [1..1]" "goal_rounds (gs_id g) (es @ [e]) = [1..0]"
        using GoalSnapshotChange one by (simp_all add: rounds revs snapshot_ref_def g_def [symmetric])
      have old: "goal_revisions i (es @ [e]) = goal_revisions i es" if "i \<noteq> gs_id g" for i
        using that GoalSnapshotChange by (simp add: revs snapshot_ref_def g_def [symmetric])
      have "\<exists>k m. goal_revisions i (es @ [e]) = [1..k] \<and> goal_rounds i (es @ [e]) = [1..m]" for i
      proof (cases "i = gs_id g")
        case True
        with new show ?thesis by blast
      next
        case False
        with hist old rounds show ?thesis by (simp add: goal_hist_def)
      qed
      moreover have "goal_revisions i (es @ [e]) = [] \<and> goal_rounds i (es @ [e]) = []"
        if "i \<notin> gf_seen st'" for i
        using that hist old [of i] rounds [of i] by (auto simp: st' goal_hist_def)
      moreover have "goal_state_ok st'"
        using snap GoalSnapshotChange by (simp add: goal_state_ok_def st')
      ultimately show ?thesis
        using new one by (simp add: goal_hist_def) (simp add: st')
    next
      case False
      with step GoalSnapshotChange obtain current where cur: "gf_goal st = Some current"
          and valid: "validate_snapshot_transition st x current = Inr ()"
          and st': "st' = st\<lparr>gf_goal := Some g, gf_rounds := gc_rounds x,
             gf_created := Some (gc_created_at x), gf_updated := Some (gc_updated_at x),
             gf_last_ref := Some (snapshot_ref g)\<rparr>"
        by (auto simp: apply_goal_change_def result_simps g_def split: option.splits)
      note keep = snapshot_transition_Inr [OF valid, folded g_def]
      have "0 \<le> gs_revision current" "gs_id current \<in> gf_seen st"
          "goal_revisions (gs_id current) es = [1..gs_revision current]"
          "goal_rounds (gs_id current) es = [1..gf_rounds st]"
        using hist cur by (auto simp: goal_hist_def goal_state_ok_def snapshot_ok_def positive_safe_def)
      moreover from this keep have "goal_revisions (gs_id g) (es @ [e]) = [1..gs_revision g]"
        using GoalSnapshotChange by (simp add: revs snapshot_ref_def upto_snoc g_def [symmetric])
      ultimately show ?thesis
        using hist GoalSnapshotChange snap st' keep
        by (auto simp: goal_hist_def goal_state_ok_def rounds revs snapshot_ref_def g_def [symmetric])
    qed
  qed
qed

lemma decode_goal_source_Inr:
  "decode_goal_source s = Inr (Some g) \<Longrightarrow> positive_safe (go_revision g) \<and> positive_safe (go_round g)"
  by (auto simp: decode_goal_source_def positive_safe_def result_simps
      split: message_source.splits option.splits json.splits if_splits)

lemma admit_goal_round_Inr:
  assumes "admit_goal_round st g = Inr st'"
  obtains current where "gf_goal st = Some current" and "gs_phase current = GoalActive"
    and "go_goal g = gs_id current" and "go_revision g = gs_revision current"
    and "go_round g = gf_rounds st + 1" and "go_round g \<le> gs_max_rounds current"
    and "st' = st\<lparr>gf_rounds := go_round g\<rparr>"
  using assms by (auto simp: admit_goal_round_def result_simps split: option.splits)

lemma admit_goal_round_hist:
  assumes hist: "goal_hist es st" and ok: "positive_safe (go_round g)"
    and step: "admit_goal_round st g = Inr st'"
    and ref: "event_ref e = []" and round: "event_round e = [g]"
  shows "goal_hist (es @ [e]) st'"
proof -
  from step obtain current where cur: "gf_goal st = Some current" "go_goal g = gs_id current"
      "go_round g = gf_rounds st + 1" "st' = st\<lparr>gf_rounds := go_round g\<rparr>"
    by (rule admit_goal_round_Inr)
  have revs: "goal_revisions i (es @ [e]) = goal_revisions i es" for i
    by (simp add: goal_revisions_snoc ref)
  have old: "goal_rounds i (es @ [e]) = goal_rounds i es" if "i \<noteq> gs_id current" for i
    using that cur by (simp add: goal_rounds_snoc round)
  have "0 \<le> gf_rounds st" "goal_rounds (gs_id current) es = [1..gf_rounds st]" "gs_id current \<in> gf_seen st"
    using hist cur by (auto simp: goal_hist_def goal_state_ok_def is_event_seq_def)
  then have new: "goal_rounds (gs_id current) (es @ [e]) = [1..gf_rounds st + 1]" "gs_id current \<in> gf_seen st"
    using cur by (simp_all add: goal_rounds_snoc round upto_snoc)
  have "\<exists>k m. goal_revisions i (es @ [e]) = [1..k] \<and> goal_rounds i (es @ [e]) = [1..m]" for i
  proof (cases "i = gs_id current")
    case True
    with new hist revs show ?thesis by (simp add: goal_hist_def) blast
  next
    case False
    with hist old revs show ?thesis by (simp add: goal_hist_def)
  qed
  moreover have "goal_state_ok st'"
    using hist cur ok by (simp add: goal_hist_def goal_state_ok_def positive_safe_def is_event_seq_def)
  moreover have "goal_revisions i (es @ [e]) = [] \<and> goal_rounds i (es @ [e]) = []"
    if "i \<notin> gf_seen st'" for i
    using that new(2) hist old [of i] revs [of i] by (auto simp: cur(4) goal_hist_def)
  moreover have "goal_revisions (gs_id current) (es @ [e]) = [1..gs_revision current]"
    using hist cur(1) revs by (simp add: goal_hist_def)
  ultimately show ?thesis
    using new cur by (simp add: goal_hist_def)
qed

lemma goal_hist_skip:
  "goal_hist es st \<Longrightarrow> event_ref e = [] \<Longrightarrow> event_round e = [] \<Longrightarrow> goal_hist (es @ [e]) st"
  by (simp add: goal_hist_def goal_revisions_snoc goal_rounds_snoc split: option.splits)

lemma apply_goal_event_hist:
  assumes hist: "goal_hist es st" and step: "apply_goal_event st e = Inr st'"
  shows "goal_hist (es @ [e]) st'"
proof (cases "ev_data e")
  case (UserMessage m)
  with step obtain source where source: "decode_goal_source (msg_source m) = Inr source"
      and rest: "(case source of None \<Rightarrow> Inr st | Some g \<Rightarrow> admit_goal_round st g) = Inr st'"
    by (auto simp: apply_goal_event_def result_simps)
  show ?thesis
  proof (cases source)
    case None
    with UserMessage source rest hist show ?thesis
      by (auto simp: event_ref_def event_round_def intro!: goal_hist_skip)
  next
    case (Some g)
    with UserMessage source rest show ?thesis
      by (intro admit_goal_round_hist [OF hist]) (auto simp: event_ref_def event_round_def dest: decode_goal_source_Inr)
  qed
next
  case (PluginEvent t payload)
  show ?thesis
  proof (cases "t = ''goal/change''")
    case True
    with PluginEvent step obtain c where c: "decode_goal_change payload = Inr (Some c)"
        and "apply_goal_change st c = Inr st'"
      by (auto simp: apply_goal_event_def result_simps split: option.splits)
    then show ?thesis using PluginEvent True
      by (intro apply_goal_change_hist [OF hist decode_goal_change_Inr [OF c]])
        (simp_all add: event_ref_def event_round_def)
  next
    case False
    with PluginEvent step hist show ?thesis
      by (auto simp: apply_goal_event_def event_ref_def event_round_def intro!: goal_hist_skip)
  qed
qed (use step hist in \<open>auto simp: apply_goal_event_def event_ref_def event_round_def intro!: goal_hist_skip\<close>)

interpretation goal_log: replay apply_goal_event empty_goal_fold_state goal_hist
  by unfold_locales (rule empty_goal_hist, rule apply_goal_event_hist)

lemma fold_goal_hist:
  assumes "fold_goal es = Inr r"
  obtains st where "foldR apply_goal_event empty_goal_fold_state es = Inr st" and "goal_hist es st"
    and "fg_goal r = gf_goal st" and "fg_rounds r = gf_rounds st" and "fg_last_ref r = gf_last_ref st"
proof -
  from assms obtain st where "foldR apply_goal_event empty_goal_fold_state es = Inr st"
      and "r = \<lparr>fg_goal = gf_goal st, fg_rounds = gf_rounds st, fg_created = gf_created st,
          fg_updated = gf_updated st, fg_last_ref = gf_last_ref st\<rparr>"
    by (auto simp: fold_goal_def result_simps)
  with goal_log.hist_fold that show thesis by simp
qed

subsection \<open>Properties\<close>

text \<open>
  C17. The durable payload round-trips: a well-formed change is decoded to itself from what the
  service writes, and everything the strict decoder accepts is well-formed.
\<close>

theorem goal_change_roundtrip:
  "(change_ok c \<longleftrightarrow> decode_goal_change (encode_goal_change c) = Inr (Some c)) \<and>
   (case decode_goal_change j of Inr (Some c') \<Rightarrow> change_ok c' | _ \<Rightarrow> True)"
  using decode_encode_change decode_goal_change_Inr by (auto split: sum.splits option.splits)

text \<open>
  In an accepted log the revisions of every goal are 1, 2, 3 and so on without gap or
  repetition, and so are its admitted rounds; for the current goal they end with its revision
  and its round count, so a revision identifies one state of one goal.
\<close>

theorem goal_log_counts:
  assumes "fold_goal es = Inr r"
  shows "(\<exists>k m. goal_revisions i es = [1..k] \<and> goal_rounds i es = [1..m]) \<and>
    (case fg_goal r of
       None \<Rightarrow> fg_rounds r = 0
     | Some g \<Rightarrow> goal_revisions (gs_id g) es = [1..gs_revision g] \<and>
         goal_rounds (gs_id g) es = [1..fg_rounds r] \<and> fg_last_ref r = Some (snapshot_ref g))"
proof -
  from fold_goal_hist [OF assms] obtain st where "goal_hist es st"
    and "fg_goal r = gf_goal st" and "fg_rounds r = gf_rounds st" and "fg_last_ref r = gf_last_ref st" .
  then show ?thesis by (auto simp: goal_hist_def goal_state_ok_def split: option.splits)
qed

definition sample_goal :: goal_snapshot where
  "sample_goal = \<lparr>gs_id = ''g'', gs_revision = 1, gs_objective = ''ship it'', gs_phase = GoalActive,
     gs_blocked = None, gs_max_rounds = 2\<rparr>"

definition sample_created :: goal_change where
  "sample_created = GoalSnapshotChange \<lparr>gc_operation = OpCreate, gc_goal = sample_goal, gc_rounds = 0,
     gc_created_at = 10, gc_updated_at = 10\<rparr>"

definition sample_round :: "int \<Rightarrow> message" where
  "sample_round n = (sample_message ''m'')\<lparr>msg_source := OtherSource (JObj [(''kind'', JStr ''goal''),
     (''goalId'', JStr ''g''), (''revision'', JInt 1), (''round'', JInt n)])\<rparr>"

definition sample_goal_log :: "session_event list" where
  "sample_goal_log =
     [plain_event 0 (PluginEvent ''goal/change'' (encode_goal_change sample_created)),
      plain_event 1 (UserMessage (sample_round 1))]"

lemma sample_goal_fold:
  "fold_goal sample_goal_log = Inr \<lparr>fg_goal = Some sample_goal, fg_rounds = 1, fg_created = Some 10,
     fg_updated = Some 10, fg_last_ref = Some \<lparr>gr_id = ''g'', gr_revision = 1\<rparr>\<rparr>"
  by code_simp

lemma goal_log_counts_witness:
  "goal_rounds ''g'' sample_goal_log = [1] \<and> goal_revisions ''g'' sample_goal_log = [1]"
  using goal_log_counts [OF sample_goal_fold, of "''g''"] by (simp add: sample_goal_def)

text \<open>
  A round is admitted only within the budget: an accepted event that carries a goal source
  is the next round of the active current revision and does not exceed the cap of that goal,
  which it leaves as it was.
\<close>

theorem goal_round_budget:
  assumes "fold_goal (es @ [e]) = Inr r" and "event_round e = [g]"
  shows "\<exists>r0 goal. fold_goal es = Inr r0 \<and> fg_goal r0 = Some goal \<and> gs_phase goal = GoalActive \<and>
    go_goal g = gs_id goal \<and> go_revision g = gs_revision goal \<and> go_round g = fg_rounds r0 + 1 \<and>
    fg_goal r = Some goal \<and> fg_rounds r = go_round g \<and> fg_rounds r \<le> gs_max_rounds goal"
proof -
  from assms(1) obtain st st' where st: "foldR apply_goal_event empty_goal_fold_state es = Inr st"
      and step: "apply_goal_event st e = Inr st'"
      and r: "fg_goal r = gf_goal st'" "fg_rounds r = gf_rounds st'"
    by (auto simp: fold_goal_def foldR_snoc result_simps)
  from assms(2) obtain m where "ev_data e = UserMessage m" "decode_goal_source (msg_source m) = Inr (Some g)"
    by (auto simp: event_round_def split: event_data.splits sum.splits option.splits)
  with step have "admit_goal_round st g = Inr st'" by (simp add: apply_goal_event_def)
  then obtain current where "gf_goal st = Some current" "gs_phase current = GoalActive"
      "go_goal g = gs_id current" "go_revision g = gs_revision current" "go_round g = gf_rounds st + 1"
      "go_round g \<le> gs_max_rounds current" "st' = st\<lparr>gf_rounds := go_round g\<rparr>"
    by (rule admit_goal_round_Inr)
  with st r show ?thesis by (simp add: fold_goal_def)
qed

lemma goal_round_budget_witness:
  "\<exists>r0 goal. fold_goal (take 1 sample_goal_log) = Inr r0 \<and> fg_goal r0 = Some goal \<and>
    gs_phase goal = GoalActive \<and> fg_rounds r0 = 0 \<and> 1 \<le> gs_max_rounds goal"
proof -
  have log: "take 1 sample_goal_log @ [sample_goal_log ! 1] = sample_goal_log" by (simp add: sample_goal_log_def)
  have round: "event_round (sample_goal_log ! 1) = [\<lparr>go_goal = ''g'', go_revision = 1, go_round = 1\<rparr>]" by code_simp
  from goal_round_budget [of "take 1 sample_goal_log" "sample_goal_log ! 1", unfolded log, OF sample_goal_fold round]
  show ?thesis by auto
qed

end
