(* ===== verification/GoalService.thy ===== *)
theory GoalService
  imports GoalFold
begin

text \<open>
  The goal service (\<open>packages/goal/goal/src/index.ts\<close>): compare-and-set mutations that append a
  durable change to the session and read it back through the strict fold, the per-session cache
  with its process-local activation, and the last-wins projection. A call takes from its
  environment whether the agent is live, whether the session is publishing an append, the clock
  and a random id.
\<close>

subsection \<open>State\<close>

datatype goal_activation = Armed | Disarmed

datatype goal_error = GoalError string | GoalThrow js_error

record goal_cache =
  gk_state :: goal_fold_state
  gk_activation :: goal_activation
  gk_observed :: nat
  gk_pending :: "(int \<times> goal_activation) option"

record goal_view =
  gv_goal :: goal_snapshot
  gv_rounds :: int
  gv_created_at :: int
  gv_updated_at :: int
  gv_activation :: goal_activation

record goal_changed =
  gn_operation :: string
  gn_ref :: goal_ref
  gn_goal :: "goal_view option"

record goal_context =
  gx_session :: session_state
  gx_cache :: "goal_cache option"
  gx_emitted :: "goal_changed list"

record goal_call =
  go_live :: bool
  go_gate :: append_gate
  go_now :: int
  go_uuid :: string

subsection \<open>Input\<close>

definition resolve_max_goal_rounds :: "int \<Rightarrow> (goal_error, int) result" where
  "resolve_max_goal_rounds n =
     throw_if (\<not> is_safe n \<or> n < 1) (GoalError ''GOAL_INVALID_MAX_ROUNDS'') (Inr n)"

definition resolve_objective :: "string \<Rightarrow> (goal_error, string) result" where
  "resolve_objective s = throw_if (trim s = []) (GoalError ''GOAL_INVALID_OBJECTIVE'') (Inr (trim s))"

definition resolve_create_goal ::
    "string \<Rightarrow> int option \<Rightarrow> int \<Rightarrow> (goal_error, string \<times> int) result" where
  "resolve_create_goal objective rounds default_rounds =
     bindR (resolve_objective objective) (\<lambda>o'.
     bindR (resolve_max_goal_rounds (case rounds of None \<Rightarrow> default_rounds | Some n \<Rightarrow> n)) (\<lambda>n.
     Inr (o', n)))"

definition resolve_block_reason :: "string \<Rightarrow> string \<Rightarrow> (goal_error, block_reason) result" where
  "resolve_block_reason code msg =
     throw_if (\<not> is_kebab code \<or> trim msg = []) (GoalError ''GOAL_INVALID_BLOCK_REASON'')
       (Inr \<lparr>br_code = code, br_message = trim msg\<rparr>)"

subsection \<open>The cache\<close>

text \<open>The incremental observation of the log; a rejected event ends it after the events before it.\<close>

fun sync_cache :: "goal_cache \<Rightarrow> session_event list \<Rightarrow> goal_cache \<times> (goal_error, unit) result" where
  "sync_cache c [] = (c, Inr ())"
| "sync_cache c (e # es) =
     (case apply_goal_event (gk_state c) e of
        Inl err \<Rightarrow> (c, Inl (GoalThrow err))
      | Inr st \<Rightarrow>
          sync_cache (c\<lparr>gk_state := st,
             gk_activation :=
               (if ev_type e = ''goal/change''
                then (case gk_pending c of
                        Some (q, a) \<Rightarrow> if q = ev_seq e then a else Disarmed
                      | None \<Rightarrow> Disarmed)
                else gk_activation c),
             gk_observed := gk_observed c + 1\<rparr>) es)"

definition assert_live :: "goal_call \<Rightarrow> goal_context \<Rightarrow> goal_context \<times> (goal_error, unit) result" where
  "assert_live call = liftS (throw_if (\<not> go_live call) (GoalError ''GOAL_AGENT_NOT_LIVE'') (Inr ()))"

text \<open>\<open>cache\<close>: a session seen for the first time is folded from its start, disarmed.\<close>

definition load_cache :: "goal_context \<Rightarrow> goal_context \<times> (goal_error, goal_cache) result" where
  "load_cache x =
     (case gx_cache x of
        Some c \<Rightarrow> (x, Inr c)
      | None \<Rightarrow>
          (case foldR apply_goal_event empty_goal_fold_state (ss_log (gx_session x)) of
             Inl err \<Rightarrow> (x, Inl (GoalThrow err))
           | Inr st \<Rightarrow>
               (let c = \<lparr>gk_state = st, gk_activation = Disarmed,
                         gk_observed = length (ss_log (gx_session x)), gk_pending = None\<rparr>
                in (x\<lparr>gx_cache := Some c\<rparr>, Inr c))))"

definition sync :: "goal_cache \<Rightarrow> goal_context \<Rightarrow> goal_context \<times> (goal_error, goal_cache) result" where
  "sync c x =
     (case sync_cache c (drop (gk_observed c) (ss_log (gx_session x))) of
        (c', Inl err) \<Rightarrow> (x\<lparr>gx_cache := Some c'\<rparr>, Inl err)
      | (c', Inr _) \<Rightarrow> (x\<lparr>gx_cache := Some c'\<rparr>, Inr c'))"

definition prepare_mutation :: "goal_call \<Rightarrow> goal_context \<Rightarrow> goal_context \<times> (goal_error, goal_cache) result" where
  "prepare_mutation call = bindS (assert_live call) (\<lambda>_. bindS load_cache sync)"

definition expect_current :: "goal_cache \<Rightarrow> goal_ref \<Rightarrow> (goal_error, goal_snapshot) result" where
  "expect_current c ref =
     (case gf_goal (gk_state c) of
        None \<Rightarrow> Inl (GoalError ''GOAL_NOT_FOUND'')
      | Some current \<Rightarrow>
          throw_if (gr_id ref \<noteq> gs_id current \<or> gr_revision ref \<noteq> gs_revision current)
            (GoalError ''GOAL_STALE_REVISION'') (Inr current))"

definition view_of :: "goal_cache \<Rightarrow> (goal_error, goal_view option) result" where
  "view_of c =
     (case gf_goal (gk_state c) of
        None \<Rightarrow> Inr None
      | Some g \<Rightarrow>
          (case (gf_created (gk_state c), gf_updated (gk_state c)) of
             (Some created, Some updated) \<Rightarrow>
               Inr (Some \<lparr>gv_goal = g, gv_rounds = gf_rounds (gk_state c), gv_created_at = created,
                          gv_updated_at = updated, gv_activation = gk_activation c\<rparr>)
           | _ \<Rightarrow> Inl (GoalThrow (JsError ''goal cache lacks timestamps''))))"

subsection \<open>Committing\<close>

fun change_operation :: "goal_change \<Rightarrow> string" where
  "change_operation (GoalClear _ _) = ''clear''"
| "change_operation (GoalSnapshotChange c) = operation_name (gc_operation c)"

text \<open>The guarded part: append and sync, with the activation intent pending for the new event.\<close>

definition append_and_sync ::
    "goal_call \<Rightarrow> goal_cache \<Rightarrow> goal_change \<Rightarrow> goal_activation
      \<Rightarrow> goal_context \<Rightarrow> goal_context \<times> (goal_error, goal_cache) result" where
  "append_and_sync call c change activation x =
     (let pending = c\<lparr>gk_pending := Some (int (length (ss_log (gx_session x))), activation)\<rparr> in
      case append_event (gx_session x) (go_gate call) (go_now call)
             (PluginEvent ''goal/change'' (encode_goal_change change)) None None of
        (s', Inl err) \<Rightarrow> (x\<lparr>gx_session := s', gx_cache := Some pending\<rparr>, Inl (GoalThrow err))
      | (s', Inr _) \<Rightarrow> sync pending (x\<lparr>gx_session := s'\<rparr>))"

definition clear_pending :: "goal_context \<Rightarrow> goal_context" where
  "clear_pending x = x\<lparr>gx_cache := map_option (\<lambda>c. c\<lparr>gk_pending := None\<rparr>) (gx_cache x)\<rparr>"

definition commit ::
    "goal_call \<Rightarrow> goal_cache \<Rightarrow> goal_change \<Rightarrow> goal_activation
      \<Rightarrow> goal_context \<Rightarrow> goal_context \<times> (goal_error, goal_cache) result" where
  "commit call c change activation x =
     (case append_and_sync call c change activation x of
        (x', Inl err) \<Rightarrow> (clear_pending x', Inl err)
      | (x', Inr c') \<Rightarrow>
          (let c'' = c'\<lparr>gk_pending := None\<rparr> in
           case view_of c'' of
             Inl err \<Rightarrow> (clear_pending x', Inl err)
           | Inr v \<Rightarrow>
               ((clear_pending x')\<lparr>gx_emitted := gx_emitted x' @
                   [\<lparr>gn_operation = change_operation change, gn_ref = goal_change_ref change, gn_goal = v\<rparr>]\<rparr>,
                Inr c'')))"

definition commit_snapshot ::
    "goal_call \<Rightarrow> goal_cache \<Rightarrow> goal_snapshot_change \<Rightarrow> goal_activation
      \<Rightarrow> goal_context \<Rightarrow> goal_context \<times> (goal_error, goal_view) result" where
  "commit_snapshot call c change activation =
     bindS (commit call c (GoalSnapshotChange change) activation) (\<lambda>c'.
     liftS (bindR (view_of c') (\<lambda>v.
       case v of
         None \<Rightarrow> Inl (GoalThrow (JsError ''snapshot commit cleared the goal unexpectedly''))
       | Some view \<Rightarrow> Inr view)))"

definition next_mutation_time :: "goal_call \<Rightarrow> goal_cache \<Rightarrow> (goal_error, int) result" where
  "next_mutation_time call c =
     (case gf_updated (gk_state c) of
        None \<Rightarrow> Inl (GoalThrow (JsError ''current goal cache lacks updatedAt''))
      | Some updated \<Rightarrow> Inr (max (go_now call) updated))"

definition commit_current ::
    "goal_call \<Rightarrow> goal_cache \<Rightarrow> goal_operation \<Rightarrow> goal_snapshot \<Rightarrow> goal_activation
      \<Rightarrow> goal_context \<Rightarrow> goal_context \<times> (goal_error, goal_view) result" where
  "commit_current call c operation goal activation =
     (case gf_created (gk_state c) of
        None \<Rightarrow> liftS (Inl (GoalThrow (JsError ''current goal cache lacks createdAt'')))
      | Some created \<Rightarrow>
          bindS (liftS (next_mutation_time call c)) (\<lambda>updated.
          commit_snapshot call c
            \<lparr>gc_operation = operation, gc_goal = goal, gc_rounds = gf_rounds (gk_state c),
             gc_created_at = created, gc_updated_at = updated\<rparr> activation))"

subsection \<open>Operations\<close>

definition with_phase :: "goal_snapshot \<Rightarrow> goal_phase \<Rightarrow> goal_snapshot" where
  "with_phase current phase =
     \<lparr>gs_id = gs_id current, gs_revision = gs_revision current + 1, gs_objective = gs_objective current,
      gs_phase = phase, gs_blocked = None, gs_max_rounds = gs_max_rounds current\<rparr>"

definition goal_get :: "goal_call \<Rightarrow> goal_context \<Rightarrow> goal_context \<times> (goal_error, goal_view option) result" where
  "goal_get call = bindS (prepare_mutation call) (\<lambda>c. liftS (view_of c))"

definition goal_disarm :: "goal_call \<Rightarrow> goal_context \<Rightarrow> goal_context \<times> (goal_error, goal_view option) result" where
  "goal_disarm call = bindS (prepare_mutation call) (\<lambda>c x.
     (let c' = c\<lparr>gk_activation := Disarmed\<rparr> in (x\<lparr>gx_cache := Some c'\<rparr>, view_of c')))"

text \<open>The \<open>agent/session-start\<close> listener.\<close>

definition goal_session_start :: "goal_context \<Rightarrow> goal_context \<times> (goal_error, unit) result" where
  "goal_session_start = bindS load_cache (\<lambda>c x.
     (x\<lparr>gx_cache := Some (c\<lparr>gk_activation := Disarmed\<rparr>)\<rparr>, Inr ()))"

definition goal_create ::
    "int \<Rightarrow> goal_call \<Rightarrow> string \<Rightarrow> int option
      \<Rightarrow> goal_context \<Rightarrow> goal_context \<times> (goal_error, goal_view) result" where
  "goal_create default_rounds call objective rounds =
     bindS (liftS (resolve_create_goal objective rounds default_rounds)) (\<lambda>(o', n).
     bindS (prepare_mutation call) (\<lambda>c.
       if (case gf_goal (gk_state c) of None \<Rightarrow> False | Some g \<Rightarrow> gs_phase g \<noteq> GoalComplete)
       then liftS (Inl (GoalError ''GOAL_ALREADY_EXISTS''))
       else commit_snapshot call c
         \<lparr>gc_operation = OpCreate,
          gc_goal = \<lparr>gs_id = ''goal-'' @ go_uuid call, gs_revision = 1, gs_objective = o',
            gs_phase = GoalActive, gs_blocked = None, gs_max_rounds = n\<rparr>,
          gc_rounds = 0, gc_created_at = go_now call, gc_updated_at = go_now call\<rparr> Armed))"

definition goal_edit ::
    "goal_call \<Rightarrow> goal_ref \<Rightarrow> string option \<Rightarrow> int option
      \<Rightarrow> goal_context \<Rightarrow> goal_context \<times> (goal_error, goal_view) result" where
  "goal_edit call ref objective rounds =
     bindS (prepare_mutation call) (\<lambda>c.
     bindS (liftS (expect_current c ref)) (\<lambda>current.
       if objective = None \<and> rounds = None then liftS (Inl (GoalError ''GOAL_INVALID_EDIT''))
       else
         bindS (liftS (case objective of None \<Rightarrow> Inr (gs_objective current) | Some s \<Rightarrow> resolve_objective s)) (\<lambda>o'.
         bindS (liftS (case rounds of None \<Rightarrow> Inr (gs_max_rounds current) | Some n \<Rightarrow> resolve_max_goal_rounds n)) (\<lambda>n.
         commit_current call c OpEdit
           (current\<lparr>gs_revision := gs_revision current + 1, gs_objective := o', gs_max_rounds := n\<rparr>)
           (gk_activation c)))))"

definition goal_transition ::
    "goal_call \<Rightarrow> goal_ref \<Rightarrow> goal_operation \<Rightarrow> goal_phase list \<Rightarrow> goal_phase \<Rightarrow> goal_activation
      \<Rightarrow> goal_context \<Rightarrow> goal_context \<times> (goal_error, goal_view) result" where
  "goal_transition call ref operation allowed phase activation =
     bindS (prepare_mutation call) (\<lambda>c.
     bindS (liftS (expect_current c ref)) (\<lambda>current.
       if \<not> List.member allowed (gs_phase current) then liftS (Inl (GoalError ''GOAL_INVALID_TRANSITION''))
       else commit_current call c operation (with_phase current phase) activation))"

definition goal_pause ::
    "goal_call \<Rightarrow> goal_ref \<Rightarrow> goal_context \<Rightarrow> goal_context \<times> (goal_error, goal_view) result" where
  "goal_pause call ref = goal_transition call ref OpPause [GoalActive] GoalPaused Disarmed"

definition goal_complete ::
    "goal_call \<Rightarrow> goal_ref \<Rightarrow> goal_context \<Rightarrow> goal_context \<times> (goal_error, goal_view) result" where
  "goal_complete call ref =
     goal_transition call ref OpComplete [GoalActive, GoalPaused, GoalBlocked] GoalComplete Disarmed"

definition goal_resume ::
    "goal_call \<Rightarrow> goal_ref \<Rightarrow> goal_context \<Rightarrow> goal_context \<times> (goal_error, goal_view) result" where
  "goal_resume call ref =
     bindS (prepare_mutation call) (\<lambda>c.
     bindS (liftS (expect_current c ref)) (\<lambda>current.
       if \<not> List.member [GoalActive, GoalPaused, GoalBlocked] (gs_phase current)
       then liftS (Inl (GoalError ''GOAL_INVALID_TRANSITION''))
       else if gs_phase current = GoalActive \<and> gk_activation c = Armed
       then liftS (Inl (GoalError ''GOAL_INVALID_TRANSITION''))
       else if gs_max_rounds current \<le> gf_rounds (gk_state c)
       then liftS (Inl (GoalError ''GOAL_INVALID_TRANSITION''))
       else commit_current call c OpResume (with_phase current GoalActive) Armed))"

definition goal_block ::
    "goal_call \<Rightarrow> goal_ref \<Rightarrow> string \<Rightarrow> string
      \<Rightarrow> goal_context \<Rightarrow> goal_context \<times> (goal_error, goal_view) result" where
  "goal_block call ref code msg =
     bindS (prepare_mutation call) (\<lambda>c.
     bindS (liftS (expect_current c ref)) (\<lambda>current.
       if gs_phase current \<noteq> GoalActive then liftS (Inl (GoalError ''GOAL_INVALID_TRANSITION''))
       else
         bindS (liftS (resolve_block_reason code msg)) (\<lambda>reason.
         commit_current call c OpBlock
           ((with_phase current GoalBlocked)\<lparr>gs_blocked := Some reason\<rparr>) Disarmed)))"

definition goal_clear ::
    "goal_call \<Rightarrow> goal_ref \<Rightarrow> goal_context \<Rightarrow> goal_context \<times> (goal_error, goal_ref) result" where
  "goal_clear call ref =
     bindS (prepare_mutation call) (\<lambda>c.
     bindS (liftS (expect_current c ref)) (\<lambda>current.
     bindS (liftS (next_mutation_time call c)) (\<lambda>t.
     (let tombstone = \<lparr>gr_id = gs_id current, gr_revision = gs_revision current + 1\<rparr> in
      bindS (commit call c (GoalClear tombstone t) Disarmed) (\<lambda>_. liftS (Inr tombstone))))))"

text \<open>The verbs of the service, for statements over any of them.\<close>

datatype goal_verb =
    VGet | VDisarm | VStart
  | VCreate string "int option"
  | VEdit goal_ref "string option" "int option"
  | VPause goal_ref | VResume goal_ref | VComplete goal_ref
  | VBlock goal_ref string string
  | VClear goal_ref

definition done_with :: "('s \<Rightarrow> 's \<times> ('e, 'a) result) \<Rightarrow> 's \<Rightarrow> 's \<times> ('e, unit) result" where
  "done_with m = bindS m (\<lambda>_. liftS (Inr ()))"

fun goal_exec :: "int \<Rightarrow> goal_call \<Rightarrow> goal_verb \<Rightarrow> goal_context \<Rightarrow> goal_context \<times> (goal_error, unit) result" where
  "goal_exec d call VGet = done_with (goal_get call)"
| "goal_exec d call VDisarm = done_with (goal_disarm call)"
| "goal_exec d call VStart = goal_session_start"
| "goal_exec d call (VCreate objective rounds) = done_with (goal_create d call objective rounds)"
| "goal_exec d call (VEdit ref objective rounds) = done_with (goal_edit call ref objective rounds)"
| "goal_exec d call (VPause ref) = done_with (goal_pause call ref)"
| "goal_exec d call (VResume ref) = done_with (goal_resume call ref)"
| "goal_exec d call (VComplete ref) = done_with (goal_complete call ref)"
| "goal_exec d call (VBlock ref code msg) = done_with (goal_block call ref code msg)"
| "goal_exec d call (VClear ref) = done_with (goal_clear call ref)"

subsection \<open>The projection\<close>

record goal_projection =
  gp_goal :: goal_snapshot
  gp_rounds :: int
  gp_created_at :: int
  gp_updated_at :: int

definition apply_goal_projection :: "goal_projection option \<Rightarrow> session_event \<Rightarrow> goal_projection option" where
  "apply_goal_projection st e =
     (case ev_data e of
        PluginEvent t payload \<Rightarrow>
          if t \<noteq> ''goal/change'' then st
          else (case decode_goal_change payload of
                  Inl _ \<Rightarrow> st
                | Inr None \<Rightarrow> st
                | Inr (Some (GoalClear _ _)) \<Rightarrow> None
                | Inr (Some (GoalSnapshotChange c)) \<Rightarrow>
                    Some \<lparr>gp_goal = gc_goal c, gp_rounds = gc_rounds c, gp_created_at = gc_created_at c,
                          gp_updated_at = gc_updated_at c\<rparr>)
      | _ \<Rightarrow> st)"

definition fold_goal_projection :: "session_event list \<Rightarrow> goal_projection option" where
  "fold_goal_projection es = foldl apply_goal_projection None es"

subsection \<open>The cache is the fold of what it has observed\<close>

definition armed_ok :: "goal_cache \<Rightarrow> bool" where
  "armed_ok c \<longleftrightarrow> (gk_activation c = Armed \<longrightarrow>
     (\<exists>g. gf_goal (gk_state c) = Some g \<and> gs_phase g = GoalActive))"

definition cache_inv :: "session_event list \<Rightarrow> goal_cache \<Rightarrow> bool" where
  "cache_inv log c \<longleftrightarrow> gk_observed c \<le> length log \<and>
     foldR apply_goal_event empty_goal_fold_state (take (gk_observed c) log) = Inr (gk_state c) \<and> armed_ok c"

definition gx_inv :: "goal_context \<Rightarrow> bool" where
  "gx_inv x \<longleftrightarrow> session_ok (gx_session x) \<and>
     (case gx_cache x of None \<Rightarrow> True
      | Some c \<Rightarrow> cache_inv (ss_log (gx_session x)) c \<and> gk_pending c = None)"

lemma cache_inv_grow: "cache_inv log c \<Longrightarrow> cache_inv (log @ es) c"
  by (simp add: cache_inv_def)

lemma apply_goal_event_other:
  assumes "apply_goal_event st e = Inr st'" and "ev_type e \<noteq> ''goal/change''"
  shows "gf_goal st' = gf_goal st"
proof (cases "ev_data e")
  case (UserMessage m)
  with assms(1) show ?thesis
    by (cases "decode_goal_source (msg_source m)")
      (auto simp: apply_goal_event_def split: option.splits elim!: admit_goal_round_Inr)
qed (use assms in \<open>auto simp: apply_goal_event_def split: if_splits\<close>)

text \<open>Observing without a pending intent: any foreign goal change disarms.\<close>

lemma sync_cache_inv:
  assumes "cache_inv log c" and "gk_pending c = None"
    and "sync_cache c (drop (gk_observed c) log) = (c', r)"
  shows "cache_inv log c' \<and> gk_pending c' = None \<and>
    (is_ok r \<longrightarrow> gk_observed c' = length log) \<and>
    (is_ok r \<longleftrightarrow> is_ok (foldR apply_goal_event empty_goal_fold_state log))"
  using assms
proof (induction "length log - gk_observed c" arbitrary: c)
  case 0
  then show ?case by (auto simp: cache_inv_def)
next
  case (Suc n)
  define k where "k = gk_observed c"
  have k: "k < length log" using Suc.hyps(2) by (simp add: k_def)
  then have drop: "drop k log = log ! k # drop (Suc k) log" and take: "take (Suc k) log = take k log @ [log ! k]"
    by (simp_all add: Cons_nth_drop_Suc take_Suc_conv_app_nth)
  have fold: "foldR apply_goal_event empty_goal_fold_state (take (Suc k) log) = apply_goal_event (gk_state c) (log ! k)"
    using Suc.prems(1) by (simp add: take foldR_snoc cache_inv_def k_def [symmetric])
  show ?case
  proof (cases "apply_goal_event (gk_state c) (log ! k)")
    case (Inl err)
    then have "c' = c" "\<not> is_ok r" using Suc.prems(3) drop by (auto simp: k_def [symmetric])
    moreover from fold Inl have "foldR apply_goal_event empty_goal_fold_state log = Inl err"
      using foldR_append [of apply_goal_event empty_goal_fold_state "take (Suc k) log" "drop (Suc k) log"] by simp
    ultimately show ?thesis using Suc.prems by simp
  next
    case (Inr st)
    define c1 where "c1 = c\<lparr>gk_state := st,
        gk_activation := (if ev_type (log ! k) = ''goal/change'' then Disarmed else gk_activation c),
        gk_observed := k + 1\<rparr>"
    have "sync_cache c1 (drop (gk_observed c1) log) = (c', r)"
      using Suc.prems(2,3) drop Inr
      by (cases "ev_type (log ! k) = ''goal/change''") (simp_all add: k_def [symmetric] c1_def)
    moreover have "armed_ok c1"
    proof (cases "ev_type (log ! k) = ''goal/change''")
      case False
      with apply_goal_event_other [OF Inr] Suc.prems(1) show ?thesis
        by (simp add: c1_def armed_ok_def cache_inv_def)
    qed (simp add: c1_def armed_ok_def)
    then have "cache_inv log c1" using fold Inr k by (simp add: cache_inv_def c1_def)
    moreover have "n = length log - gk_observed c1" using Suc.hyps(2) by (simp add: c1_def k_def)
    moreover have "gk_pending c1 = None" using Suc.prems(2) by (simp add: c1_def)
    ultimately show ?thesis using Suc.hyps(1) by blast
  qed
qed

text \<open>A cache that has observed the whole log.\<close>

definition caught_up :: "goal_context \<Rightarrow> goal_cache \<Rightarrow> bool" where
  "caught_up x c \<longleftrightarrow> gx_inv x \<and> gx_cache x = Some c \<and> gk_observed c = length (ss_log (gx_session x)) \<and>
     foldR apply_goal_event empty_goal_fold_state (ss_log (gx_session x)) = Inr (gk_state c) \<and>
     gk_pending c = None \<and> armed_ok c"

lemma caught_upI:
  assumes "gx_inv x" and "gx_cache x = Some c" and "gk_observed c = length (ss_log (gx_session x))"
  shows "caught_up x c"
  using assms by (auto simp: caught_up_def gx_inv_def cache_inv_def)

lemma load_cache_cases:
  assumes "gx_inv x" and "load_cache x = (x', r)"
  shows "gx_inv x' \<and> gx_session x' = gx_session x \<and> gx_emitted x' = gx_emitted x \<and>
    (\<forall>c. r = Inr c \<longrightarrow> gx_cache x' = Some c)"
  using assms
  by (auto simp: load_cache_def gx_inv_def cache_inv_def armed_ok_def Let_def split: option.splits sum.splits)

lemma sync_cases:
  assumes "gx_inv x" and "gx_cache x = Some c" and "sync c x = (x', r)"
  shows "gx_inv x' \<and> gx_session x' = gx_session x \<and> gx_emitted x' = gx_emitted x \<and>
    (\<forall>c'. r = Inr c' \<longrightarrow> caught_up x' c')"
proof -
  obtain c' r' where s: "sync_cache c (drop (gk_observed c) (ss_log (gx_session x))) = (c', r')" by (metis surj_pair)
  from sync_cache_inv [OF _ _ s] assms(1,2)
  have inv: "cache_inv (ss_log (gx_session x)) c'" "gk_pending c' = None"
      "is_ok r' \<longrightarrow> gk_observed c' = length (ss_log (gx_session x))"
    by (simp_all add: gx_inv_def)
  have "gx_inv (x\<lparr>gx_cache := Some c'\<rparr>)" using inv assms(1) by (simp add: gx_inv_def)
  moreover from this have "is_ok r' \<Longrightarrow> caught_up (x\<lparr>gx_cache := Some c'\<rparr>) c'"
    using inv(3) by (intro caught_upI) simp_all
  ultimately show ?thesis using assms(3) s by (cases r') (auto simp: sync_def)
qed

lemma prepare_mutation_cases:
  assumes "gx_inv x" and "prepare_mutation call x = (x', r)"
  shows "gx_inv x' \<and> gx_session x' = gx_session x \<and> gx_emitted x' = gx_emitted x \<and>
    (\<forall>c. r = Inr c \<longrightarrow> caught_up x' c \<and> go_live call)"
proof -
  obtain x1 r1 where l: "load_cache x = (x1, r1)" by (metis surj_pair)
  note load = load_cache_cases [OF assms(1) l]
  show ?thesis
  proof (cases "go_live call")
    case False
    with assms show ?thesis by (auto simp: prepare_mutation_def assert_live_def)
  next
    case True
    show ?thesis
    proof (cases r1)
      case (Inl e)
      with l True assms(2) load show ?thesis by (auto simp: prepare_mutation_def assert_live_def)
    next
      case (Inr c)
      with l True assms(2) have "sync c x1 = (x', r)" by (simp add: prepare_mutation_def assert_live_def)
      from sync_cases [OF _ _ this] load Inr True show ?thesis by simp
    qed
  qed
qed

text \<open>
  Committing a change the fold accepts: either the session is publishing and nothing but the
  error is left, or the change is the next event, the cache has it, and the activation is set.
\<close>

lemma view_of_fold:
  assumes "foldR apply_goal_event empty_goal_fold_state log = Inr (gk_state c)"
  shows "\<exists>v. view_of c = Inr v \<and> map_option gv_goal v = gf_goal (gk_state c) \<and>
    (\<forall>w. v = Some w \<longrightarrow> gv_activation w = gk_activation c \<and> gv_rounds w = gf_rounds (gk_state c))"
proof -
  have "goal_state_ok (gk_state c)"
    using goal_log.hist_fold [OF assms] by (simp add: goal_hist_def)
  then show ?thesis
    by (auto simp: view_of_def goal_state_ok_def split: option.splits)
qed

lemma goal_change_plain:
  "assert_supported_request_header (PluginEvent ''goal/change'' j) = Inr ()"
  "\<not> is_surface_eligible_type (data_type (PluginEvent ''goal/change'' j))"
  by (simp_all add: assert_supported_request_header_def is_surface_eligible_type_def surface_event_types_def)

definition committed ::
    "goal_call \<Rightarrow> goal_context \<Rightarrow> goal_change \<Rightarrow> goal_fold_state \<Rightarrow> goal_activation
      \<Rightarrow> goal_context \<Rightarrow> goal_cache \<Rightarrow> bool" where
  "committed call x change st' a x' c' \<longleftrightarrow>
     caught_up x' c' \<and> gk_state c' = st' \<and> gk_activation c' = a \<and>
     ss_log (gx_session x') = ss_log (gx_session x) @
       [\<lparr>ev_seq = int (length (ss_log (gx_session x))), ev_time = go_now call,
         ev_data = PluginEvent ''goal/change'' (encode_goal_change change), ev_ignorable = False,
         ev_surface_op = None, ev_sources = None\<rparr>]"

lemma commit_cases:
  assumes up: "caught_up x c" and ok: "change_ok change"
    and applied: "apply_goal_change (gk_state c) change = Inr st'"
    and armed: "a = Armed \<Longrightarrow> \<exists>g. gf_goal st' = Some g \<and> gs_phase g = GoalActive"
    and run: "commit call c change a x = (x', r)"
  shows "if go_gate call \<noteq> GateOpen
    then \<not> is_ok r \<and> gx_inv x' \<and> ss_log (gx_session x') = ss_log (gx_session x) \<and> gx_emitted x' = gx_emitted x
    else (\<exists>c'. r = Inr c' \<and> committed call x change st' a x' c') \<and>
      (\<exists>v. gx_emitted x' = gx_emitted x @
        [\<lparr>gn_operation = change_operation change, gn_ref = goal_change_ref change, gn_goal = v\<rparr>])"
proof -
  define s where "s = gx_session x"
  define n where "n = length (ss_log s)"
  define e where "e = \<lparr>ev_seq = int n, ev_time = go_now call,
         ev_data = PluginEvent ''goal/change'' (encode_goal_change change), ev_ignorable = False,
         ev_surface_op = None, ev_sources = None\<rparr>"
  define pending where "pending = c\<lparr>gk_pending := Some (int n, a)\<rparr>"
  from up have s: "session_ok s" and obs: "gk_observed c = n" and none: "gk_pending c = None"
      and fold: "foldR apply_goal_event empty_goal_fold_state (ss_log s) = Inr (gk_state c)"
      and cache: "cache_inv (ss_log s) c"
    by (auto simp: caught_up_def gx_inv_def s_def n_def)
  show ?thesis
  proof (cases "go_gate call \<noteq> GateOpen")
    case True
    obtain s' err where refused: "append_event s (go_gate call) (go_now call) (ev_data e) None None = (s', Inl err)"
        and s': "ss_log s' = ss_log s" "session_ok s'"
      using append_refused [OF s True] by blast
    then have app: "append_and_sync call c change a x =
        (x\<lparr>gx_session := s', gx_cache := Some pending\<rparr>, Inl (GoalThrow err))"
      by (simp add: append_and_sync_def Let_def s_def n_def e_def pending_def)
    have "x' = clear_pending (x\<lparr>gx_session := s', gx_cache := Some pending\<rparr>)" and "\<not> is_ok r"
      using run by (auto simp: commit_def app)
    moreover have "pending\<lparr>gk_pending := None\<rparr> = c" using none by (simp add: pending_def)
    ultimately show ?thesis using True s' none cache
      by (simp add: clear_pending_def gx_inv_def s_def)
  next
    case False
    obtain m where app: "append_event s GateOpen (go_now call) (ev_data e) None None =
        (s\<lparr>ss_surface := m, ss_log := ss_log s @ [e]\<rparr>, Inr e)"
      using append_plain [OF s goal_change_plain(1,2), of e "go_now call" "encode_goal_change change"]
      by (auto simp: e_def n_def)
    define s' where "s' = s\<lparr>ss_surface := m, ss_log := ss_log s @ [e]\<rparr>"
    have s': "session_ok s'" using append_event_ok [OF s] app unfolding s'_def by (metis fst_conv)
    have step: "apply_goal_event (gk_state c) e = Inr st'"
      using applied by (simp add: apply_goal_event_def e_def decode_encode_change [OF ok])
    define c1 where "c1 = pending\<lparr>gk_state := st', gk_activation := a, gk_observed := n + 1\<rparr>"
    have "sync pending (x\<lparr>gx_session := s'\<rparr>) = (x\<lparr>gx_session := s', gx_cache := Some c1\<rparr>, Inr c1)"
      using step obs by (simp add: sync_def s'_def n_def [symmetric] pending_def c1_def)
        (simp add: e_def)
    then have sync: "append_and_sync call c change a x = (x\<lparr>gx_session := s', gx_cache := Some c1\<rparr>, Inr c1)"
      using app False by (simp add: append_and_sync_def Let_def s_def [symmetric] n_def [symmetric]
          pending_def [symmetric] s'_def e_def)
    define c' where "c' = c1\<lparr>gk_pending := None\<rparr>"
    have fold': "foldR apply_goal_event empty_goal_fold_state (ss_log s') = Inr (gk_state c')"
      using fold step by (simp add: s'_def c'_def c1_def foldR_snoc)
    then obtain v where v: "view_of c' = Inr v" using view_of_fold by blast
    from run have x': "x' = (clear_pending (x\<lparr>gx_session := s', gx_cache := Some c1\<rparr>))
        \<lparr>gx_emitted := gx_emitted x @ [\<lparr>gn_operation = change_operation change,
            gn_ref = goal_change_ref change, gn_goal = v\<rparr>]\<rparr>" and r: "r = Inr c'"
      by (simp_all add: commit_def sync v c'_def [symmetric] Let_def)
    have "armed_ok c'" using armed by (auto simp: armed_ok_def c'_def c1_def)
    then have "gx_inv x'"
      using s' fold' by (simp add: x' gx_inv_def clear_pending_def c'_def [symmetric] cache_inv_def)
        (simp add: c'_def c1_def s'_def n_def)
    then have "caught_up x' c'"
      by (intro caught_upI) (simp_all add: x' clear_pending_def c'_def c1_def s'_def n_def)
    then have "committed call x change st' a x' c'"
      by (simp add: committed_def x' clear_pending_def c'_def c1_def s'_def s_def [symmetric] n_def e_def)
    with False r x' show ?thesis by auto
  qed
qed

subsection \<open>Every verb writes an accepted change or nothing\<close>

text \<open>
  The abstract contract of the service: how a verb may change the current goal of the log.
\<close>

inductive goal_step :: "goal_verb \<Rightarrow> goal_snapshot option \<Rightarrow> goal_snapshot option \<Rightarrow> bool" where
  step_create: "(\<forall>g. cur = Some g \<longrightarrow> gs_phase g = GoalComplete) \<Longrightarrow> gs_revision h = 1 \<Longrightarrow>
     gs_phase h = GoalActive \<Longrightarrow> gs_objective h = trim objective \<Longrightarrow>
     (\<forall>n. rounds = Some n \<longrightarrow> gs_max_rounds h = n) \<Longrightarrow> goal_step (VCreate objective rounds) cur (Some h)"
| step_edit: "snapshot_ref g = ref \<Longrightarrow> gs_id h = gs_id g \<Longrightarrow> gs_revision h = gs_revision g + 1 \<Longrightarrow>
     gs_phase h = gs_phase g \<Longrightarrow> gs_blocked h = gs_blocked g \<Longrightarrow>
     gs_objective h = (case objective of None \<Rightarrow> gs_objective g | Some s \<Rightarrow> trim s) \<Longrightarrow>
     gs_max_rounds h = (case rounds of None \<Rightarrow> gs_max_rounds g | Some n \<Rightarrow> n) \<Longrightarrow>
     goal_step (VEdit ref objective rounds) (Some g) (Some h)"
| step_pause: "snapshot_ref g = ref \<Longrightarrow> gs_phase g = GoalActive \<Longrightarrow>
     goal_step (VPause ref) (Some g) (Some (with_phase g GoalPaused))"
| step_resume: "snapshot_ref g = ref \<Longrightarrow> gs_phase g \<noteq> GoalComplete \<Longrightarrow>
     goal_step (VResume ref) (Some g) (Some (with_phase g GoalActive))"
| step_complete: "snapshot_ref g = ref \<Longrightarrow> gs_phase g \<noteq> GoalComplete \<Longrightarrow>
     goal_step (VComplete ref) (Some g) (Some (with_phase g GoalComplete))"
| step_block: "snapshot_ref g = ref \<Longrightarrow> gs_phase g = GoalActive \<Longrightarrow>
     goal_step (VBlock ref code msg) (Some g)
       (Some ((with_phase g GoalBlocked)\<lparr>gs_blocked := Some \<lparr>br_code = code, br_message = trim msg\<rparr>\<rparr>))"
| step_clear: "snapshot_ref g = ref \<Longrightarrow> goal_step (VClear ref) (Some g) None"

inductive_cases goal_step_PauseE: "goal_step (VPause ref) g h"
inductive_cases goal_step_ClearE: "goal_step (VClear ref) g h"
inductive_simps goal_step_none: "goal_step v None h"

definition verb_result ::
    "(goal_snapshot option \<Rightarrow> goal_snapshot option \<Rightarrow> bool) \<Rightarrow> goal_context \<Rightarrow> goal_context \<Rightarrow> bool \<Rightarrow> bool" where
  "verb_result R x x' ok \<longleftrightarrow> gx_inv x' \<and>
     (if ok then
        (\<exists>change e n st st'. ss_log (gx_session x') = ss_log (gx_session x) @ [e] \<and>
           ev_data e = PluginEvent ''goal/change'' (encode_goal_change change) \<and> change_ok change \<and>
           foldR apply_goal_event empty_goal_fold_state (ss_log (gx_session x)) = Inr st \<and>
           foldR apply_goal_event empty_goal_fold_state (ss_log (gx_session x')) = Inr st' \<and>
           R (gf_goal st) (gf_goal st') \<and>
           gx_emitted x' = gx_emitted x @ [n] \<and> gn_ref n = goal_change_ref change)
      else ss_log (gx_session x') = ss_log (gx_session x) \<and> gx_emitted x' = gx_emitted x)"

lemma verb_resultI:
  "gx_inv x' \<Longrightarrow> gx_session x' = gx_session x \<Longrightarrow> gx_emitted x' = gx_emitted x \<Longrightarrow> verb_result R x x' False"
  by (simp add: verb_result_def)

lemma verb_result_cong:
  "verb_result R x1 x' ok \<Longrightarrow> gx_session x1 = gx_session x \<Longrightarrow> gx_emitted x1 = gx_emitted x \<Longrightarrow> verb_result R x x' ok"
  by (cases ok) (simp_all only: verb_result_def if_True if_False simp_thms)

lemma verb_resultI_done:
  assumes "gx_inv x'" and "ss_log (gx_session x') = ss_log (gx_session x) @ [e]"
    and "ev_data e = PluginEvent ''goal/change'' (encode_goal_change change)" and "change_ok change"
    and "foldR apply_goal_event empty_goal_fold_state (ss_log (gx_session x)) = Inr st"
    and "foldR apply_goal_event empty_goal_fold_state (ss_log (gx_session x')) = Inr st'"
    and "R (gf_goal st) (gf_goal st')"
    and "gx_emitted x' = gx_emitted x @ [n]" and "gn_ref n = goal_change_ref change"
  shows "verb_result R x x' True"
  unfolding verb_result_def if_True using assms by blast

text \<open>
  What a mutation needs of its environment: a clock within the safe integers, an id never used
  before, and a revision that can still be advanced.
\<close>

definition call_ready :: "goal_call \<Rightarrow> goal_context \<Rightarrow> bool" where
  "call_ready call x \<longleftrightarrow> is_event_seq (go_now call) \<and>
     (case foldR apply_goal_event empty_goal_fold_state (ss_log (gx_session x)) of
        Inl _ \<Rightarrow> True
      | Inr st \<Rightarrow> ''goal-'' @ go_uuid call \<notin> gf_seen st \<and>
          (case gf_goal st of None \<Rightarrow> True | Some g \<Rightarrow> gs_revision g < max_safe))"

lemma committed_result:
  assumes "commit call c change a x = (x', r)" and "caught_up x c" and "change_ok change"
    and "apply_goal_change (gk_state c) change = Inr st'"
    and "a = Armed \<Longrightarrow> \<exists>g. gf_goal st' = Some g \<and> gs_phase g = GoalActive"
    and "R (gf_goal (gk_state c)) (gf_goal st')"
  shows "verb_result R x x' (is_ok r) \<and>
    (\<forall>c'. r = Inr c' \<longrightarrow> caught_up x' c' \<and> gk_state c' = st' \<and> gk_activation c' = a)"
proof -
  note cases = commit_cases [OF assms(2-5,1)]
  show ?thesis
  proof (cases "go_gate call \<noteq> GateOpen")
    case True
    with cases show ?thesis by (auto simp: verb_result_def)
  next
    case False
    with cases obtain c' v where r: "r = Inr c'" and com: "committed call x change st' a x' c'"
        and em: "gx_emitted x' = gx_emitted x @ [\<lparr>gn_operation = change_operation change,
            gn_ref = goal_change_ref change, gn_goal = v\<rparr>]" by auto
    from com have up: "caught_up x' c'" "gk_state c' = st'" "gk_activation c' = a" by (simp_all add: committed_def)
    have "verb_result R x x' True"
    proof (rule verb_resultI_done)
      show "gx_inv x'" "foldR apply_goal_event empty_goal_fold_state (ss_log (gx_session x')) = Inr st'"
        using up by (simp_all add: caught_up_def)
      show "foldR apply_goal_event empty_goal_fold_state (ss_log (gx_session x)) = Inr (gk_state c)"
        using assms(2) by (simp add: caught_up_def)
      show "change_ok change" "R (gf_goal (gk_state c)) (gf_goal st')" by fact+
      show "gx_emitted x' = gx_emitted x @ [\<lparr>gn_operation = change_operation change,
            gn_ref = goal_change_ref change, gn_goal = v\<rparr>]" by (fact em)
      show "ss_log (gx_session x') = ss_log (gx_session x) @
         [\<lparr>ev_seq = int (length (ss_log (gx_session x))), ev_time = go_now call,
           ev_data = PluginEvent ''goal/change'' (encode_goal_change change), ev_ignorable = False,
           ev_surface_op = None, ev_sources = None\<rparr>]"
        using com by (simp only: committed_def)
    qed simp_all
    with r up show ?thesis by simp
  qed
qed

lemma commit_snapshot_result:
  assumes up: "caught_up x c" and ok: "change_ok (GoalSnapshotChange ch)"
    and applied: "apply_goal_change (gk_state c) (GoalSnapshotChange ch) = Inr st'"
    and armed: "a = Armed \<Longrightarrow> gs_phase (gc_goal ch) = GoalActive"
    and R: "R (gf_goal (gk_state c)) (Some (gc_goal ch))"
    and run: "commit_snapshot call c ch a x = (x', r)"
  shows "verb_result R x x' (is_ok r)"
proof -
  obtain x1 r1 where com: "commit call c (GoalSnapshotChange ch) a x = (x1, r1)" by (metis surj_pair)
  have goal: "gf_goal st' = Some (gc_goal ch)"
    using applied by (auto simp: apply_goal_change_def result_simps)
  with armed have "a = Armed \<Longrightarrow> \<exists>g. gf_goal st' = Some g \<and> gs_phase g = GoalActive" by simp
  note result = committed_result [OF com up ok applied this, of R]
  show ?thesis
  proof (cases r1)
    case (Inl err)
    with com run have "x' = x1" "r = Inl err" by (auto simp: commit_snapshot_def)
    with result Inl R goal show ?thesis by simp
  next
    case (Inr c')
    have ok1: "verb_result R x x1 True" and up1: "caught_up x1 c'" and "gf_goal (gk_state c') = Some (gc_goal ch)"
      using result R goal Inr by simp_all
    moreover from up1 have "foldR apply_goal_event empty_goal_fold_state (ss_log (gx_session x1)) = Inr (gk_state c')"
      by (simp add: caught_up_def)
    ultimately obtain w where "view_of c' = Inr (Some w)" using view_of_fold by fastforce
    with Inr com run have "x' = x1" "r = Inr w" by (simp_all add: commit_snapshot_def liftS_def)
    with ok1 show ?thesis by simp
  qed
qed

lemma caught_up_state:
  assumes "caught_up x c"
  shows "goal_state_ok (gk_state c)"
  using assms goal_log.hist_fold [of "ss_log (gx_session x)" "gk_state c"]
  by (simp add: caught_up_def goal_hist_def)

lemma max_event_seq: "is_event_seq a \<Longrightarrow> is_event_seq b \<Longrightarrow> is_event_seq (max a b)"
  by (simp add: max_def)

text \<open>A mutation of the current goal: a valid next snapshot, with counters and times preserved.\<close>

lemma commit_current_result:
  assumes up: "caught_up x c" and ready: "is_event_seq (go_now call)"
    and cur: "gf_goal (gk_state c) = Some current"
    and snap: "snapshot_ok goal" "gs_id goal = gs_id current" "gs_revision goal = gs_revision current + 1"
    and allowed: "transition_allowed operation current goal (gf_rounds (gk_state c))"
    and armed: "a = Armed \<Longrightarrow> gs_phase goal = GoalActive"
    and R: "R (Some current) (Some goal)"
    and run: "commit_current call c operation goal a x = (x', r)"
  shows "verb_result R x x' (is_ok r)"
proof -
  from caught_up_state [OF up] cur obtain created updated where
      times: "gf_created (gk_state c) = Some created" "gf_updated (gk_state c) = Some updated"
        "is_event_seq created" "is_event_seq updated" "created \<le> updated" "is_event_seq (gf_rounds (gk_state c))"
    by (auto simp: goal_state_ok_def)
  define ch where "ch = \<lparr>gc_operation = operation, gc_goal = goal, gc_rounds = gf_rounds (gk_state c),
      gc_created_at = created, gc_updated_at = max (go_now call) updated\<rparr>"
  have "operation \<noteq> OpCreate" using allowed by auto
  moreover have "validate_snapshot_transition (gk_state c) ch current = Inr ()"
    using snap allowed times by (simp add: validate_snapshot_transition_iff ch_def)
  ultimately obtain st' where "apply_goal_change (gk_state c) (GoalSnapshotChange ch) = Inr st'"
    using cur by (simp add: apply_goal_change_def ch_def)
  moreover have "change_ok (GoalSnapshotChange ch)"
    using snap times ready by (simp add: ch_def max_event_seq)
  moreover have "commit_snapshot call c ch a x = (x', r)"
    using run times by (simp add: commit_current_def next_mutation_time_def ch_def)
  ultimately show ?thesis
    using up armed R cur by (intro commit_snapshot_result [of x c ch st']) (simp_all add: ch_def)
qed

text \<open>The common start of every verb: liveness, the cache, and the rest of the log.\<close>

lemma prepare_bind:
  assumes inv: "gx_inv x" and ready: "call_ready call x"
    and run: "bindS (prepare_mutation call) K x = (x', r)"
    and rest: "\<And>x1 c. caught_up x1 c \<Longrightarrow> call_ready call x1 \<Longrightarrow> K c x1 = (x', r) \<Longrightarrow> verb_result R x1 x' ok"
    and fail: "\<not> is_ok r \<Longrightarrow> \<not> ok"
  shows "verb_result R x x' ok"
proof -
  obtain x1 r1 where p: "prepare_mutation call x = (x1, r1)" by (metis surj_pair)
  note cases = prepare_mutation_cases [OF inv p]
  show ?thesis
  proof (cases r1)
    case (Inl err)
    with p run have "x' = x1" "r = Inl err" by auto
    with cases fail show ?thesis by (auto intro: verb_resultI)
  next
    case (Inr c)
    with cases have "caught_up x1 c" "gx_session x1 = gx_session x" "gx_emitted x1 = gx_emitted x" by auto
    moreover have "K c x1 = (x', r)" using Inr p run by simp
    moreover have "call_ready call x1" using ready calculation(2) by (simp add: call_ready_def)
    ultimately show ?thesis using rest by (blast intro: verb_result_cong)
  qed
qed

lemma expect_current_Inr:
  "expect_current c ref = Inr g \<longleftrightarrow> gf_goal (gk_state c) = Some g \<and> snapshot_ref g = ref"
  by (cases ref) (auto simp: expect_current_def snapshot_ref_def result_simps split: option.splits)

text \<open>What the checked inputs satisfy.\<close>

lemma resolve_objective_Inr: "resolve_objective s = Inr t \<Longrightarrow> t = trim s \<and> normalized t"
  by (auto simp: resolve_objective_def normalized_def result_simps)

lemma resolve_max_goal_rounds_Inr: "resolve_max_goal_rounds n = Inr m \<Longrightarrow> m = n \<and> positive_safe n"
  by (auto simp: resolve_max_goal_rounds_def positive_safe_def result_simps)

lemma resolve_block_reason_Inr:
  "resolve_block_reason code msg = Inr r \<Longrightarrow> r = \<lparr>br_code = code, br_message = trim msg\<rparr> \<and> reason_ok r"
  by (auto simp: resolve_block_reason_def normalized_def reason_ok_def result_simps)

lemma bindS_liftS_cases:
  assumes "bindS (liftS q) f x = (x', r)"
  obtains (err) e where "q = Inl e" and "x' = x" and "r = Inl e"
  | (val) y where "q = Inr y" and "f y x = (x', r)"
  using assms by (cases q) auto

lemma verb_result_error:
  assumes "caught_up x c" and "x' = x"
  shows "verb_result R x x' False"
  using assms by (simp add: verb_resultI caught_up_def)

lemma ready_next:
  assumes "call_ready call x" and "caught_up x c" and "gf_goal (gk_state c) = Some g"
  shows "is_event_seq (go_now call)" and "positive_safe (gs_revision g + 1)" and "snapshot_ok g"
    and "gs_id g \<noteq> []"
proof -
  show "is_event_seq (go_now call)" using assms(1) by (simp add: call_ready_def)
  show snap: "snapshot_ok g" using caught_up_state [OF assms(2)] assms(3) by (simp add: goal_state_ok_def)
  moreover have "gs_revision g < max_safe"
    using assms by (simp add: call_ready_def caught_up_def)
  ultimately show "positive_safe (gs_revision g + 1)" "gs_id g \<noteq> []"
    by (auto simp: snapshot_ok_def positive_safe_def is_safe_def)
qed

lemma with_phase_ok:
  "snapshot_ok g \<Longrightarrow> positive_safe (gs_revision g + 1) \<Longrightarrow> p \<noteq> GoalBlocked \<Longrightarrow> snapshot_ok (with_phase g p)"
  by (simp add: snapshot_ok_def with_phase_def)

lemma same_definition_with_phase [simp]: "same_definition g (with_phase g p)"
  "gs_phase (with_phase g p) = p" "gs_id (with_phase g p) = gs_id g"
  "gs_revision (with_phase g p) = gs_revision g + 1" "gs_max_rounds (with_phase g p) = gs_max_rounds g"
  "gs_objective (with_phase g p) = gs_objective g"
  by (simp_all add: same_definition_def with_phase_def)

text \<open>Pause and complete share the guarded transition.\<close>

lemma goal_transition_result:
  assumes inv: "gx_inv x" and ready: "call_ready call x" and p: "p \<noteq> GoalBlocked" "a = Armed \<Longrightarrow> p = GoalActive"
    and allowed: "\<And>g n. List.member ps (gs_phase g) \<Longrightarrow> transition_allowed operation g (with_phase g p) n"
    and R: "\<And>g. List.member ps (gs_phase g) \<Longrightarrow> snapshot_ref g = ref \<Longrightarrow> R (Some g) (Some (with_phase g p))"
    and run: "goal_transition call ref operation ps p a x = (x', r)"
  shows "verb_result R x x' (is_ok r)"
proof (rule prepare_bind [OF inv ready run [unfolded goal_transition_def]])
  fix x1 c
  assume up: "caught_up x1 c" and ready1: "call_ready call x1"
    and k: "bindS (liftS (expect_current c ref)) (\<lambda>current.
        if \<not> List.member ps (gs_phase current) then liftS (Inl (GoalError ''GOAL_INVALID_TRANSITION''))
        else commit_current call c operation (with_phase current p) a) x1 = (x', r)"
  from k show "verb_result R x1 x' (is_ok r)"
  proof (cases rule: bindS_liftS_cases)
    case (err e)
    with up show ?thesis by (auto intro: verb_result_error)
  next
    case (val g)
    then have cur: "gf_goal (gk_state c) = Some g" "snapshot_ref g = ref" by (simp_all add: expect_current_Inr)
    note next_ok = ready_next [OF ready1 up cur(1)]
    show ?thesis
    proof (cases "List.member ps (gs_phase g)")
      case False
      with val up show ?thesis by (auto simp: liftS_def intro: verb_result_error)
    next
      case True
      show ?thesis
        by (rule commit_current_result [OF up next_ok(1) cur(1)])
          (use True val next_ok p allowed R cur(2) in \<open>simp_all add: with_phase_ok\<close>)
    qed
  qed
qed simp

lemma goal_pause_result:
  "gx_inv x \<Longrightarrow> call_ready call x \<Longrightarrow> goal_pause call ref x = (x', r) \<Longrightarrow>
   verb_result (goal_step (VPause ref)) x x' (is_ok r)"
  unfolding goal_pause_def by (erule (1) goal_transition_result) (auto intro: step_pause)

lemma goal_complete_result:
  "gx_inv x \<Longrightarrow> call_ready call x \<Longrightarrow> goal_complete call ref x = (x', r) \<Longrightarrow>
   verb_result (goal_step (VComplete ref)) x x' (is_ok r)"
  unfolding goal_complete_def
  by (erule (1) goal_transition_result) (auto simp: resumable_phases intro: step_complete)

lemma goal_resume_result:
  assumes inv: "gx_inv x" and ready: "call_ready call x" and run: "goal_resume call ref x = (x', r)"
  shows "verb_result (goal_step (VResume ref)) x x' (is_ok r)"
proof (rule prepare_bind [OF inv ready run [unfolded goal_resume_def]])
  fix x1 c
  assume up: "caught_up x1 c" and ready1: "call_ready call x1"
    and k: "bindS (liftS (expect_current c ref)) (\<lambda>current.
       if \<not> List.member [GoalActive, GoalPaused, GoalBlocked] (gs_phase current)
       then liftS (Inl (GoalError ''GOAL_INVALID_TRANSITION''))
       else if gs_phase current = GoalActive \<and> gk_activation c = Armed
       then liftS (Inl (GoalError ''GOAL_INVALID_TRANSITION''))
       else if gs_max_rounds current \<le> gf_rounds (gk_state c)
       then liftS (Inl (GoalError ''GOAL_INVALID_TRANSITION''))
       else commit_current call c OpResume (with_phase current GoalActive) Armed) x1 = (x', r)"
  from k show "verb_result (goal_step (VResume ref)) x1 x' (is_ok r)"
  proof (cases rule: bindS_liftS_cases)
    case (err e)
    with up show ?thesis by (auto intro: verb_result_error)
  next
    case (val g)
    then have cur: "gf_goal (gk_state c) = Some g" "snapshot_ref g = ref" by (simp_all add: expect_current_Inr)
    note next_ok = ready_next [OF ready1 up cur(1)]
    show ?thesis
    proof (cases "\<not> List.member [GoalActive, GoalPaused, GoalBlocked] (gs_phase g) \<or>
        (gs_phase g = GoalActive \<and> gk_activation c = Armed) \<or> gs_max_rounds g \<le> gf_rounds (gk_state c)")
      case True
      with val up show ?thesis by (auto simp: liftS_def intro: verb_result_error split: if_splits)
    next
      case False
      then have "commit_current call c OpResume (with_phase g GoalActive) Armed x1 = (x', r)"
        using val by auto
      then show ?thesis
        by (rule commit_current_result [OF up next_ok(1) cur(1), rotated -1])
          (use False next_ok in \<open>auto simp: with_phase_ok resumable_phases cur(2) intro: step_resume\<close>)
    qed
  qed
qed simp

lemma goal_block_result:
  assumes inv: "gx_inv x" and ready: "call_ready call x" and run: "goal_block call ref code msg x = (x', r)"
  shows "verb_result (goal_step (VBlock ref code msg)) x x' (is_ok r)"
proof (rule prepare_bind [OF inv ready run [unfolded goal_block_def]])
  fix x1 c
  assume up: "caught_up x1 c" and ready1: "call_ready call x1"
    and k: "bindS (liftS (expect_current c ref)) (\<lambda>current.
       if gs_phase current \<noteq> GoalActive then liftS (Inl (GoalError ''GOAL_INVALID_TRANSITION''))
       else
         bindS (liftS (resolve_block_reason code msg)) (\<lambda>reason.
         commit_current call c OpBlock
           ((with_phase current GoalBlocked)\<lparr>gs_blocked := Some reason\<rparr>) Disarmed)) x1 = (x', r)"
  from k show "verb_result (goal_step (VBlock ref code msg)) x1 x' (is_ok r)"
  proof (cases rule: bindS_liftS_cases)
    case (err e)
    with up show ?thesis by (auto intro: verb_result_error)
  next
    case (val g)
    then have cur: "gf_goal (gk_state c) = Some g" "snapshot_ref g = ref" by (simp_all add: expect_current_Inr)
    note next_ok = ready_next [OF ready1 up cur(1)]
    show ?thesis
    proof (cases "gs_phase g = GoalActive \<and> is_ok (resolve_block_reason code msg)")
      case False
      with val up show ?thesis
        by (cases "resolve_block_reason code msg") (auto simp: liftS_def intro: verb_result_error split: if_splits)
    next
      case True
      then obtain reason where reason: "resolve_block_reason code msg = Inr reason"
        by (cases "resolve_block_reason code msg") auto
      with True val have "commit_current call c OpBlock
          ((with_phase g GoalBlocked)\<lparr>gs_blocked := Some reason\<rparr>) Disarmed x1 = (x', r)" by simp
      moreover have "snapshot_ok ((with_phase g GoalBlocked)\<lparr>gs_blocked := Some reason\<rparr>)"
        using next_ok resolve_block_reason_Inr [OF reason] by (auto simp: snapshot_ok_def with_phase_def)
      moreover have "goal_step (VBlock ref code msg) (Some g)
          (Some ((with_phase g GoalBlocked)\<lparr>gs_blocked := Some reason\<rparr>))"
        using True cur(2) resolve_block_reason_Inr [OF reason] by (auto intro: step_block)
      ultimately show ?thesis
        using True by (intro commit_current_result [OF up next_ok(1) cur(1)]) (simp_all add: same_definition_def)
    qed
  qed
qed simp

lemma goal_edit_result:
  assumes inv: "gx_inv x" and ready: "call_ready call x" and run: "goal_edit call ref objective rounds x = (x', r)"
  shows "verb_result (goal_step (VEdit ref objective rounds)) x x' (is_ok r)"
proof (rule prepare_bind [OF inv ready run [unfolded goal_edit_def]])
  fix x1 c
  define check_o where "check_o g = (case objective of None \<Rightarrow> Inr (gs_objective g) | Some s \<Rightarrow> resolve_objective s)"
    for g :: goal_snapshot
  define check_n where "check_n g = (case rounds of None \<Rightarrow> Inr (gs_max_rounds g) | Some n \<Rightarrow> resolve_max_goal_rounds n)"
    for g :: goal_snapshot
  assume up: "caught_up x1 c" and ready1: "call_ready call x1"
    and "bindS (liftS (expect_current c ref)) (\<lambda>current.
       if objective = None \<and> rounds = None then liftS (Inl (GoalError ''GOAL_INVALID_EDIT''))
       else
         bindS (liftS (case objective of None \<Rightarrow> Inr (gs_objective current) | Some s \<Rightarrow> resolve_objective s)) (\<lambda>o'.
         bindS (liftS (case rounds of None \<Rightarrow> Inr (gs_max_rounds current) | Some n \<Rightarrow> resolve_max_goal_rounds n)) (\<lambda>n.
         commit_current call c OpEdit
           (current\<lparr>gs_revision := gs_revision current + 1, gs_objective := o', gs_max_rounds := n\<rparr>)
           (gk_activation c)))) x1 = (x', r)"
  then have k: "bindS (liftS (expect_current c ref)) (\<lambda>g.
       if objective = None \<and> rounds = None then liftS (Inl (GoalError ''GOAL_INVALID_EDIT''))
       else bindS (liftS (check_o g)) (\<lambda>o'. bindS (liftS (check_n g)) (\<lambda>n.
         commit_current call c OpEdit
           (g\<lparr>gs_revision := gs_revision g + 1, gs_objective := o', gs_max_rounds := n\<rparr>)
           (gk_activation c)))) x1 = (x', r)"
    by (simp only: check_o_def check_n_def)
  from k show "verb_result (goal_step (VEdit ref objective rounds)) x1 x' (is_ok r)"
  proof (cases rule: bindS_liftS_cases)
    case (err e)
    with up show ?thesis by (auto intro: verb_result_error)
  next
    case (val g)
    then have cur: "gf_goal (gk_state c) = Some g" "snapshot_ref g = ref" by (simp_all add: expect_current_Inr)
    note next_ok = ready_next [OF ready1 up cur(1)]
    show ?thesis
    proof (cases "(objective \<noteq> None \<or> rounds \<noteq> None) \<and> is_ok (check_o g) \<and> is_ok (check_n g)")
      case False
      with val up show ?thesis
        by (cases "check_o g"; cases "check_n g") (auto simp: liftS_def intro: verb_result_error split: if_splits)
    next
      case True
      then obtain t n where t: "check_o g = Inr t" and n: "check_n g = Inr n"
        by (cases "check_o g"; cases "check_n g") auto
      define h where "h = g\<lparr>gs_revision := gs_revision g + 1, gs_objective := t, gs_max_rounds := n\<rparr>"
      have "commit_current call c OpEdit h (gk_activation c) x1 = (x', r)"
        using True val t n by (auto simp: h_def)
      moreover have "normalized t" "t = (case objective of None \<Rightarrow> gs_objective g | Some s \<Rightarrow> trim s)"
        using t next_ok(3) by (auto simp: check_o_def snapshot_ok_def dest: resolve_objective_Inr split: option.splits)
      moreover have "positive_safe n" "n = (case rounds of None \<Rightarrow> gs_max_rounds g | Some m \<Rightarrow> m)"
        using n next_ok(3) by (auto simp: check_n_def snapshot_ok_def dest: resolve_max_goal_rounds_Inr split: option.splits)
      moreover have "gk_activation c = Armed \<Longrightarrow> gs_phase g = GoalActive"
        using up cur(1) by (auto simp: caught_up_def armed_ok_def)
      ultimately show ?thesis
        using next_ok cur(2)
        by (intro commit_current_result [OF up next_ok(1) cur(1)])
          (auto simp: h_def snapshot_ok_def split: option.splits intro!: step_edit)
    qed
  qed
qed simp

lemma goal_clear_result:
  assumes inv: "gx_inv x" and ready: "call_ready call x" and run: "goal_clear call ref x = (x', r)"
  shows "verb_result (goal_step (VClear ref)) x x' (is_ok r)"
proof (rule prepare_bind [OF inv ready run [unfolded goal_clear_def]])
  fix x1 c
  assume up: "caught_up x1 c" and ready1: "call_ready call x1"
    and k: "bindS (liftS (expect_current c ref)) (\<lambda>current.
       bindS (liftS (next_mutation_time call c)) (\<lambda>t.
       (let tombstone = \<lparr>gr_id = gs_id current, gr_revision = gs_revision current + 1\<rparr> in
        bindS (commit call c (GoalClear tombstone t) Disarmed) (\<lambda>_. liftS (Inr tombstone))))) x1 = (x', r)"
  from k show "verb_result (goal_step (VClear ref)) x1 x' (is_ok r)"
  proof (cases rule: bindS_liftS_cases)
    case (err e)
    with up show ?thesis by (auto intro: verb_result_error)
  next
    case (val g)
    then have cur: "gf_goal (gk_state c) = Some g" "snapshot_ref g = ref" by (simp_all add: expect_current_Inr)
    note next_ok = ready_next [OF ready1 up cur(1)]
    from caught_up_state [OF up] cur obtain updated where
        updated: "gf_updated (gk_state c) = Some updated" "is_event_seq updated"
      by (auto simp: goal_state_ok_def)
    define change where "change = GoalClear \<lparr>gr_id = gs_id g, gr_revision = gs_revision g + 1\<rparr> (max (go_now call) updated)"
    obtain x2 r2 where com: "commit call c change Disarmed x1 = (x2, r2)" by (metis surj_pair)
    have "change_ok change" using next_ok updated by (simp add: change_def max_event_seq)
    moreover obtain st' where "apply_goal_change (gk_state c) change = Inr st'" "gf_goal st' = None"
      using cur updated by (simp add: change_def apply_goal_change_def require_next_revision_def)
    moreover have "goal_step (VClear ref) (Some g) None" using cur(2) by (rule step_clear)
    ultimately have "verb_result (goal_step (VClear ref)) x1 x2 (is_ok r2)"
      using committed_result [OF com up, of st' "goal_step (VClear ref)"] cur(1) by simp
    moreover have "bindS (commit call c change Disarmed)
        (\<lambda>_. liftS (Inr \<lparr>gr_id = gs_id g, gr_revision = gs_revision g + 1\<rparr>)) x1 = (x', r)"
      using val updated by (simp add: next_mutation_time_def change_def Let_def)
    with com have "x2 = x' \<and> is_ok r2 = is_ok r"
      by (cases r2) (auto simp: liftS_def)
    ultimately show ?thesis by simp
  qed
qed simp

lemma resolve_create_goal_Inr:
  assumes "resolve_create_goal objective rounds d = Inr (t, n)"
  shows "t = trim objective" and "normalized t" and "positive_safe n" and "rounds = Some m \<Longrightarrow> n = m"
  using assms
  by (auto simp: resolve_create_goal_def result_simps
      dest!: resolve_objective_Inr resolve_max_goal_rounds_Inr split: option.splits)

lemma goal_create_result:
  assumes inv: "gx_inv x" and ready: "call_ready call x" and run: "goal_create d call objective rounds x = (x', r)"
  shows "verb_result (goal_step (VCreate objective rounds)) x x' (is_ok r)"
proof (cases "resolve_create_goal objective rounds d")
  case (Inl err)
  with run have "x' = x" "\<not> is_ok r" by (auto simp: goal_create_def)
  with inv show ?thesis by (simp add: verb_resultI)
next
  case (Inr tn)
  obtain t n where tn: "tn = (t, n)" by force
  note input = resolve_create_goal_Inr [OF Inr [unfolded tn]]
  define ch where "ch = \<lparr>gc_operation = OpCreate,
     gc_goal = \<lparr>gs_id = ''goal-'' @ go_uuid call, gs_revision = 1, gs_objective = t,
       gs_phase = GoalActive, gs_blocked = None, gs_max_rounds = n\<rparr>,
     gc_rounds = 0, gc_created_at = go_now call, gc_updated_at = go_now call\<rparr>"
  define busy_goal where "busy_goal c = (case gf_goal (gk_state c) of None \<Rightarrow> False | Some g \<Rightarrow> gs_phase g \<noteq> GoalComplete)"
    for c :: goal_cache
  have "bindS (prepare_mutation call) (\<lambda>c.
      if busy_goal c then liftS (Inl (GoalError ''GOAL_ALREADY_EXISTS''))
      else commit_snapshot call c ch Armed) x = (x', r)"
    using run by (simp add: goal_create_def Inr tn busy_goal_def ch_def cong: if_cong)
  then show ?thesis
  proof (rule prepare_bind [OF inv ready])
    fix x1 c
    assume up: "caught_up x1 c" and ready1: "call_ready call x1"
      and k: "(if busy_goal c then liftS (Inl (GoalError ''GOAL_ALREADY_EXISTS''))
        else commit_snapshot call c ch Armed) x1 = (x', r)"
    show "verb_result (goal_step (VCreate objective rounds)) x1 x' (is_ok r)"
    proof (cases "busy_goal c")
      case True
      with k up show ?thesis by (auto simp: liftS_def intro: verb_result_error)
    next
      case False
      have fresh: "''goal-'' @ go_uuid call \<notin> gf_seen (gk_state c)" and now: "is_event_seq (go_now call)"
        using up ready1 by (simp_all add: call_ready_def caught_up_def)
      have "change_ok (GoalSnapshotChange ch)"
        using input now
        by (simp add: ch_def snapshot_ok_def)
          (simp add: positive_safe_def is_event_seq_def is_safe_def max_safe_def)
      moreover obtain st' where "apply_goal_change (gk_state c) (GoalSnapshotChange ch) = Inr st'"
        using fresh False by (simp add: apply_goal_change_def ch_def busy_goal_def)
      moreover have "goal_step (VCreate objective rounds) (gf_goal (gk_state c)) (Some (gc_goal ch))"
        using False input by (auto simp: busy_goal_def ch_def intro!: step_create)
      ultimately show ?thesis
        using False k by (intro commit_snapshot_result [OF up]) (simp_all add: ch_def)
    qed
  qed simp
qed

text \<open>Reading, disarming and a session start leave the log alone.\<close>

lemma goal_get_result:
  assumes inv: "gx_inv x" and run: "goal_get call x = (x', r)"
  shows "gx_inv x' \<and> gx_session x' = gx_session x \<and> gx_emitted x' = gx_emitted x \<and>
    (\<forall>v. r = Inr v \<longrightarrow> go_live call \<and> (\<exists>c. caught_up x' c \<and> view_of c = Inr v))"
proof -
  obtain x1 r1 where p: "prepare_mutation call x = (x1, r1)" by (metis surj_pair)
  from prepare_mutation_cases [OF inv p] p run show ?thesis
    by (cases r1) (auto simp: goal_get_def liftS_def)
qed

lemma goal_disarm_result:
  assumes inv: "gx_inv x" and run: "goal_disarm call x = (x', r)"
  shows "gx_inv x' \<and> gx_session x' = gx_session x \<and> gx_emitted x' = gx_emitted x"
proof -
  obtain x1 r1 where p: "prepare_mutation call x = (x1, r1)" by (metis surj_pair)
  note cases = prepare_mutation_cases [OF inv p]
  show ?thesis
  proof (cases r1)
    case (Inl err)
    with cases p run show ?thesis by (auto simp: goal_disarm_def)
  next
    case (Inr c)
    with cases have up: "caught_up x1 c" by simp
    from Inr p run have "x' = x1\<lparr>gx_cache := Some (c\<lparr>gk_activation := Disarmed\<rparr>)\<rparr>"
      by (simp add: goal_disarm_def Let_def)
    with up cases show ?thesis by (simp add: caught_up_def gx_inv_def cache_inv_def armed_ok_def)
  qed
qed

lemma goal_session_start_result:
  assumes inv: "gx_inv x" and run: "goal_session_start x = (x', r)"
  shows "gx_inv x' \<and> gx_session x' = gx_session x \<and> gx_emitted x' = gx_emitted x"
proof -
  obtain x1 r1 where p: "load_cache x = (x1, r1)" by (metis surj_pair)
  from load_cache_cases [OF inv p] p run show ?thesis
    by (cases r1) (auto simp: goal_session_start_def gx_inv_def cache_inv_def armed_ok_def)
qed

fun writes_goal :: "goal_verb \<Rightarrow> bool" where
  "writes_goal VGet = False"
| "writes_goal VDisarm = False"
| "writes_goal VStart = False"
| "writes_goal _ = True"

lemma done_with_cases:
  assumes "done_with m x = (x', r)"
  obtains r0 where "m x = (x', r0)" and "is_ok r0 = is_ok r" and "\<forall>e. r = Inl e \<longleftrightarrow> r0 = Inl e"
  using assms by (cases "m x"; cases "snd (m x)") (auto simp: done_with_def liftS_def)

lemma goal_exec_result:
  assumes inv: "gx_inv x" and ready: "call_ready call x" and run: "goal_exec d call v x = (x', r)"
  shows "verb_result (goal_step v) x x' (writes_goal v \<and> is_ok r)"
proof (cases "v = VStart")
  case True
  with goal_session_start_result [OF inv] run show ?thesis by (auto intro: verb_resultI)
next
  case False
  have finish: "\<exists>r0. m x = (x', r0) \<and> is_ok r0 = is_ok r"
    if "done_with m x = (x', r)" for m :: "goal_context \<Rightarrow> goal_context \<times> (goal_error, 'a) result"
    using that by (auto elim!: done_with_cases)
  show ?thesis
    using run False
    by (cases v)
      (auto dest!: finish
        dest: goal_get_result [OF inv] goal_disarm_result [OF inv] goal_create_result [OF inv ready]
          goal_edit_result [OF inv ready] goal_pause_result [OF inv ready] goal_resume_result [OF inv ready]
          goal_complete_result [OF inv ready] goal_block_result [OF inv ready] goal_clear_result [OF inv ready]
        intro: verb_resultI)
qed

subsection \<open>Reachable contexts\<close>

text \<open>
  A context evolves by verbs of the service and by appends of anyone else to the same session,
  its own event types included.
\<close>

inductive goal_run :: "goal_context \<Rightarrow> bool" where
  run_open: "session_reach s \<Longrightarrow> goal_run \<lparr>gx_session = s, gx_cache = None, gx_emitted = []\<rparr>"
| run_verb: "goal_run x \<Longrightarrow> call_ready call x \<Longrightarrow> goal_run (fst (goal_exec d call v x))"
| run_append: "goal_run x \<Longrightarrow>
    goal_run (x\<lparr>gx_session := fst (append_event (gx_session x) gate now data op sources)\<rparr>)"

lemma append_event_log:
  assumes "session_ok s"
  shows "\<exists>es. ss_log (fst (append_event s gate now d op sources)) = ss_log s @ es"
proof -
  obtain s' r where v: "append_validate s (gate = GateBusy) now d op sources = (s', r)" by (metis surj_pair)
  from append_validate_cases [OF assms v] show ?thesis
    unfolding append_event_def v by (cases r; cases gate) (auto simp: append_commit_def)
qed

lemma gx_inv_append:
  assumes "gx_inv x"
  shows "gx_inv (x\<lparr>gx_session := fst (append_event (gx_session x) gate now d op sources)\<rparr>)"
  using assms append_event_ok [of "gx_session x" gate now d op sources]
    append_event_log [of "gx_session x" gate now d op sources]
  by (auto simp: gx_inv_def cache_inv_grow split: option.splits)

lemma goal_run_inv: "goal_run x \<Longrightarrow> gx_inv x"
proof (induction rule: goal_run.induct)
  case (run_open s)
  then show ?case by (simp add: gx_inv_def session_reach_ok)
next
  case (run_verb x call d v)
  with goal_exec_result [of x call d v "fst (goal_exec d call v x)" "snd (goal_exec d call v x)"]
  show ?case by (simp add: verb_result_def)
next
  case (run_append x gate now data op sources)
  then show ?case by (intro gx_inv_append)
qed

lemma fold_goal_Inr:
  "foldR apply_goal_event empty_goal_fold_state es = Inr st \<Longrightarrow>
   fold_goal es = Inr \<lparr>fg_goal = gf_goal st, fg_rounds = gf_rounds st, fg_created = gf_created st,
     fg_updated = gf_updated st, fg_last_ref = gf_last_ref st\<rparr>"
  by (simp add: fold_goal_def)

lemma apply_goal_change_last_ref: "apply_goal_change st c = Inr st' \<Longrightarrow> gf_last_ref st' = Some (goal_change_ref c)"
  by (cases c) (auto simp: apply_goal_change_def require_next_revision_def result_simps split: option.splits)

lemma verb_result_fold:
  assumes "verb_result R x x' True"
  shows "\<exists>e r0 r1 n. ss_log (gx_session x') = ss_log (gx_session x) @ [e] \<and>
    fold_goal (ss_log (gx_session x)) = Inr r0 \<and> fold_goal (ss_log (gx_session x')) = Inr r1 \<and>
    R (fg_goal r0) (fg_goal r1) \<and> gx_emitted x' = gx_emitted x @ [n] \<and> fg_last_ref r1 = Some (gn_ref n)"
proof -
  from assms obtain change e n st st' where
      e: "ss_log (gx_session x') = ss_log (gx_session x) @ [e]"
        "ev_data e = PluginEvent ''goal/change'' (encode_goal_change change)" "change_ok change"
      and st: "foldR apply_goal_event empty_goal_fold_state (ss_log (gx_session x)) = Inr st"
      and st': "foldR apply_goal_event empty_goal_fold_state (ss_log (gx_session x')) = Inr st'"
      and R: "R (gf_goal st) (gf_goal st')" and n: "gx_emitted x' = gx_emitted x @ [n]" "gn_ref n = goal_change_ref change"
    unfolding verb_result_def if_True by blast
  from st st' e have "apply_goal_change st change = Inr st'"
    by (simp add: foldR_snoc apply_goal_event_def decode_encode_change)
  with apply_goal_change_last_ref n(2) have "gf_last_ref st' = Some (gn_ref n)" by simp
  with e(1) n(1) R fold_goal_Inr [OF st] fold_goal_Inr [OF st'] show ?thesis
    by (intro exI [of _ e] exI [of _ n]) simp
qed

text \<open>An observed foreign change is the last word on the activation.\<close>

lemma sync_cache_foreign:
  "sync_cache c (es @ [e]) = (c', Inr u) \<Longrightarrow> gk_pending c = None \<Longrightarrow> ev_type e = ''goal/change'' \<Longrightarrow>
   gk_activation c' = Disarmed"
  by (induction es arbitrary: c) (auto split: sum.splits)

text \<open>A live agent with an accepted log always gets its cache.\<close>

lemma prepare_mutation_succeeds:
  assumes inv: "gx_inv x" and live: "go_live call"
    and log: "foldR apply_goal_event empty_goal_fold_state (ss_log (gx_session x)) = Inr st"
  shows "\<exists>x1 c. prepare_mutation call x = (x1, Inr c)"
proof -
  obtain x1 c where load: "load_cache x = (x1, Inr c)" and same: "gx_session x1 = gx_session x"
      and cache: "gx_cache x1 = Some c"
    using log by (cases "gx_cache x") (auto simp: load_cache_def Let_def)
  with load_cache_cases [OF inv load] have "cache_inv (ss_log (gx_session x1)) c" "gk_pending c = None"
    by (auto simp: gx_inv_def)
  moreover obtain c' r where s: "sync_cache c (drop (gk_observed c) (ss_log (gx_session x1))) = (c', r)"
    by (metis surj_pair)
  ultimately have "is_ok r" using sync_cache_inv [of "ss_log (gx_session x1)" c c' r] log same by simp
  with s load live show ?thesis
    by (cases r) (auto simp: prepare_mutation_def assert_live_def sync_def)
qed

fun verb_ref :: "goal_verb \<Rightarrow> goal_ref option" where
  "verb_ref (VEdit ref _ _) = Some ref"
| "verb_ref (VPause ref) = Some ref"
| "verb_ref (VResume ref) = Some ref"
| "verb_ref (VComplete ref) = Some ref"
| "verb_ref (VBlock ref _ _) = Some ref"
| "verb_ref (VClear ref) = Some ref"
| "verb_ref _ = None"

lemma verb_ref_stale:
  assumes p: "prepare_mutation call x = (x1, Inr c)" and stale: "expect_current c ref = Inl err"
    and v: "verb_ref v = Some ref"
  shows "goal_exec d call v x = (x1, Inl err)"
  using v
  by (cases v) (simp_all add: p stale done_with_def goal_edit_def goal_pause_def goal_resume_def goal_complete_def
      goal_transition_def goal_block_def goal_clear_def)

text \<open>The last-wins projection against the strict fold.\<close>

definition projection_of :: "session_event list \<Rightarrow> goal_fold_state \<Rightarrow> bool" where
  "projection_of es st \<longleftrightarrow>
     (case fold_goal_projection es of
        None \<Rightarrow> gf_goal st = None
      | Some p \<Rightarrow> gf_goal st = Some (gp_goal p) \<and> gp_rounds p \<le> gf_rounds st \<and>
          gf_created st = Some (gp_created_at p) \<and> gf_updated st = Some (gp_updated_at p))"

lemma apply_goal_change_counters:
  "apply_goal_change st (GoalSnapshotChange c) = Inr st' \<Longrightarrow>
   gf_goal st' = Some (gc_goal c) \<and> gf_rounds st' = gc_rounds c \<and>
   gf_created st' = Some (gc_created_at c) \<and> gf_updated st' = Some (gc_updated_at c)"
  "apply_goal_change st (GoalClear ref t) = Inr st' \<Longrightarrow> gf_goal st' = None"
  by (auto simp: apply_goal_change_def require_next_revision_def result_simps split: option.splits)

lemma projection_step:
  assumes "projection_of es st" and step: "apply_goal_event st e = Inr st'"
  shows "projection_of (es @ [e]) st'"
proof (cases "ev_data e")
  case (UserMessage m)
  have "st' = st \<or> (\<exists>g. admit_goal_round st g = Inr st')"
    using step UserMessage by (auto simp: apply_goal_event_def result_simps split: option.splits)
  then have "gf_goal st' = gf_goal st \<and> gf_rounds st \<le> gf_rounds st' \<and> gf_created st' = gf_created st \<and>
      gf_updated st' = gf_updated st"
    by (auto elim!: admit_goal_round_Inr)
  with assms(1) UserMessage show ?thesis
    by (auto simp: projection_of_def fold_goal_projection_def apply_goal_projection_def split: option.splits)
next
  case (PluginEvent t payload)
  show ?thesis
  proof (cases "t = ''goal/change''")
    case True
    with PluginEvent step obtain c where c: "decode_goal_change payload = Inr (Some c)"
        and applied: "apply_goal_change st c = Inr st'"
      by (auto simp: apply_goal_event_def result_simps split: option.splits)
    have "fold_goal_projection (es @ [e]) = apply_goal_projection (fold_goal_projection es) e"
      by (simp add: fold_goal_projection_def)
    with True PluginEvent c apply_goal_change_counters applied show ?thesis
      by (cases c) (auto simp: projection_of_def apply_goal_projection_def)
  next
    case False
    with assms PluginEvent show ?thesis
      by (auto simp: projection_of_def fold_goal_projection_def apply_goal_projection_def apply_goal_event_def)
  qed
qed (use assms in \<open>auto simp: projection_of_def fold_goal_projection_def apply_goal_projection_def apply_goal_event_def\<close>)

interpretation projection_log: replay apply_goal_event empty_goal_fold_state projection_of
  by unfold_locales
    (simp add: projection_of_def fold_goal_projection_def empty_goal_fold_state_def, rule projection_step)

text \<open>A session, and the context after one goal was created in it.\<close>

definition sample_call :: goal_call where
  "sample_call = \<lparr>go_live = True, go_gate = GateOpen, go_now = 20, go_uuid = ''u''\<rparr>"

definition sample_open :: goal_context where
  "sample_open = \<lparr>gx_session = sample_session, gx_cache = None, gx_emitted = []\<rparr>"

definition sample_armed :: goal_context where
  "sample_armed = fst (goal_exec 5 sample_call (VCreate ''ship it'' None) sample_open)"

lemma sample_open_run: "goal_run sample_open"
  unfolding sample_open_def by (rule run_open [OF sample_session_reach])

lemma sample_open_ready: "call_ready sample_call sample_open"
  unfolding call_ready_def is_event_seq_def by code_simp

lemma sample_armed_run: "goal_run sample_armed"
  unfolding sample_armed_def by (rule run_verb [OF sample_open_run sample_open_ready])

lemma sample_armed_fold:
  "map_sum id (\<lambda>f. (map_option snapshot_ref (fg_goal f), fg_rounds f)) (fold_goal (ss_log (gx_session sample_armed))) =
   Inr (Some \<lparr>gr_id = ''goal-u'', gr_revision = 1\<rparr>, 0)"
  unfolding sample_armed_def by code_simp

subsection \<open>Properties\<close>

text \<open>
  C16. The service refines the abstract goal machine: a mutation that returns has appended exactly
  one event, the strict fold accepts the log before and after it, the current goal has taken the
  step its verb stands for, and one notification names the new ref; a call that fails, a read, a
  disarm and a session start leave the log and the notifications as they were.
\<close>

theorem goal_service_refines:
  assumes "goal_run x" and "call_ready call x" and "goal_exec d call v x = (x', r)"
  shows "if writes_goal v \<and> is_ok r
    then (\<exists>e r0 r1 n. ss_log (gx_session x') = ss_log (gx_session x) @ [e] \<and>
      fold_goal (ss_log (gx_session x)) = Inr r0 \<and> fold_goal (ss_log (gx_session x')) = Inr r1 \<and>
      goal_step v (fg_goal r0) (fg_goal r1) \<and>
      gx_emitted x' = gx_emitted x @ [n] \<and> fg_last_ref r1 = Some (gn_ref n))
    else ss_log (gx_session x') = ss_log (gx_session x) \<and> gx_emitted x' = gx_emitted x"
proof -
  have result: "verb_result (goal_step v) x x' (writes_goal v \<and> is_ok r)"
    by (rule goal_exec_result [OF goal_run_inv]) fact+
  show ?thesis
  proof (cases "writes_goal v \<and> is_ok r")
    case True
    with result verb_result_fold [of "goal_step v" x x'] show ?thesis by simp
  next
    case False
    with result show ?thesis by (auto simp: verb_result_def)
  qed
qed

lemma goal_service_refines_witness:
  "length (gx_emitted sample_armed) = 1 \<and>
   (\<exists>r1. fold_goal (ss_log (gx_session sample_armed)) = Inr r1 \<and>
      goal_step (VCreate ''ship it'' None) None (fg_goal r1))"
proof -
  obtain r where run: "goal_exec 5 sample_call (VCreate ''ship it'' None) sample_open = (sample_armed, r)"
    unfolding sample_armed_def by (metis prod.collapse)
  have "is_ok (snd (goal_exec 5 sample_call (VCreate ''ship it'' None) sample_open))"
      "fold_goal (ss_log (gx_session sample_open)) = Inr \<lparr>fg_goal = None, fg_rounds = 0, fg_created = None,
         fg_updated = None, fg_last_ref = None\<rparr>" "gx_emitted sample_open = []"
    by code_simp+
  with run goal_service_refines [OF sample_open_run sample_open_ready run] show ?thesis by auto
qed

text \<open>
  What \<open>get\<close> returns is the fold of the log: the goal, its rounds and its times are those of
  the strict fold, and a goal shown as armed is active.
\<close>

theorem goal_get_current:
  assumes "goal_run x" and "goal_get call x = (x', Inr v)"
  shows "\<exists>f. fold_goal (ss_log (gx_session x)) = Inr f \<and> map_option gv_goal v = fg_goal f \<and>
    (\<forall>w. v = Some w \<longrightarrow> gv_rounds w = fg_rounds f \<and>
       (gv_activation w = Armed \<longrightarrow> gs_phase (gv_goal w) = GoalActive))"
proof -
  from goal_get_result [OF goal_run_inv [OF assms(1)] assms(2)] obtain c where
      up: "caught_up x' c" and v: "view_of c = Inr v" and s: "gx_session x' = gx_session x" by auto
  then have fold: "foldR apply_goal_event empty_goal_fold_state (ss_log (gx_session x)) = Inr (gk_state c)"
      and armed: "armed_ok c" by (simp_all add: caught_up_def)
  from view_of_fold [OF fold] v show ?thesis
    using fold_goal_Inr [OF fold] armed by (auto simp: armed_ok_def)
qed

lemma goal_get_current_witness:
  "\<exists>v w. goal_get sample_call sample_armed = v \<and> snd v = Inr (Some w) \<and> gv_activation w = Armed \<and>
     gs_phase (gv_goal w) = GoalActive"
proof -
  have "(case snd (goal_get sample_call sample_armed) of
      Inr (Some w) \<Rightarrow> gv_activation w = Armed | _ \<Rightarrow> False)"
    unfolding sample_armed_def by code_simp
  then obtain w where w: "snd (goal_get sample_call sample_armed) = Inr (Some w)" "gv_activation w = Armed"
    by (auto split: sum.splits option.splits)
  obtain x' where "goal_get sample_call sample_armed = (x', Inr (Some w))"
    using w(1) by (metis prod.collapse)
  from goal_get_current [OF sample_armed_run this] w show ?thesis by auto
qed

text \<open>
  Foreign writes disarm: when anyone but the service appends a goal change, the goal that
  the next \<open>get\<close> shows is disarmed, whatever the service had armed before.
\<close>

theorem goal_foreign_change_disarms:
  assumes "goal_run x"
    and "append_event (gx_session x) gate now (PluginEvent ''goal/change'' j) op sources = (s', Inr e)"
    and "goal_get call (x\<lparr>gx_session := s'\<rparr>) = (x', Inr (Some w))"
  shows "gv_activation w = Disarmed"
proof -
  define y where "y = x\<lparr>gx_session := s'\<rparr>"
  have inv: "gx_inv x" by (rule goal_run_inv [OF assms(1)])
  then have inv_y: "gx_inv y" using gx_inv_append [OF inv, of gate now "PluginEvent ''goal/change'' j" op sources] assms(2)
    by (simp add: y_def)
  obtain s1 r1 where v: "append_validate (gx_session x) (gate = GateBusy) now (PluginEvent ''goal/change'' j) op sources = (s1, r1)"
    by (metis surj_pair)
  have "session_ok (gx_session x)" using inv by (simp add: gx_inv_def)
  note appended = append_validate_cases [OF this v]
  from assms(2) v have "r1 = Inr e" "s' = append_commit s1 e"
    by (auto simp: append_event_def split: sum.splits append_gate.splits)
  with appended have log: "ss_log s' = ss_log (gx_session x) @ [e]" and type: "ev_type e = ''goal/change''"
    by (auto simp: append_commit_def)
  obtain x1 r2 where prep: "prepare_mutation call y = (x1, r2)" by (metis surj_pair)
  with assms(3) obtain c where r2: "r2 = Inr c" and view: "view_of c = Inr (Some w)" and live: "go_live call"
    using prepare_mutation_cases [OF inv_y prep]
    by (cases r2) (auto simp: goal_get_def y_def [symmetric] liftS_def)
  obtain x2 c1 where load: "load_cache y = (x2, Inr c1)" and sync: "sync c1 x2 = (x1, Inr c)"
    using prep live r2 by (cases "load_cache y"; cases "snd (load_cache y)") (auto simp: prepare_mutation_def assert_live_def)
  have "gk_activation c = Disarmed"
  proof (cases "gx_cache x")
    case None
    with load sync show ?thesis
      by (auto simp: load_cache_def y_def sync_def Let_def split: sum.splits)
  next
    case (Some c0)
    with load have "c1 = c0" "x2 = y" by (simp_all add: load_cache_def y_def)
    moreover have "gk_observed c0 \<le> length (ss_log (gx_session x))" "gk_pending c0 = None"
      using inv Some by (auto simp: gx_inv_def cache_inv_def)
    ultimately have "sync_cache c0 (drop (gk_observed c0) (ss_log (gx_session x)) @ [e]) = (c, Inr ())"
        and "gk_pending c0 = None"
      using sync log by (auto simp: sync_def y_def split: prod.splits sum.splits)
    with type show ?thesis by (intro sync_cache_foreign)
  qed
  with view show ?thesis by (auto simp: view_of_def split: option.splits)
qed

text \<open>Another writer edits the goal the service had armed.\<close>

definition foreign_edit :: json where
  "foreign_edit = encode_goal_change (GoalSnapshotChange \<lparr>gc_operation = OpEdit,
     gc_goal = \<lparr>gs_id = ''goal-u'', gs_revision = 2, gs_objective = ''ship it now'', gs_phase = GoalActive,
       gs_blocked = None, gs_max_rounds = 5\<rparr>,
     gc_rounds = 0, gc_created_at = 20, gc_updated_at = 30\<rparr>)"

lemma goal_foreign_change_disarms_witness:
  "\<exists>s' w. append_event (gx_session sample_armed) GateOpen 30 (PluginEvent ''goal/change'' foreign_edit) None None = s' \<and>
     snd (goal_get sample_call (sample_armed\<lparr>gx_session := fst s'\<rparr>)) = Inr (Some w) \<and> gv_activation w = Disarmed"
proof -
  define a where "a = append_event (gx_session sample_armed) GateOpen 30 (PluginEvent ''goal/change'' foreign_edit) None None"
  have "is_ok (snd a)" and "(case snd (goal_get sample_call (sample_armed\<lparr>gx_session := fst a\<rparr>)) of
      Inr (Some w) \<Rightarrow> True | _ \<Rightarrow> False)"
    unfolding a_def sample_armed_def by code_simp+
  then obtain e w where "snd a = Inr e" and
      w: "snd (goal_get sample_call (sample_armed\<lparr>gx_session := fst a\<rparr>)) = Inr (Some w)"
    by (cases "snd a") (auto split: sum.splits option.splits)
  then have app: "append_event (gx_session sample_armed) GateOpen 30 (PluginEvent ''goal/change'' foreign_edit) None None
      = (fst a, Inr e)" unfolding a_def by (metis prod.collapse)
  obtain x' where "goal_get sample_call (sample_armed\<lparr>gx_session := fst a\<rparr>) = (x', Inr (Some w))"
    using w by (metis prod.collapse)
  from goal_foreign_change_disarms [OF sample_armed_run app this] w show ?thesis
    unfolding a_def by blast
qed

text \<open>
  Compare and set: a mutation that names another ref than the current goal's is refused, as
  not found when there is no goal and as stale otherwise, and writes nothing.
\<close>

theorem goal_cas:
  assumes "goal_run x" and "go_live call" and "fold_goal (ss_log (gx_session x)) = Inr f"
    and "verb_ref v = Some ref" and "map_option snapshot_ref (fg_goal f) \<noteq> Some ref"
  shows "\<exists>x'. goal_exec d call v x =
      (x', Inl (GoalError (if fg_goal f = None then ''GOAL_NOT_FOUND'' else ''GOAL_STALE_REVISION''))) \<and>
    gx_session x' = gx_session x \<and> gx_emitted x' = gx_emitted x"
proof -
  have inv: "gx_inv x" by (rule goal_run_inv [OF assms(1)])
  from assms(3) obtain st where st: "foldR apply_goal_event empty_goal_fold_state (ss_log (gx_session x)) = Inr st"
    by (auto simp: fold_goal_def result_simps)
  with assms(3) have "fg_goal f = gf_goal st" by (auto simp: fold_goal_def)
  from prepare_mutation_succeeds [OF inv assms(2) st] obtain x1 c where
      p: "prepare_mutation call x = (x1, Inr c)" by blast
  from prepare_mutation_cases [OF inv p] have up: "caught_up x1 c" and same: "gx_session x1 = gx_session x"
      "gx_emitted x1 = gx_emitted x" by simp_all
  with st \<open>fg_goal f = gf_goal st\<close> have "gf_goal (gk_state c) = fg_goal f" by (simp add: caught_up_def)
  then have "expect_current c ref =
      Inl (GoalError (if fg_goal f = None then ''GOAL_NOT_FOUND'' else ''GOAL_STALE_REVISION''))"
    using assms(5) by (cases ref) (auto simp: expect_current_def snapshot_ref_def split: option.splits)
  from verb_ref_stale [OF p this assms(4)] same show ?thesis by blast
qed

lemma goal_cas_witness:
  "\<exists>x'. goal_exec 5 sample_call (VPause \<lparr>gr_id = ''goal-u'', gr_revision = 7\<rparr>) sample_armed =
     (x', Inl (GoalError ''GOAL_STALE_REVISION''))"
proof -
  from sample_armed_fold obtain f where f: "fold_goal (ss_log (gx_session sample_armed)) = Inr f"
      and ref: "map_option snapshot_ref (fg_goal f) = Some \<lparr>gr_id = ''goal-u'', gr_revision = 1\<rparr>"
    by (cases "fold_goal (ss_log (gx_session sample_armed))") auto
  have "go_live sample_call" by (simp add: sample_call_def)
  from goal_cas [OF sample_armed_run this f, of "VPause \<lparr>gr_id = ''goal-u'', gr_revision = 7\<rparr>"] ref
  show ?thesis by auto
qed

text \<open>
  C18. The projection follows the strict fold: on an accepted log it shows the current goal with
  its creation and update times, and never more rounds than were admitted. It may show fewer, as
  the log of one goal and one admitted round does: a round is counted by the fold alone.
\<close>

theorem goal_projection_matches:
  assumes "fold_goal es = Inr f"
  shows "(case fold_goal_projection es of
       None \<Rightarrow> fg_goal f = None
     | Some p \<Rightarrow> fg_goal f = Some (gp_goal p) \<and> gp_rounds p \<le> fg_rounds f \<and>
         fg_created f = Some (gp_created_at p) \<and> fg_updated f = Some (gp_updated_at p)) \<and>
    map_option gp_rounds (fold_goal_projection sample_goal_log) = Some 0 \<and>
    map_sum id fg_rounds (fold_goal sample_goal_log) = Inr 1"
proof -
  from assms obtain st where st: "foldR apply_goal_event empty_goal_fold_state es = Inr st"
    by (auto simp: fold_goal_def result_simps)
  moreover have "map_option gp_rounds (fold_goal_projection sample_goal_log) = Some 0" by code_simp
  moreover have "projection_of es st" by (rule projection_log.hist_fold [OF st])
  ultimately show ?thesis
    using fold_goal_Inr [OF st] assms by (auto simp: projection_of_def sample_goal_fold split: option.splits)
qed

lemma goal_projection_matches_witness:
  "map_option gp_goal (fold_goal_projection sample_goal_log) = Some sample_goal"
  using goal_projection_matches [OF sample_goal_fold] by (auto split: option.splits)

end
