(* ===== verification/ChunkRows.thy ===== *)
theory ChunkRows
  imports SessionTypes
begin

text \<open>
  Storage packing of streamed deltas (\<open>packages/core/session/src/chunk-rows.ts\<close>): a run of
  consecutive deltas of one block becomes one JSON row, and a row expands to exactly the events
  it was made of. An event is stored verbatim or as a member of a row; the numbers of a row are
  integers, as they are in the event type.
\<close>

subsection \<open>Rows\<close>

datatype delta_kind = TextDeltas | ReasoningDeltas | ToolCallDeltas

record run_data =
  rd_turn :: int
  rd_step :: int
  rd_index :: int
  rd_dt :: "int list"

datatype chunk_row =
    TextChunks int int run_data "string list"
  | ReasoningChunks int int run_data "string list"
  | ToolCallChunks int int run_data string "string option" "string list"

text \<open>
  One parsed line of the log: the object of an event, or any other JSON object. Both carry a
  \<open>type\<close>, and the reader decides by it alone.
\<close>

datatype storage_record = EventRecord session_event | RowRecord json

definition min_run :: nat where
  "min_run = 3"

subsection \<open>Packing\<close>

definition classify :: "session_event \<Rightarrow> delta_kind option" where
  "classify e =
     (case ev_data e of
        AssistantChunk turn step chunk \<Rightarrow>
          if ev_ignorable e \<or> ev_surface_op e \<noteq> None \<or> ev_sources e \<noteq> None then None
          else if \<not> is_safe (ev_seq e) \<or> ev_seq e < 0 \<or> \<not> is_safe (ev_time e) then None
          else (case chunk of
                  TextDelta _ _ \<Rightarrow> Some TextDeltas
                | ReasoningDelta _ _ \<Rightarrow> Some ReasoningDeltas
                | ToolCallDelta _ _ _ _ \<Rightarrow> Some ToolCallDeltas
                | _ \<Rightarrow> None)
      | _ \<Rightarrow> None)"

fun chunk_index :: "stream_chunk \<Rightarrow> int" where
  "chunk_index (BlockStart i _) = i"
| "chunk_index (TextDelta i _) = i"
| "chunk_index (ReasoningDelta i _) = i"
| "chunk_index (ToolCallDelta i _ _ _) = i"
| "chunk_index (BlockEnd i _) = i"
| "chunk_index _ = 0"

fun tool_call_of :: "stream_chunk \<Rightarrow> string \<times> string option" where
  "tool_call_of (ToolCallDelta _ i name _) = (i, name)"
| "tool_call_of _ = ([], None)"

fun chunk_payload :: "stream_chunk \<Rightarrow> string" where
  "chunk_payload (TextDelta _ text) = text"
| "chunk_payload (ReasoningDelta _ text) = text"
| "chunk_payload (ToolCallDelta _ _ _ args) = args"
| "chunk_payload _ = []"

definition chunk_turn :: "session_event \<Rightarrow> int" where
  "chunk_turn e = (case ev_data e of AssistantChunk turn _ _ \<Rightarrow> turn | _ \<Rightarrow> 0)"

definition chunk_step :: "session_event \<Rightarrow> int" where
  "chunk_step e = (case ev_data e of AssistantChunk _ step _ \<Rightarrow> step | _ \<Rightarrow> 0)"

definition delta_chunk :: "session_event \<Rightarrow> stream_chunk" where
  "delta_chunk e = (case ev_data e of AssistantChunk _ _ chunk \<Rightarrow> chunk | _ \<Rightarrow> TextDelta 0 [])"

definition continues_run :: "session_event \<Rightarrow> session_event \<Rightarrow> delta_kind \<Rightarrow> bool" where
  "continues_run prev nxt kind \<longleftrightarrow>
     ev_seq nxt = ev_seq prev + 1 \<and> is_safe (ev_time nxt - ev_time prev) \<and>
     chunk_turn nxt = chunk_turn prev \<and> chunk_step nxt = chunk_step prev \<and>
     chunk_index (delta_chunk nxt) = chunk_index (delta_chunk prev) \<and>
     (kind = ToolCallDeltas \<longrightarrow> tool_call_of (delta_chunk prev) = tool_call_of (delta_chunk nxt))"

definition gaps :: "session_event list \<Rightarrow> int list" where
  "gaps run = map2 (\<lambda>prev nxt. ev_time nxt - ev_time prev) run (tl run)"

definition build_row :: "delta_kind \<Rightarrow> session_event list \<Rightarrow> chunk_row" where
  "build_row kind run =
     (let first = hd run;
          base = \<lparr>rd_turn = chunk_turn first, rd_step = chunk_step first,
                  rd_index = chunk_index (delta_chunk first), rd_dt = gaps run\<rparr>;
          payload = map (\<lambda>e. chunk_payload (delta_chunk e)) run
      in case kind of
           ToolCallDeltas \<Rightarrow>
             (case tool_call_of (delta_chunk first) of
                (i, name) \<Rightarrow> ToolCallChunks (ev_seq first) (ev_time first) base i name payload)
         | TextDeltas \<Rightarrow> TextChunks (ev_seq first) (ev_time first) base payload
         | ReasoningDeltas \<Rightarrow> ReasoningChunks (ev_seq first) (ev_time first) base payload)"

text \<open>The row as the JSON value written to storage.\<close>

fun row_fields :: "string \<Rightarrow> int \<Rightarrow> int \<Rightarrow> (string \<times> json) list \<Rightarrow> json" where
  "row_fields tag seq0 time0 fs =
     JObj [(''type'', JStr tag), (''seq0'', JInt seq0), (''time0'', JInt time0), (''data'', JObj fs)]"

fun base_fields :: "run_data \<Rightarrow> (string \<times> json) list" where
  "base_fields b =
     [(''turn'', JInt (rd_turn b)), (''step'', JInt (rd_step b)), (''index'', JInt (rd_index b)),
      (''dt'', JArr (map JInt (rd_dt b)))]"

fun row_json :: "chunk_row \<Rightarrow> json" where
  "row_json (TextChunks s t b texts) =
     row_fields ''text-chunks'' s t (base_fields b @ [(''texts'', JArr (map JStr texts))])"
| "row_json (ReasoningChunks s t b texts) =
     row_fields ''reasoning-chunks'' s t (base_fields b @ [(''texts'', JArr (map JStr texts))])"
| "row_json (ToolCallChunks s t b i name args) =
     row_fields ''tool-call-chunks'' s t
       (base_fields b @ [(''id'', JStr i)] @ (case name of None \<Rightarrow> [] | Some n \<Rightarrow> [(''name'', JStr n)]) @
        [(''args'', JArr (map JStr args))])"

type_synonym pack_state = "storage_record list \<times> delta_kind option \<times> session_event list"

fun flush_run :: "pack_state \<Rightarrow> pack_state" where
  "flush_run (out, kind, run) =
     (out @ (case kind of
               Some k \<Rightarrow> if min_run \<le> length run then [RowRecord (row_json (build_row k run))]
                         else map EventRecord run
             | None \<Rightarrow> map EventRecord run), None, [])"

fun pack_event :: "pack_state \<Rightarrow> session_event \<Rightarrow> pack_state" where
  "pack_event (out, kind, run) e =
     (case classify e of
        None \<Rightarrow> (case flush_run (out, kind, run) of (out', kind', run') \<Rightarrow> (out' @ [EventRecord e], kind', run'))
      | Some k \<Rightarrow>
          if kind = Some k \<and> run \<noteq> [] \<and> continues_run (last run) e k then (out, kind, run @ [e])
          else (case flush_run (out, kind, run) of (out', _, _) \<Rightarrow> (out', Some k, [e])))"

definition pack_chunk_runs :: "session_event list \<Rightarrow> storage_record list" where
  "pack_chunk_runs events = fst (flush_run (foldl pack_event ([], None, []) events))"

subsection \<open>Expanding\<close>

definition malformed :: "string \<Rightarrow> (js_error, 'a) result" where
  "malformed why = Inl (JsError (''malformed storage row: '' @ why))"

fun json_strings :: "json list \<Rightarrow> string list option" where
  "json_strings [] = Some []"
| "json_strings (JStr s # js) = map_option (Cons s) (json_strings js)"
| "json_strings _ = None"

fun json_safe_ints :: "json list \<Rightarrow> int list option" where
  "json_safe_ints [] = Some []"
| "json_safe_ints (JInt n # js) = (if is_safe n then map_option (Cons n) (json_safe_ints js) else None)"
| "json_safe_ints _ = None"

definition json_safe_int :: "json option \<Rightarrow> int option" where
  "json_safe_int v = (case v of Some (JInt n) \<Rightarrow> if is_safe n then Some n else None | _ \<Rightarrow> None)"

definition validate_run_data ::
    "(string \<times> json) list \<Rightarrow> string \<Rightarrow> (js_error, run_data \<times> string list) result" where
  "validate_run_data fs payload_key =
     (case (map_get fs ''turn'', map_get fs ''step'', map_get fs ''index'') of
        (Some (JInt turn), Some (JInt step), Some (JInt index)) \<Rightarrow>
          (case map_get fs payload_key of
             Some (JArr entries) \<Rightarrow>
               (case json_strings entries of
                  None \<Rightarrow> malformed ''payload must be a non-empty string array''
                | Some payload \<Rightarrow>
                    if payload = [] then malformed ''payload must be a non-empty string array''
                    else (case map_get fs ''dt'' of
                            Some (JArr ds) \<Rightarrow>
                              (case json_safe_ints ds of
                                 None \<Rightarrow> malformed ''dt must be an array of safe integers''
                               | Some dt \<Rightarrow>
                                   if length dt \<noteq> length payload - 1 then malformed ''dt length does not match''
                                   else Inr (\<lparr>rd_turn = turn, rd_step = step, rd_index = index, rd_dt = dt\<rparr>, payload))
                          | _ \<Rightarrow> malformed ''dt must be an array of safe integers''))
           | _ \<Rightarrow> malformed ''payload must be a non-empty string array'')
      | _ \<Rightarrow> malformed ''turn/step/index must be numbers'')"

text \<open>The running member time never leaves the safe integers.\<close>

fun times_safe :: "int \<Rightarrow> int list \<Rightarrow> bool" where
  "times_safe t [] = True"
| "times_safe t (d # ds) = (is_safe (t + d) \<and> times_safe (t + d) ds)"

definition reconstruct ::
    "int \<Rightarrow> int \<Rightarrow> run_data \<Rightarrow> string list \<Rightarrow> chunk_row \<Rightarrow> (js_error, chunk_row) result" where
  "reconstruct seq0 time0 b payload row =
     (if \<not> is_safe (seq0 + int (length payload) - 1) then malformed ''member seqs must stay safe integers''
      else if \<not> times_safe time0 (rd_dt b) then malformed ''member times must stay safe integers''
      else Inr row)"

definition validate_row :: "(string \<times> json) list \<Rightarrow> string \<Rightarrow> (js_error, chunk_row) result" where
  "validate_row fs tag =
     (if \<not> has_exact_keys fs [''type'', ''seq0'', ''time0'', ''data'']
      then malformed ''envelope must be exactly {type, seq0, time0, data}''
      else (case json_safe_int (map_get fs ''seq0'') of
        None \<Rightarrow> malformed ''seq0 must be a non-negative safe integer''
      | Some seq0 \<Rightarrow>
          if seq0 < 0 then malformed ''seq0 must be a non-negative safe integer''
          else (case json_safe_int (map_get fs ''time0'') of
            None \<Rightarrow> malformed ''time0 must be a safe integer''
          | Some time0 \<Rightarrow>
              (case map_get fs ''data'' of
                 Some (JObj ds) \<Rightarrow>
                   if tag = ''tool-call-chunks'' then
                     (let with_name = has_exact_keys ds [''turn'', ''step'', ''index'', ''id'', ''name'', ''dt'', ''args''] in
                      if \<not> with_name \<and> \<not> has_exact_keys ds [''turn'', ''step'', ''index'', ''id'', ''dt'', ''args'']
                      then malformed ''data must be exactly {turn, step, index, id, name?, dt, args}''
                      else (case (map_get ds ''id'', map_get ds ''name'') of
                              (Some (JStr i), Some (JStr n)) \<Rightarrow>
                                bindR (validate_run_data ds ''args'') (\<lambda>(b, payload).
                                reconstruct seq0 time0 b payload (ToolCallChunks seq0 time0 b i (Some n) payload))
                            | (Some (JStr i), None) \<Rightarrow>
                                bindR (validate_run_data ds ''args'') (\<lambda>(b, payload).
                                reconstruct seq0 time0 b payload (ToolCallChunks seq0 time0 b i None payload))
                            | _ \<Rightarrow> malformed ''id (and name when present) must be strings''))
                   else if \<not> has_exact_keys ds [''turn'', ''step'', ''index'', ''dt'', ''texts'']
                   then malformed ''data must be exactly {turn, step, index, dt, texts}''
                   else bindR (validate_run_data ds ''texts'') (\<lambda>(b, payload).
                     reconstruct seq0 time0 b payload
                       (if tag = ''text-chunks'' then TextChunks seq0 time0 b payload
                        else ReasoningChunks seq0 time0 b payload))
               | _ \<Rightarrow> malformed ''data must be an object''))))"

fun expand_members ::
    "run_data \<Rightarrow> (string \<Rightarrow> stream_chunk) \<Rightarrow> int \<Rightarrow> int \<Rightarrow> int list \<Rightarrow> string list \<Rightarrow> session_event list" where
  "expand_members b mk s t dt [] = []"
| "expand_members b mk s t dt (m # ms) =
     \<lparr>ev_seq = s, ev_time = t, ev_data = AssistantChunk (rd_turn b) (rd_step b) (mk m), ev_ignorable = False,
      ev_surface_op = None, ev_sources = None\<rparr> #
     (case dt of [] \<Rightarrow> expand_members b mk (s + 1) t [] ms | d # ds \<Rightarrow> expand_members b mk (s + 1) (t + d) ds ms)"

fun expand_row :: "chunk_row \<Rightarrow> session_event list" where
  "expand_row (TextChunks s t b texts) = expand_members b (TextDelta (rd_index b)) s t (rd_dt b) texts"
| "expand_row (ReasoningChunks s t b texts) = expand_members b (ReasoningDelta (rd_index b)) s t (rd_dt b) texts"
| "expand_row (ToolCallChunks s t b i name args) =
     expand_members b (ToolCallDelta (rd_index b) i name) s t (rd_dt b) args"

text \<open>
  The reader dispatches on the type alone. An event that is named like a row is taken for one, and
  refused for its envelope: the object of an event has no \<open>seq0\<close>. A JSON object that is neither an
  event nor tagged passes through the code as if it were an event; it has no form here.
\<close>

definition row_tag :: "string \<Rightarrow> bool" where
  "row_tag tag \<longleftrightarrow> List.member [''text-chunks'', ''reasoning-chunks'', ''tool-call-chunks''] tag"

definition row_envelope :: string where
  "row_envelope = ''envelope must be exactly {type, seq0, time0, data}''"

definition decode_storage_record :: "storage_record \<Rightarrow> (js_error, session_event list) result" where
  "decode_storage_record v =
     (case v of
        EventRecord e \<Rightarrow> if row_tag (ev_type e) then malformed row_envelope else Inr [e]
      | RowRecord (JObj fs) \<Rightarrow>
          (case map_get fs ''type'' of
             Some (JStr tag) \<Rightarrow>
               if row_tag tag then bindR (validate_row fs tag) (\<lambda>row. Inr (expand_row row))
               else malformed ''not a row tag''
           | _ \<Rightarrow> malformed ''not a row tag'')
      | RowRecord _ \<Rightarrow> malformed ''not a row tag'')"

definition decode_storage :: "storage_record list \<Rightarrow> (js_error, session_event list) result" where
  "decode_storage rs = bindR (mapR decode_storage_record rs) (\<lambda>ess. Inr (concat ess))"

subsection \<open>Runs\<close>

definition run_ok :: "delta_kind \<Rightarrow> session_event list \<Rightarrow> bool" where
  "run_ok k run \<longleftrightarrow> (\<forall>e \<in> set run. classify e = Some k) \<and> successively (\<lambda>a b. continues_run a b k) run"

fun delta_of :: "delta_kind \<Rightarrow> int \<Rightarrow> string \<times> string option \<Rightarrow> string \<Rightarrow> stream_chunk" where
  "delta_of TextDeltas i call p = TextDelta i p"
| "delta_of ReasoningDeltas i call p = ReasoningDelta i p"
| "delta_of ToolCallDeltas i call p = ToolCallDelta i (fst call) (snd call) p"

lemma delta_of_fun:
  "delta_of TextDeltas i call = TextDelta i" "delta_of ReasoningDeltas i call = ReasoningDelta i"
  "delta_of ToolCallDeltas i call = ToolCallDelta i (fst call) (snd call)"
  by (simp_all add: fun_eq_iff)

text \<open>A classified event is determined by the fields a row keeps.\<close>

lemma classify_Some:
  assumes "classify e = Some k"
  shows "ev_data e = AssistantChunk (chunk_turn e) (chunk_step e)
      (delta_of k (chunk_index (delta_chunk e)) (tool_call_of (delta_chunk e)) (chunk_payload (delta_chunk e)))"
    and "\<not> ev_ignorable e" and "ev_surface_op e = None" and "ev_sources e = None"
    and "is_event_seq (ev_seq e)" and "is_safe (ev_time e)"
    and "k \<noteq> ToolCallDeltas \<Longrightarrow> tool_call_of (delta_chunk e) = ([], None)"
  using assms
  by (auto simp: classify_def is_event_seq_def chunk_turn_def chunk_step_def delta_chunk_def split: event_data.splits stream_chunk.splits if_splits)

lemma run_uniform:
  assumes "run_ok k (e # run)" and "x \<in> set run"
  shows "chunk_turn x = chunk_turn e \<and> chunk_step x = chunk_step e \<and>
    chunk_index (delta_chunk x) = chunk_index (delta_chunk e) \<and>
    tool_call_of (delta_chunk x) = tool_call_of (delta_chunk e)"
  using assms
proof (induction run arbitrary: e)
  case (Cons y run)
  then have tail: "run_ok k (y # run)" and step: "continues_run e y k"
      and kinds: "classify e = Some k" "classify y = Some k" by (simp_all add: run_ok_def)
  from step classify_Some(7) [OF kinds(1)] classify_Some(7) [OF kinds(2)]
  have "chunk_turn y = chunk_turn e \<and> chunk_step y = chunk_step e \<and>
      chunk_index (delta_chunk y) = chunk_index (delta_chunk e) \<and>
      tool_call_of (delta_chunk y) = tool_call_of (delta_chunk e)"
    by (cases k) (simp_all add: continues_run_def)
  with Cons.IH [OF tail] Cons.prems(2) show ?case by auto
qed simp

lemma gaps_simps [simp]: "gaps [e] = []" "gaps (e # y # run) = (ev_time y - ev_time e) # gaps (y # run)"
  by (simp_all add: gaps_def)

lemma length_gaps: "length (gaps run) = length run - 1"
  by (simp add: gaps_def)

lemma expand_members_run:
  assumes "run_ok k (e # run)"
    and "\<And>x. x \<in> set (e # run) \<Longrightarrow> ev_data x = AssistantChunk (rd_turn b) (rd_step b) (mk (f x))"
  shows "expand_members b mk (ev_seq e) (ev_time e) (gaps (e # run)) (map f (e # run)) = e # run"
  using assms
proof (induction run arbitrary: e)
  case Nil
  then show ?case using classify_Some(2-4) [of e k] by (cases e) (simp add: run_ok_def)
next
  case (Cons y run)
  then have "run_ok k (y # run)" and step: "continues_run e y k" and e: "classify e = Some k"
    by (simp_all add: run_ok_def)
  with Cons have "expand_members b mk (ev_seq y) (ev_time y) (gaps (y # run)) (map f (y # run)) = y # run"
    by simp
  moreover have "ev_seq e + 1 = ev_seq y" using step by (simp add: continues_run_def)
  ultimately show ?case
    using classify_Some(2-4) [OF e] Cons.prems(2) [of e] by (cases e) simp
qed

lemma times_safe_run: "run_ok k (e # run) \<Longrightarrow> times_safe (ev_time e) (gaps (e # run))"
proof (induction run arbitrary: e)
  case (Cons y run)
  then show ?case using classify_Some(6) [of y k] by (simp add: run_ok_def)
qed simp

lemma gaps_safe: "run_ok k (e # run) \<Longrightarrow> list_all is_safe (gaps (e # run))"
proof (induction run arbitrary: e)
  case (Cons y run)
  then show ?case by (simp add: run_ok_def continues_run_def)
qed simp

lemma run_last_seq: "run_ok k (e # run) \<Longrightarrow> ev_seq e + int (length run) = ev_seq (last (e # run))"
proof (induction run arbitrary: e)
  case (Cons y run)
  then have "run_ok k (y # run)" and "ev_seq y = ev_seq e + 1" by (simp_all add: run_ok_def continues_run_def)
  with Cons.IH [of y] show ?case by simp
qed simp

lemma json_strings_map [simp]: "json_strings (map JStr ss) = Some ss"
  by (induction ss) simp_all

lemma json_safe_ints_map [simp]: "list_all is_safe ns \<Longrightarrow> json_safe_ints (map JInt ns) = Some ns"
  by (induction ns) simp_all

text \<open>What the writer makes of a run, the reader expands to the run.\<close>

lemma expand_build_row:
  assumes "run_ok k (e # run)"
  shows "expand_row (build_row k (e # run)) = e # run"
proof -
  have data: "ev_data x = AssistantChunk (chunk_turn e) (chunk_step e)
      (delta_of k (chunk_index (delta_chunk e)) (tool_call_of (delta_chunk e)) (chunk_payload (delta_chunk x)))"
    if x: "x \<in> set (e # run)" for x
  proof -
    have "classify x = Some k" using assms x by (auto simp: run_ok_def)
    moreover have "x = e \<or> (chunk_turn x = chunk_turn e \<and> chunk_step x = chunk_step e \<and>
        chunk_index (delta_chunk x) = chunk_index (delta_chunk e) \<and>
        tool_call_of (delta_chunk x) = tool_call_of (delta_chunk e))"
      using run_uniform [OF assms] x by auto
    ultimately show ?thesis using classify_Some(1) [of x k] by auto
  qed
  define b where "b = \<lparr>rd_turn = chunk_turn e, rd_step = chunk_step e,
      rd_index = chunk_index (delta_chunk e), rd_dt = gaps (e # run)\<rparr>"
  define call where "call = tool_call_of (delta_chunk e)"
  have "expand_members b (delta_of k (rd_index b) call) (ev_seq e) (ev_time e) (gaps (e # run))
      (map (\<lambda>x. chunk_payload (delta_chunk x)) (e # run)) = e # run"
    by (rule expand_members_run [OF assms]) (use data in \<open>simp add: b_def call_def\<close>)
  moreover have "expand_row (build_row k (e # run)) =
      expand_members b (delta_of k (rd_index b) call) (ev_seq e) (ev_time e) (gaps (e # run))
        (map (\<lambda>x. chunk_payload (delta_chunk x)) (e # run))"
    by (cases k; cases "tool_call_of (delta_chunk e)")
      (simp_all add: build_row_def Let_def b_def call_def delta_of_fun del: expand_members.simps list.map)
  ultimately show ?thesis by simp
qed

text \<open>The rows a reader accepts.\<close>

definition parts_ok :: "int \<Rightarrow> int \<Rightarrow> run_data \<Rightarrow> string list \<Rightarrow> bool" where
  "parts_ok s t b payload \<longleftrightarrow> is_event_seq s \<and> is_safe t \<and> payload \<noteq> [] \<and> list_all is_safe (rd_dt b) \<and>
     length (rd_dt b) = length payload - 1 \<and> is_safe (s + int (length payload) - 1) \<and> times_safe t (rd_dt b)"

fun row_ok :: "chunk_row \<Rightarrow> bool" where
  "row_ok (TextChunks s t b texts) = parts_ok s t b texts"
| "row_ok (ReasoningChunks s t b texts) = parts_ok s t b texts"
| "row_ok (ToolCallChunks s t b i name args) = parts_ok s t b args"

lemma validate_run_data_fields:
  assumes "map_get fs ''turn'' = Some (JInt (rd_turn b))" and "map_get fs ''step'' = Some (JInt (rd_step b))"
    and "map_get fs ''index'' = Some (JInt (rd_index b))" and "map_get fs ''dt'' = Some (JArr (map JInt (rd_dt b)))"
    and "map_get fs key = Some (JArr (map JStr payload))"
    and "list_all is_safe (rd_dt b)" and "length (rd_dt b) = length payload - 1" and "payload \<noteq> []"
  shows "validate_run_data fs key = Inr (b, payload)"
  using assms by (cases b) (simp add: validate_run_data_def)

lemma decode_row_json:
  assumes "row_ok row"
  shows "decode_storage_record (RowRecord (row_json row)) = Inr (expand_row row)"
proof (cases row)
  case (TextChunks s t b texts)
  with assms show ?thesis
    by (simp add: parts_ok_def is_event_seq_def decode_storage_record_def row_tag_def validate_row_def has_exact_keys_def
        json_safe_int_def reconstruct_def validate_run_data_fields [of _ b _ texts])
next
  case (ReasoningChunks s t b texts)
  with assms show ?thesis
    by (simp add: parts_ok_def is_event_seq_def decode_storage_record_def row_tag_def validate_row_def has_exact_keys_def
        json_safe_int_def reconstruct_def validate_run_data_fields [of _ b _ texts])
next
  case (ToolCallChunks s t b i name args)
  with assms show ?thesis
    by (cases name) (simp_all add: parts_ok_def is_event_seq_def decode_storage_record_def row_tag_def validate_row_def
        has_exact_keys_def json_safe_int_def reconstruct_def validate_run_data_fields [of _ b _ args])
qed

lemma build_row_ok:
  assumes run: "run_ok k (e # run)"
  shows "row_ok (build_row k (e # run))"
proof -
  have first: "classify e = Some k" and last: "classify (last (e # run)) = Some k"
    using run by (auto simp: run_ok_def)
  have "is_safe (ev_seq e + int (length run))"
    using run_last_seq [OF run] classify_Some(5) [OF last] by (simp add: is_event_seq_def)
  then show ?thesis
    using classify_Some(5,6) [OF first] gaps_safe [OF run] times_safe_run [OF run]
    by (cases k; cases "tool_call_of (delta_chunk e)")
      (simp_all add: build_row_def Let_def parts_ok_def length_gaps)
qed

lemma decode_built_row:
  assumes "run_ok k run" and "run \<noteq> []"
  shows "decode_storage_record (RowRecord (row_json (build_row k run))) = Inr run"
proof -
  from assms(2) obtain e es where "run = e # es" by (cases run) auto
  with assms(1) decode_row_json build_row_ok expand_build_row show ?thesis by metis
qed

subsection \<open>A batch\<close>

text \<open>What reading the events of a log gives: all of them, unless one is named like a row.\<close>

definition readable :: "session_event list \<Rightarrow> (js_error, session_event list) result" where
  "readable es = (if list_ex (\<lambda>e. row_tag (ev_type e)) es then malformed row_envelope else Inr es)"

definition pack_inv :: "session_event list \<Rightarrow> pack_state \<Rightarrow> bool" where
  "pack_inv es st \<longleftrightarrow> (case st of (out, kind, run) \<Rightarrow>
     (\<exists>before. decode_storage out = readable before \<and> es = before @ run \<and> length out \<le> length before) \<and>
     (case kind of None \<Rightarrow> run = [] | Some k \<Rightarrow> run \<noteq> [] \<and> run_ok k run))"

lemma decode_storage_split:
  "decode_storage (rs @ ss) = bindR (decode_storage rs) (\<lambda>es. bindR (decode_storage ss) (\<lambda>fs. Inr (es @ fs)))"
proof (induction rs)
  case (Cons r rs)
  have cons: "decode_storage (r # ts) = bindR (decode_storage_record r) (\<lambda>e. bindR (decode_storage ts) (\<lambda>es. Inr (e @ es)))" for ts
    by (cases "decode_storage_record r"; cases "mapR decode_storage_record ts") (simp_all add: decode_storage_def)
  show ?case
    by (cases "decode_storage_record r"; cases "decode_storage rs"; cases "decode_storage ss")
      (simp_all add: cons Cons)
next
  case Nil
  then show ?case by (cases "decode_storage ss") (simp_all add: decode_storage_def)
qed

lemma decode_storage_append:
  "decode_storage rs = readable es \<Longrightarrow> decode_storage ss = readable fs \<Longrightarrow>
    decode_storage (rs @ ss) = readable (es @ fs)"
  unfolding decode_storage_split by (auto simp: readable_def malformed_def)

lemma decode_storage_events: "decode_storage (map EventRecord es) = readable es"
proof (induction es)
  case (Cons e es)
  have "decode_storage [EventRecord e] = readable [e]"
    by (simp add: decode_storage_def decode_storage_record_def readable_def malformed_def)
  from decode_storage_append [OF this Cons] show ?case by simp
qed (simp add: decode_storage_def readable_def)

lemma readable_run: "run_ok k run \<Longrightarrow> readable run = Inr run"
proof -
  assume run: "run_ok k run"
  have "\<not> row_tag (ev_type e)" if "e \<in> set run" for e
  proof -
    from run that have "classify e = Some k" by (simp add: run_ok_def)
    then have "ev_type e = ''assistant/chunk''" by (auto simp: classify_def split: event_data.splits)
    then show ?thesis by (simp add: row_tag_def)
  qed
  then show ?thesis by (auto simp: readable_def list_ex_iff)
qed

lemma decode_storage_single: "decode_storage [r] = decode_storage_record r"
  by (cases "decode_storage_record r") (simp_all add: decode_storage_def)

lemma flush_run_inv:
  assumes "pack_inv es (out, kind, run)"
  shows "\<exists>out'. flush_run (out, kind, run) = (out', None, []) \<and> decode_storage out' = readable es \<and> length out' \<le> length es"
proof -
  from assms obtain before where b: "decode_storage out = readable before" "es = before @ run" "length out \<le> length before"
      and kind: "case kind of None \<Rightarrow> run = [] | Some k \<Rightarrow> run \<noteq> [] \<and> run_ok k run"
    by (auto simp: pack_inv_def)
  define new where "new = (case kind of
       Some k \<Rightarrow> if min_run \<le> length run then [RowRecord (row_json (build_row k run))] else map EventRecord run
     | None \<Rightarrow> map EventRecord run)"
  have "decode_storage new = readable run \<and> length new \<le> length run"
    using kind decode_built_row [of _ run] readable_run [of _ run]
    by (auto simp: new_def decode_storage_events min_run_def decode_storage_single split: option.splits)
  with b decode_storage_append show ?thesis by (auto simp: new_def)
qed

lemma pack_event_inv:
  assumes "pack_inv es st"
  shows "pack_inv (es @ [e]) (pack_event st e)"
proof -
  obtain out kind run where st: "st = (out, kind, run)" by (cases st)
  from flush_run_inv assms st obtain out' where flush: "flush_run (out, kind, run) = (out', None, [])"
      and out': "decode_storage out' = readable es" "length out' \<le> length es" by blast
  show ?thesis
  proof (cases "classify e")
    case None
    have "decode_storage (out' @ [EventRecord e]) = readable (es @ [e])"
      using decode_storage_append [OF out'(1) decode_storage_events [of "[e]"]] by simp
    with None flush out'(2) show ?thesis by (simp add: st pack_inv_def del: flush_run.simps)
  next
    case (Some k)
    show ?thesis
    proof (cases "kind = Some k \<and> run \<noteq> [] \<and> continues_run (last run) e k")
      case True
      with assms st Some have "run_ok k (run @ [e])"
        by (auto simp: pack_inv_def run_ok_def successively_append_iff)
      with True Some assms show ?thesis by (auto simp: st pack_inv_def)
    next
      case False
      with Some flush out' show ?thesis by (auto simp: st pack_inv_def run_ok_def simp del: flush_run.simps)
    qed
  qed
qed

lemma pack_fold_inv: "pack_inv es st \<Longrightarrow> pack_inv (es @ fs) (foldl pack_event st fs)"
proof (induction fs arbitrary: es st)
  case (Cons f fs)
  with pack_event_inv [of es st f] show ?case by (metis append_Cons append_Nil append_assoc foldl_Cons)
qed simp

lemma pack_decodes: "decode_storage (pack_chunk_runs es) = readable es \<and> length (pack_chunk_runs es) \<le> length es"
proof -
  have "pack_inv [] ([], None, [])" by (simp add: pack_inv_def decode_storage_def readable_def)
  with pack_fold_inv [of "[]" "([], None, [])" es] have "pack_inv es (foldl pack_event ([], None, []) es)" by simp
  then show ?thesis
    using flush_run_inv by (cases "foldl pack_event ([], None, []) es") (fastforce simp: pack_chunk_runs_def)
qed

text \<open>A run packs to one row, however it was made.\<close>

lemma pack_fold_run:
  assumes "run_ok k (pre @ es)" and "pre \<noteq> []"
  shows "foldl pack_event (out, Some k, pre) es = (out, Some k, pre @ es)"
  using assms
proof (induction es arbitrary: pre)
  case (Cons e es)
  then have "classify e = Some k" and "continues_run (last pre) e k"
    by (auto simp: run_ok_def successively_append_iff)
  with Cons.prems have "pack_event (out, Some k, pre) e = (out, Some k, pre @ [e])" by simp
  with Cons.IH [of "pre @ [e]"] Cons.prems show ?case by simp
qed simp

lemma pack_run:
  assumes "run_ok k run" and "min_run \<le> length run"
  shows "pack_chunk_runs run = [RowRecord (row_json (build_row k run))]"
proof -
  from assms(2) obtain e es where run: "run = e # es" by (cases run) (auto simp: min_run_def)
  with assms(1) have "classify e = Some k" by (simp add: run_ok_def)
  then have "pack_event ([], None, []) e = ([], Some k, [e])" by simp
  with pack_fold_run [of k "[e]" es "[]"] assms run show ?thesis by (simp add: pack_chunk_runs_def)
qed

subsection \<open>What the reader accepts\<close>

fun row_kind :: "chunk_row \<Rightarrow> delta_kind" where
  "row_kind (TextChunks _ _ _ _) = TextDeltas"
| "row_kind (ReasoningChunks _ _ _ _) = ReasoningDeltas"
| "row_kind (ToolCallChunks _ _ _ _ _ _) = ToolCallDeltas"

lemma json_safe_ints_Some: "json_safe_ints js = Some ns \<Longrightarrow> list_all is_safe ns \<and> js = map JInt ns"
  by (induction js arbitrary: ns rule: json_safe_ints.induct) (auto split: if_splits)

lemma validate_run_data_Inr:
  assumes "validate_run_data fs key = Inr (b, payload)"
  shows "payload \<noteq> [] \<and> list_all is_safe (rd_dt b) \<and> length (rd_dt b) = length payload - 1"
  using assms
  by (auto simp: validate_run_data_def malformed_def dest: json_safe_ints_Some
      split: option.splits json.splits if_splits)

lemma reconstruct_Inr:
  "reconstruct s t b payload row = Inr row' \<longleftrightarrow>
   row' = row \<and> is_safe (s + int (length payload) - 1) \<and> times_safe t (rd_dt b)"
  by (auto simp: reconstruct_def malformed_def)

lemma validate_row_Inr:
  assumes "validate_row fs tag = Inr row"
  shows "row_ok row"
proof -
  from assms obtain s t ds where "json_safe_int (map_get fs ''seq0'') = Some s" "0 \<le> s"
      "json_safe_int (map_get fs ''time0'') = Some t" "map_get fs ''data'' = Some (JObj ds)"
    by (auto simp: validate_row_def malformed_def split: if_splits option.splits json.splits)
  moreover from this have "is_event_seq s" "is_safe t"
    by (auto simp: json_safe_int_def is_event_seq_def split: option.splits json.splits if_splits)
  ultimately show ?thesis
    using assms
    by (auto simp: validate_row_def malformed_def Let_def result_simps parts_ok_def reconstruct_Inr
        dest!: validate_run_data_Inr split: if_splits option.splits json.splits)
qed

lemma classify_delta:
  assumes "is_event_seq s" and "is_safe t"
  shows "classify \<lparr>ev_seq = s, ev_time = t, ev_data = AssistantChunk turn step (delta_of k i call m),
     ev_ignorable = False, ev_surface_op = None, ev_sources = None\<rparr> = Some k"
  using assms by (cases k) (simp_all add: classify_def is_event_seq_def)

lemma delta_of_fields:
  "chunk_index (delta_of k i call m) = i" "k = ToolCallDeltas \<Longrightarrow> tool_call_of (delta_of k i call m) = call"
  by (cases k; simp)+

lemma expand_members_ok:
  assumes "is_event_seq s" and "is_safe t" and "list_all is_safe dt" and "length dt = length payload - 1"
    and "is_safe (s + int (length payload) - 1)" and "times_safe t dt" and "payload \<noteq> []"
  shows "run_ok k (expand_members b (delta_of k i call) s t dt payload)"
  using assms
proof (induction payload arbitrary: s t dt)
  case (Cons m ms)
  show ?case
  proof (cases ms)
    case Nil
    with Cons.prems show ?thesis by (simp add: run_ok_def classify_delta)
  next
    case (Cons m' ms')
    with Cons.prems obtain d ds where dt: "dt = d # ds" by (cases dt) auto
    have "is_event_seq (s + 1)"
      using Cons.prems(1,5) Cons by (auto simp: is_event_seq_def is_safe_def)
    with Cons.prems dt Cons Cons.IH [of "s + 1" "t + d" ds]
    have "run_ok k (expand_members b (delta_of k i call) (s + 1) (t + d) ds ms)"
      by (simp add: algebra_simps)
    with Cons.prems(1-3) dt Cons show ?thesis
      by (cases ds; simp add: run_ok_def classify_delta continues_run_def chunk_turn_def chunk_step_def
          delta_chunk_def delta_of_fields)
  qed
qed simp

lemma expand_row_ok:
  assumes "row_ok row"
  shows "run_ok (row_kind row) (expand_row row) \<and> expand_row row \<noteq> []"
proof -
  have "expand_members b mk s t dt payload \<noteq> []" if "payload \<noteq> []" for b mk s t dt payload
    using that by (cases payload) auto
  with assms show ?thesis
    using expand_members_ok [where k = TextDeltas] expand_members_ok [where k = ReasoningDeltas]
      expand_members_ok [where k = ToolCallDeltas and call = "(i, name)" for i name]
    by (cases row) (simp_all add: parts_ok_def delta_of_fun)
qed

lemma decode_row_Inr:
  assumes "decode_storage_record (RowRecord j) = Inr es"
  shows "\<exists>k. run_ok k es \<and> es \<noteq> []"
  using assms expand_row_ok
  by (auto simp: decode_storage_record_def row_tag_def malformed_def result_simps dest!: validate_row_Inr
      split: json.splits option.splits if_splits)

subsection \<open>Properties\<close>

text \<open>
  C15. Packing is lossless over any split of a log into batches: whatever the events are, the
  stored records of the batches decode to exactly the events written, in order, and a batch
  never stores more records than events. The one exception is a log with an event named like a
  row (\<open>text-chunks\<close> and so on, without the slash of an event name): it is stored, and refused
  when it is read.
\<close>

theorem chunk_rows_lossless:
  "decode_storage (concat (map pack_chunk_runs batches)) =
     (if list_ex (\<lambda>e. row_tag (ev_type e)) (concat batches) then malformed row_envelope
      else Inr (concat batches)) \<and>
   length (pack_chunk_runs batch) \<le> length batch"
proof -
  have "decode_storage (concat (map pack_chunk_runs batches)) = readable (concat batches)"
  proof (induction batches)
    case (Cons b bs)
    with pack_decodes [of b] show ?case by (simp add: decode_storage_append)
  qed (simp add: decode_storage_def readable_def)
  with pack_decodes [of batch] show ?thesis by (simp add: readable_def)
qed

text \<open>
  The reader accepts only what the writer could have written: a row that decodes, whatever
  JSON it is, yields at least one event, all of them deltas with safe sequences and times,
  numbered without gap in one turn and step; and three or more such events pack back to one row.
\<close>

theorem chunk_rows_bounds:
  assumes "decode_storage_record (RowRecord j) = Inr es"
  shows "es \<noteq> [] \<and> (\<exists>k. \<forall>e \<in> set es. classify e = Some k) \<and>
    (\<forall>i < length es. is_event_seq (ev_seq (es ! i)) \<and> is_safe (ev_time (es ! i)) \<and>
       ev_seq (es ! i) = ev_seq (es ! 0) + int i \<and>
       chunk_turn (es ! i) = chunk_turn (es ! 0) \<and> chunk_step (es ! i) = chunk_step (es ! 0)) \<and>
    (3 \<le> length es \<longrightarrow> length (pack_chunk_runs es) = 1)"
proof -
  from decode_row_Inr [OF assms] obtain k where run: "run_ok k es" and "es \<noteq> []" by blast
  then obtain e rest where es: "es = e # rest" by (cases es) auto
  have kind: "\<forall>x \<in> set es. classify x = Some k" using run by (simp add: run_ok_def)
  have at: "is_event_seq (ev_seq (es ! i)) \<and> is_safe (ev_time (es ! i)) \<and>
      ev_seq (es ! i) = ev_seq (es ! 0) + int i \<and>
      chunk_turn (es ! i) = chunk_turn (es ! 0) \<and> chunk_step (es ! i) = chunk_step (es ! 0)"
    if i: "i < length es" for i
  proof -
    have "run_ok k (take (Suc i) es)"
      using run set_take_subset [of "Suc i" es] append_take_drop_id [of "Suc i" es]
      by (metis (no_types, lifting) run_ok_def subsetD successively_append_iff)
    with run_last_seq [of k e "take i rest"] i es
    have "ev_seq e + int i = ev_seq (last (e # take i rest))" by simp
    also have "last (e # take i rest) = es ! i"
      using i es by (cases i) (auto simp: take_Suc_conv_app_nth)
    finally have "ev_seq (es ! i) = ev_seq e + int i" by simp
    moreover have "es ! i = e \<or> es ! i \<in> set rest" using i es by (cases i) auto
    ultimately show ?thesis
      using kind i classify_Some(5,6) [of "es ! i" k] run_uniform [of k e rest] run es nth_mem [OF i] by auto
  qed
  have "3 \<le> length es \<Longrightarrow> length (pack_chunk_runs es) = 1"
    using pack_run [OF run] by (simp add: min_run_def)
  with es kind at show ?thesis by blast
qed

definition sample_row :: json where
  "sample_row = row_json (TextChunks 4 100 \<lparr>rd_turn = 1, rd_step = 1, rd_index = 0, rd_dt = [5, -2]\<rparr>
     [''a'', ''b'', ''c''])"

lemma chunk_rows_bounds_witness:
  "\<exists>es. decode_storage_record (RowRecord sample_row) = Inr es \<and> length es = 3 \<and> length (pack_chunk_runs es) = 1"
proof -
  have "(case decode_storage_record (RowRecord sample_row) of Inr es \<Rightarrow> length es = 3 | Inl _ \<Rightarrow> False)" by code_simp
  then obtain es where "decode_storage_record (RowRecord sample_row) = Inr es" "length es = 3"
    by (auto split: sum.splits)
  with chunk_rows_bounds [of sample_row es] show ?thesis by auto
qed

end
