(* ===== verification/TeamTypes.thy ===== *)
theory TeamTypes
  imports JsText
begin

text \<open>
  The vocabulary of a TeamRun (\<open>packages/collaboration/agent-team/src/types.ts\<close>), its text
  normalisation (\<open>validation.ts\<close>) and its policy (\<open>policy.ts\<close>). Branded identities are
  strings; a stored actor that is the Lead always has the name \<open>lead\<close>.
\<close>

subsection \<open>Runs\<close>

datatype complexity = SimpleRun | MediumRun | ComplexRun

datatype run_phase =
    Profiling | Planning | Provisioning | ActivePhase | Completing
  | CompletedPhase | FormationFailed | FailedPhase | CancelledPhase

datatype run_status =
    Forming | Running | BlockedStatus | Reviewing | Reworking
  | CompletedStatus | TeamFormationFailed | FailedStatus | CancelledStatus

datatype detail_value = DetailString string | DetailNumber int | DetailBool bool | DetailNull

record team_failure =
  fl_code :: string
  fl_message :: string
  fl_retryable :: bool
  fl_details :: "(string \<times> detail_value) list"

record run_policy =
  po_max_active :: int
  po_max_attempts :: int
  po_max_tasks :: int
  po_max_messages :: int
  po_max_message_bytes :: int
  po_max_artifacts :: int
  po_max_artifact_bytes :: int
  po_stall_threshold :: int

datatype actor_ref = LeadActor string | ExpertActor string string string

fun actor_name :: "actor_ref \<Rightarrow> string" where
  "actor_name (LeadActor _) = ''lead''"
| "actor_name (ExpertActor _ _ n) = n"

subsection \<open>Members, tasks and messages\<close>

datatype member_phase = MemberProvisioning | MemberActive | MemberFailed

record team_member =
  mb_id :: string
  mb_session :: string
  mb_name :: string
  mb_role :: string
  mb_slot :: "string option"
  mb_attempt :: string
  mb_number :: int
  mb_phase :: member_phase
  mb_failure :: "team_failure option"

datatype task_status = TaskPending | TaskInProgress | TaskCompleted | TaskDeleted

record team_task =
  tk_id :: string
  tk_revision :: int
  tk_subject :: string
  tk_description :: string
  tk_status :: task_status
  tk_owner :: "actor_ref option"
  tk_blocked_by :: "string list"
  tk_scopes :: "string list"

datatype message_kind =
    KTask | KInform | KProposal | KRequestHelp | KChallenge | KResponse | KReview | KDecision
  | KHandoff | KBlocked | KCompletionRequest | KArtifact | KStatus | KFinalDelivery

record message_refs =
  rf_task :: "string option"
  rf_challenge :: "string option"
  rf_decision :: "string option"
  rf_artifact :: "string option"

record stored_message =
  sm_id :: string
  sm_thread :: string
  sm_kind :: message_kind
  sm_author :: actor_ref
  sm_targets :: "actor_ref list"
  sm_refs :: message_refs
  sm_content :: string

record public_message = stored_message +
  pm_event :: string
  pm_sequence :: int
  pm_run :: string
  pm_created_at :: int

subsection \<open>Protocol and ledgers\<close>

datatype topology = ProducerReviewer | Centralized | ParallelTeam | HybridTeam | GroupedTeam

record permissions =
  pr_challenge :: bool
  pr_review :: bool
  pr_request_help :: bool

record expert_rule =
  ru_slot :: string
  ru_initial :: string
  ru_name :: string
  ru_permissions :: permissions
  ru_targets :: "string list"

record team_protocol =
  pt_topology :: topology
  pt_max_rounds :: int
  pt_max_messages :: int
  pt_experts :: "expert_rule list"

datatype artifact_status = ArtifactDraft | ArtifactReview | ArtifactAccepted | ArtifactSuperseded

record stored_artifact =
  ar_id :: string
  ar_version :: int
  ar_kind :: string
  ar_title :: string
  ar_status :: artifact_status
  ar_author :: actor_ref
  ar_tasks :: "string list"
  ar_media :: string
  ar_body :: string

record team_artifact = stored_artifact +
  ar_updated_at :: int

datatype decision_outcome =
    OutAccepted | OutRejected | OutRevise | OutUnresolved | OutReassign | OutRework | OutReplan

record stored_decision =
  dc_id :: string
  dc_version :: int
  dc_subject :: string
  dc_outcome :: decision_outcome
  dc_summary :: string
  dc_rationale :: string
  dc_tasks :: "string list"
  dc_artifacts :: "string list"
  dc_lead :: string

record team_decision = stored_decision +
  dc_created_at :: int

datatype gate_status = GatePending | GatePassed | GateFailed

record stored_gate =
  qg_id :: string
  qg_version :: int
  qg_name :: string
  qg_status :: gate_status
  qg_reviewer :: "actor_ref option"
  qg_task :: "string option"
  qg_artifact :: "string option"
  qg_summary :: string

record quality_gate = stored_gate +
  qg_updated_at :: int

subsection \<open>Normalisation\<close>

datatype team_error = TeamError string

text \<open>A command failure carries its stable code.\<close>

definition required_text :: "string \<Rightarrow> int \<Rightarrow> (team_error, string) result" where
  "required_text value maximum =
     (let t = trim value in
      throw_if (t = []) (TeamError ''TEAM_INVALID_ARGUMENT'')
      (throw_if (maximum < int (length t)) (TeamError ''TEAM_INVALID_ARGUMENT'') (Inr t)))"

text \<open>The expression \<open>^[a-z0-9]+(?:-[a-z0-9]+)*$\<close>.\<close>

definition is_expert_name :: "string \<Rightarrow> bool" where
  "is_expert_name s = (case s of [] \<Rightarrow> False | c # cs \<Rightarrow> (is_lower c \<or> is_digit c) \<and> kebab_rest False cs)"

definition expert_name :: "string \<Rightarrow> (team_error, string) result" where
  "expert_name value =
     throw_if (\<not> is_expert_name value \<or> 64 < length value \<or> value = ''lead'')
       (TeamError ''TEAM_INVALID_ARGUMENT'') (Inr value)"

definition is_control :: "char \<Rightarrow> bool" where
  "is_control c \<longleftrightarrow> (let n = (of_char c :: nat) in n < 32 \<or> n = 127)"

definition strip_slashes :: "string \<Rightarrow> string" where
  "strip_slashes s = rev (dropWhile (\<lambda>c. c = CHR ''/'') (rev s))"

definition resource_scope :: "string \<Rightarrow> (team_error, string) result" where
  "resource_scope value =
     (let n = strip_slashes (map (\<lambda>c. if c = char_of (92 :: nat) then CHR ''/'' else c) (trim value)) in
      throw_if (n = [] \<or> 512 < length n \<or> list_ex is_control n \<or>
          list_ex (\<lambda>s. s = [] \<or> s = ''.'' \<or> s = ''..'') (split_on (CHR ''/'') n))
        (TeamError ''TEAM_INVALID_ARGUMENT'') (Inr n))"

definition starts_with :: "string \<Rightarrow> string \<Rightarrow> bool" where
  "starts_with s p \<longleftrightarrow> take (length p) s = p"

definition scopes_overlap :: "string \<Rightarrow> string \<Rightarrow> bool" where
  "scopes_overlap left right \<longleftrightarrow>
     left = right \<or> starts_with left (right @ ''/'') \<or> starts_with right (left @ ''/'')"

subsection \<open>Policy\<close>

fun complexity_band :: "complexity \<Rightarrow> int \<times> int" where
  "complexity_band SimpleRun = (3, 3)"
| "complexity_band MediumRun = (3, 4)"
| "complexity_band ComplexRun = (5, 8)"

definition product_max_active :: int where
  "product_max_active = 8"

definition validate_planned :: "complexity \<Rightarrow> int \<Rightarrow> int \<Rightarrow> (team_error, int) result" where
  "validate_planned c planned max_active =
     (case complexity_band c of (minimum, maximum) \<Rightarrow>
        (let legacy = (c = SimpleRun \<and> planned = 1) \<or> (c = MediumRun \<and> planned = 2) in
         throw_if (\<not> is_safe planned \<or> (\<not> legacy \<and> (planned < minimum \<or> maximum < planned)))
           (TeamError ''TEAM_INVALID_ARGUMENT'')
         (throw_if (max_active < planned) (TeamError ''TEAM_MEMBER_LIMIT'') (Inr planned))))"

definition validate_policy :: "run_policy \<Rightarrow> (team_error, run_policy) result" where
  "validate_policy p =
     (if list_all (\<lambda>(v, maximum). is_safe v \<and> 1 \<le> v \<and> v \<le> maximum)
           [(po_max_active p, product_max_active), (po_max_attempts p, max_safe), (po_max_tasks p, max_safe),
            (po_max_messages p, max_safe), (po_max_message_bytes p, max_safe), (po_max_artifacts p, max_safe),
            (po_max_artifact_bytes p, max_safe), (po_stall_threshold p, max_safe)]
      then Inr p else Inl (TeamError ''TEAM_INVALID_CONFIG''))"

lemma validate_planned_Inr:
  "validate_planned c n m = Inr k \<Longrightarrow> k = n \<and> 1 \<le> n \<and> n \<le> 8 \<and> n \<le> m"
  by (cases c) (auto simp: validate_planned_def Let_def result_simps)

lemma validate_policy_Inr:
  "validate_policy p = Inr q \<Longrightarrow> q = p \<and> 1 \<le> po_max_active p \<and> po_max_active p \<le> 8 \<and> 1 \<le> po_max_attempts p \<and>
     1 \<le> po_max_tasks p \<and> 1 \<le> po_max_messages p \<and> 1 \<le> po_max_artifacts p"
  by (auto simp: validate_policy_def product_max_active_def split: if_splits)

lemma required_text_Inr:
  "required_text v m = Inr t \<longleftrightarrow> t = trim v \<and> t \<noteq> [] \<and> int (length t) \<le> m"
  by (auto simp: required_text_def Let_def result_simps)

lemma scopes_overlap_sym: "scopes_overlap a b = scopes_overlap b a"
  by (auto simp: scopes_overlap_def)

text \<open>A normalised scope is its own normal form.\<close>

lemma resource_scope_idem:
  assumes "resource_scope v = Inr n"
  shows "length n \<le> 512" and "n \<noteq> []"
  using assms by (auto simp: resource_scope_def Let_def result_simps)

end
