(* ===== verification/TaskGraph.thy ===== *)
theory TaskGraph
  imports TeamTypes
begin

text \<open>
  The dependency check of TeamRun tasks (\<open>packages/collaboration/agent-team/src/task-graph.ts\<close>):
  one scan of the live tasks builds the blocker counts and the lists of dependents, and a work
  list removes tasks without open blockers until none is left.
\<close>

subsection \<open>The code\<close>

datatype graph_violation = GraphMissing | GraphDuplicate | GraphCycle

type_synonym tasks = "(string, team_task) jsmap"

definition is_live :: "team_task \<Rightarrow> bool" where
  "is_live t \<longleftrightarrow> tk_status t \<noteq> TaskDeleted"

definition live_tasks :: "tasks \<Rightarrow> tasks" where
  "live_tasks ts = filter (\<lambda>p. is_live (snd p)) ts"

text \<open>\<open>dependents\<close> and \<open>remainingBlockers\<close> after the tasks scanned so far.\<close>

type_synonym graph_state = "(string, string list) jsmap \<times> (string, int) jsmap"

definition add_consumer :: "string \<Rightarrow> string \<Rightarrow> (string, string list) jsmap \<Rightarrow> (string, string list) jsmap" where
  "add_consumer i b m = map_set b ((case map_get m b of None \<Rightarrow> [] | Some cs \<Rightarrow> cs) @ [i]) m"

definition scan_blockers ::
    "tasks \<Rightarrow> string \<Rightarrow> (string, string list) jsmap \<Rightarrow> string list
      \<Rightarrow> (graph_violation, (string, string list) jsmap) result" where
  "scan_blockers live i = foldR (\<lambda>m b. throw_if (\<not> map_has live b) GraphMissing (Inr (add_consumer i b m)))"

definition scan_task :: "tasks \<Rightarrow> graph_state \<Rightarrow> string \<times> team_task \<Rightarrow> (graph_violation, graph_state) result" where
  "scan_task live st p =
     (case (st, p) of ((dependents, remaining), (i, t)) \<Rightarrow>
        throw_if (\<not> distinct (tk_blocked_by t)) GraphDuplicate
        (throw_if (i \<in> set (tk_blocked_by t)) GraphCycle
        (bindR (scan_blockers live i dependents (tk_blocked_by t)) (\<lambda>dependents'.
         Inr (dependents', map_set i (int (length (tk_blocked_by t))) remaining)))))"

definition count_of :: "(string, int) jsmap \<Rightarrow> string \<Rightarrow> int" where
  "count_of remaining i = (case map_get remaining i of None \<Rightarrow> 0 | Some n \<Rightarrow> n)"

fun relax :: "string list \<Rightarrow> (string, int) jsmap \<Rightarrow> string list \<Rightarrow> (string, int) jsmap \<times> string list" where
  "relax [] remaining ready = (remaining, ready)"
| "relax (d # ds) remaining ready =
     (let n = count_of remaining d - 1 in
      relax ds (map_set d n remaining) (if n = 0 then ready @ [d] else ready))"

definition open_count :: "(string, int) jsmap \<Rightarrow> nat" where
  "open_count remaining = length (filter (\<lambda>p. 0 < snd p) remaining)"

lemma open_count_set:
  "open_count (map_set d (count_of m d - 1) m) + (if count_of m d - 1 = 0 then 1 else 0) \<le> open_count m"
  by (induction m) (auto simp: open_count_def count_of_def split: if_splits)

lemma relax_measure:
  "relax ds m ready = (m', ready') \<Longrightarrow> length ready' + open_count m' \<le> length ready + open_count m"
proof (induction ds arbitrary: m ready)
  case (Cons d ds)
  from Cons.IH [OF Cons.prems [simplified relax.simps Let_def]] open_count_set [of d m]
  show ?case by (auto split: if_splits)
qed simp

text \<open>The work list, popped at its end; \<open>visited\<close> counts the tasks removed.\<close>

function kahn :: "(string, string list) jsmap \<Rightarrow> string list \<Rightarrow> (string, int) jsmap \<Rightarrow> nat \<Rightarrow> nat" where
  "kahn dependents ready remaining visited =
     (if ready = [] then visited
      else (case relax (case map_get dependents (last ready) of None \<Rightarrow> [] | Some ds \<Rightarrow> ds) remaining (butlast ready) of
              (remaining', ready') \<Rightarrow> kahn dependents ready' remaining' (visited + 1)))"
  by pat_completeness auto
termination
proof (relation "measure (\<lambda>(dependents, ready, remaining, visited). length ready + open_count remaining)", goal_cases)
  case (2 dependents ready remaining visited remaining' ready')
  then have "length ready' + open_count remaining' \<le> length (butlast ready) + open_count remaining"
    by (intro relax_measure) simp
  with 2(1) show ?case by (cases ready rule: rev_cases) auto
qed simp

declare kahn.simps [simp del]

definition assert_task_graph :: "tasks \<Rightarrow> team_task \<Rightarrow> (graph_violation, unit) result" where
  "assert_task_graph current candidate =
     (let live = live_tasks (map_set (tk_id candidate) candidate current) in
      bindR (foldR (scan_task live) ([], []) live) (\<lambda>(dependents, remaining).
      let ready = map fst (filter (\<lambda>p. snd p = 0) remaining);
          visited = kahn dependents ready remaining 0
      in throw_if (visited \<noteq> length live) GraphCycle (Inr ())))"

subsection \<open>The scan\<close>

abbreviation blockers :: "tasks \<Rightarrow> string \<Rightarrow> string set" where
  "blockers live i \<equiv> (case map_get live i of None \<Rightarrow> {} | Some t \<Rightarrow> set (tk_blocked_by t))"

definition task_edges :: "tasks \<Rightarrow> (string \<times> string) set" where
  "task_edges live = {(b, i). b \<in> blockers live i}"

definition consumers_of :: "(string, string list) jsmap \<Rightarrow> string \<Rightarrow> string list" where
  "consumers_of m b = (case map_get m b of None \<Rightarrow> [] | Some cs \<Rightarrow> cs)"

lemma consumers_add: "consumers_of (add_consumer i b m) c = (if c = b then consumers_of m c @ [i] else consumers_of m c)"
  by (simp add: consumers_of_def add_consumer_def)

lemma scan_blockers_ok: "is_ok (scan_blockers live i m bs) \<longleftrightarrow> (\<forall>b \<in> set bs. map_has live b)"
  unfolding scan_blockers_def by (rule foldR_is_ok) (simp add: result_simps)

lemma scan_blockers_Inr:
  "scan_blockers live i m bs = Inr m' \<Longrightarrow> distinct bs \<Longrightarrow>
   consumers_of m' b = consumers_of m b @ (if b \<in> set bs then [i] else [])"
  unfolding scan_blockers_def
proof (induction bs arbitrary: m)
  case (Cons x bs)
  then show ?case by (auto simp: result_simps consumers_add)
qed simp

definition task_relations_ok :: "tasks \<Rightarrow> string \<times> team_task \<Rightarrow> bool" where
  "task_relations_ok live p \<longleftrightarrow> distinct (tk_blocked_by (snd p)) \<and> fst p \<notin> set (tk_blocked_by (snd p)) \<and>
     (\<forall>b \<in> set (tk_blocked_by (snd p)). map_has live b)"

lemma scan_task_ok: "is_ok (scan_task live st p) \<longleftrightarrow> task_relations_ok live p"
  using scan_blockers_ok [of live "fst p" "fst st" "tk_blocked_by (snd p)"]
  by (cases st; cases p) (auto simp: scan_task_def task_relations_ok_def result_simps is_ok_iff)

lemma scan_ok: "is_ok (foldR (scan_task live) st ts) \<longleftrightarrow> (\<forall>p \<in> set ts. task_relations_ok live p)"
  by (rule foldR_is_ok) (rule scan_task_ok)

lemma scan_Inr:
  assumes "foldR (scan_task live) ([], []) ts = Inr (dependents, remaining)" and "distinct (map fst ts)"
  shows "remaining = map (\<lambda>p. (fst p, int (length (tk_blocked_by (snd p))))) ts \<and>
    (\<forall>b. consumers_of dependents b = map fst (filter (\<lambda>p. b \<in> set (tk_blocked_by (snd p))) ts))"
  using assms
proof (induction ts arbitrary: dependents remaining rule: rev_induct)
  case Nil
  then show ?case by (simp add: consumers_of_def)
next
  case (snoc p ts)
  obtain i t where p: "p = (i, t)" by force
  from snoc.prems obtain d0 r0 where prev: "foldR (scan_task live) ([], []) ts = Inr (d0, r0)"
      and step: "scan_task live (d0, r0) (i, t) = Inr (dependents, remaining)"
    by (auto simp: foldR_snoc result_simps p)
  from step have bs: "scan_blockers live i d0 (tk_blocked_by t) = Inr dependents" "distinct (tk_blocked_by t)"
      and r: "remaining = map_set i (int (length (tk_blocked_by t))) r0"
    by (auto simp: scan_task_def result_simps)
  from snoc.IH [OF prev] snoc.prems(2) have
      r0: "r0 = map (\<lambda>p. (fst p, int (length (tk_blocked_by (snd p))))) ts"
      and d0: "\<forall>b. consumers_of d0 b = map fst (filter (\<lambda>p. b \<in> set (tk_blocked_by (snd p))) ts)" by simp_all
  have "map_get r0 i = None"
    using snoc.prems(2) by (force simp: r0 map_of_eq_None_iff p)
  then have "remaining = r0 @ [(i, int (length (tk_blocked_by t)))]" by (simp add: r map_set_fresh)
  then show ?case using r0 d0 scan_blockers_Inr [OF bs] by (simp add: p)
qed

subsection \<open>The work list\<close>

lemma count_of_set: "count_of (map_set d n m) i = (if i = d then n else count_of m i)"
  by (simp add: count_of_def)

lemma relax_spec:
  assumes "relax ds m ready = (m', ready')" and "distinct ds"
  shows "(\<forall>i. count_of m' i = count_of m i - (if i \<in> set ds then 1 else 0)) \<and>
    ready' = ready @ filter (\<lambda>d. count_of m d = 1) ds"
  using assms
proof (induction ds arbitrary: m ready)
  case (Cons d ds)
  then have "relax ds (map_set d (count_of m d - 1) m) (if count_of m d - 1 = 0 then ready @ [d] else ready) = (m', ready')"
    by (simp add: Let_def)
  from Cons.IH [OF this] Cons.prems(2)
  have count: "\<forall>i. count_of m' i = count_of (map_set d (count_of m d - 1) m) i - (if i \<in> set ds then 1 else 0)"
    and ready: "ready' = (if count_of m d - 1 = 0 then ready @ [d] else ready) @
        filter (\<lambda>c. count_of (map_set d (count_of m d - 1) m) c = 1) ds" by simp_all
  moreover have "filter (\<lambda>c. count_of (map_set d (count_of m d - 1) m) c = 1) ds = filter (\<lambda>c. count_of m c = 1) ds"
    using Cons.prems(2) by (intro filter_cong) (auto simp: count_of_set)
  ultimately show ?case using Cons.prems(2) by (auto simp: count_of_set)
qed simp

text \<open>
  What the work list keeps: the removed tasks in order, each after its blockers; the remaining
  counts; and on the list exactly the tasks that are free but not removed.
\<close>

definition kahn_inv :: "tasks \<Rightarrow> string list \<Rightarrow> string list \<Rightarrow> (string, int) jsmap \<Rightarrow> bool" where
  "kahn_inv live order ready remaining \<longleftrightarrow>
     distinct (order @ ready) \<and> set (order @ ready) \<subseteq> fst ` set live \<and>
     (\<forall>i \<in> fst ` set live. count_of remaining i = int (card (blockers live i - set order)) \<and>
        (i \<in> set (order @ ready) \<longleftrightarrow> count_of remaining i = 0)) \<and>
     (\<forall>pre x post. order = pre @ x # post \<longrightarrow> blockers live x \<subseteq> set pre)"

lemma kahn_step:
  assumes inv: "kahn_inv live order (rs @ [x]) remaining"
    and ds: "distinct ds" "set ds = {i \<in> fst ` set live. x \<in> blockers live i}"
    and relax: "relax ds remaining rs = (remaining', ready')"
  shows "kahn_inv live (order @ [x]) ready' remaining'"
proof -
  from relax_spec [OF relax ds(1)] have
      count': "\<And>i. count_of remaining' i = count_of remaining i - (if i \<in> set ds then 1 else 0)"
      and ready': "ready' = rs @ filter (\<lambda>d. count_of remaining d = 1) ds" by simp_all
  have x: "x \<in> fst ` set live" "x \<notin> set order" using inv by (auto simp: kahn_inv_def)
  have count: "count_of remaining i = int (card (blockers live i - set order))"
    and zero: "i \<in> set (order @ rs @ [x]) \<longleftrightarrow> count_of remaining i = 0" if "i \<in> fst ` set live" for i
    using inv that by (auto simp: kahn_inv_def)
  have fin: "finite (blockers live i - set order)" for i by (auto split: option.split)
  have new: "count_of remaining' i = int (card (blockers live i - set (order @ [x])))"
    if i: "i \<in> fst ` set live" for i
  proof (cases "x \<in> blockers live i")
    case True
    then have "blockers live i - set (order @ [x]) = (blockers live i - set order) - {x}"
      and "x \<in> blockers live i - set order" using x by auto
    moreover from this(2) have "card (blockers live i - set order) \<noteq> 0" using fin [of i] by auto
    ultimately show ?thesis
      using count [OF i] count' [of i] True i ds(2) card_Diff_singleton [of x "blockers live i - set order"]
      by (simp add: of_nat_diff)
  next
    case False
    then have "blockers live i - set (order @ [x]) = blockers live i - set order" by auto
    with False show ?thesis using count [OF i] count' [of i] ds(2) by simp
  qed
  have free: "blockers live i \<subseteq> set order" if "i \<in> fst ` set live" "i \<in> set (order @ rs @ [x])" for i
    using count [OF that(1)] zero [OF that(1)] that(2) fin [of i] by simp
  have away: "i \<notin> set (order @ rs @ [x])" if "i \<in> set ds" "count_of remaining i = 1" for i
    using zero [of i] ds(2) that by force
  have "distinct (order @ [x] @ ready')"
    using inv ds(1) away by (auto simp: kahn_inv_def ready')
  moreover have "set (order @ [x] @ ready') \<subseteq> fst ` set live"
    using inv ds by (auto simp: kahn_inv_def ready')
  moreover have "i \<in> set (order @ [x] @ ready') \<longleftrightarrow> count_of remaining' i = 0" if i: "i \<in> fst ` set live" for i
  proof (cases "i \<in> set (order @ rs @ [x])")
    case True
    with free [OF i] x have "i \<notin> set ds" by (auto simp: ds(2))
    with True zero [OF i] show ?thesis by (auto simp: count' ready')
  next
    case False
    with zero [OF i] show ?thesis by (auto simp: count' ready')
  qed
  moreover have "blockers live y \<subseteq> set pre" if "order @ [x] = pre @ y # post" for pre y post
  proof (cases post rule: rev_cases)
    case Nil
    with that free [OF x(1)] show ?thesis by simp
  next
    case (snoc post' z)
    with that have "order = pre @ y # post'" by simp
    with inv show ?thesis by (simp add: kahn_inv_def)
  qed
  ultimately show ?thesis using new by (simp add: kahn_inv_def)
qed

lemma kahn_run:
  assumes "kahn_inv live order ready remaining" and "map_ok live"
    and "\<And>b. distinct (consumers_of dependents b) \<and> set (consumers_of dependents b) = {i \<in> fst ` set live. b \<in> blockers live i}"
  shows "\<exists>order' remaining'. kahn_inv live order' [] remaining' \<and>
    kahn dependents ready remaining (length order) = length order'"
  using assms
proof (induction dependents ready remaining "length order" arbitrary: order rule: kahn.induct)
  case (1 dependents ready remaining order)
  show ?case
  proof (cases ready rule: rev_cases)
    case Nil
    with 1(2) show ?thesis by (subst kahn.simps) auto
  next
    case (snoc rs x)
    obtain remaining' ready' where relax: "relax (consumers_of dependents x) remaining rs = (remaining', ready')"
      by (metis surj_pair)
    have "kahn_inv live (order @ [x]) ready' remaining'"
      by (rule kahn_step [OF _ _ _ relax]) (use 1(2,4) snoc in auto)
    then have "\<exists>order' remaining''. kahn_inv live order' [] remaining'' \<and>
        kahn dependents ready' remaining' (length (order @ [x])) = length order'"
      using 1(1) [where order = "order @ [x]"] 1(3,4) snoc relax by (simp add: consumers_of_def)
    with snoc relax show ?thesis by (subst kahn.simps) (simp add: consumers_of_def)
  qed
qed

subsection \<open>Acyclicity\<close>

definition task_dag :: "tasks \<Rightarrow> bool" where
  "task_dag live \<longleftrightarrow>
     (\<forall>(i, t) \<in> set live. distinct (tk_blocked_by t) \<and> set (tk_blocked_by t) \<subseteq> fst ` set live) \<and>
     acyclic (task_edges live)"

lemma ordered_acyclic:
  assumes "distinct order" and "\<And>b i. (b, i) \<in> r \<Longrightarrow> \<exists>pre post. order = pre @ i # post \<and> b \<in> set pre"
  shows "acyclic r"
proof (rule acyclicI_order)
  define at where "at x = length (takeWhile (\<lambda>y. y \<noteq> x) order)" for x
  fix b i assume "(b, i) \<in> r"
  with assms(2) obtain pre post where order: "order = pre @ i # post" and b: "b \<in> set pre" by blast
  then obtain pre1 pre2 where pre: "pre = pre1 @ b # pre2" and "b \<notin> set pre1" by (meson split_list_first)
  have first: "takeWhile (\<lambda>y. y \<noteq> x) (xs @ x # ys) = xs" if "x \<notin> set xs" for x :: 'a and xs ys
    using that by (induction xs) auto
  from assms(1) order have "i \<notin> set pre" by simp
  then have "at i = length pre" by (simp add: at_def order first)
  moreover have "at b = length pre1"
    using first [OF \<open>b \<notin> set pre1\<close>, of "pre2 @ i # post"] by (simp add: at_def order pre)
  ultimately have "at b < at i" by (simp add: pre)
  then show "- int (at i) < - int (at b)" by simp
qed

lemma task_edges_live: "map_ok live \<Longrightarrow> b \<in> blockers live i \<longleftrightarrow> (\<exists>t. (i, t) \<in> set live \<and> b \<in> set (tk_blocked_by t))"
proof -
  assume ok: "map_ok live"
  have "map_get live i = Some t \<longleftrightarrow> (i, t) \<in> set live" for t
    using ok by (auto dest: map_of_SomeD intro: map_values_get)
  moreover have "b \<in> blockers live i \<longleftrightarrow> (\<exists>t. map_get live i = Some t \<and> b \<in> set (tk_blocked_by t))"
    by (simp split: option.split)
  ultimately show ?thesis by simp
qed

lemma kahn_complete:
  assumes live: "map_ok live" and rel: "\<forall>p \<in> set live. task_relations_ok live p"
    and inv: "kahn_inv live order [] remaining"
  shows "length order = length live \<longleftrightarrow> acyclic (task_edges live)"
proof
  have sub: "set order \<subseteq> fst ` set live" and dist: "distinct order" using inv by (auto simp: kahn_inv_def)
  have card: "card (fst ` set live) = length live"
    using live by (simp add: map_ok_def distinct_card flip: set_map)
  have inside: "blockers live i \<subseteq> fst ` set live" for i
    using rel live by (force simp: task_edges_live task_relations_ok_def map_of_eq_None_iff)
  {
    assume "length order = length live"
    then have "set order = fst ` set live"
      using sub dist card by (intro card_subset_eq) (simp_all add: distinct_card)
    moreover have "i \<in> fst ` set live" if "b \<in> blockers live i" for b i
      using that live by (force simp: task_edges_live)
    ultimately have in_order: "i \<in> set order" if "b \<in> blockers live i" for b i using that by blast
    show "acyclic (task_edges live)"
    proof (rule ordered_acyclic [OF dist])
      fix b i assume "(b, i) \<in> task_edges live"
      then have b: "b \<in> blockers live i" by (simp add: task_edges_def)
      with in_order obtain pre post where order: "order = pre @ i # post" by (meson split_list)
      with inv have "blockers live i \<subseteq> set pre" unfolding kahn_inv_def by blast
      with b order show "\<exists>pre post. order = pre @ i # post \<and> b \<in> set pre" by blast
    qed
  next
    assume "acyclic (task_edges live)"
    moreover have "task_edges live \<subseteq> (fst ` set live) \<times> (fst ` set live)"
      using inside live by (force simp: task_edges_def task_edges_live)
    then have "finite (task_edges live)" by (rule finite_subset) simp
    ultimately have "wf (task_edges live)" by (rule finite_acyclic_wf [rotated])
    have "fst ` set live \<subseteq> set order"
    proof (rule ccontr)
      assume "\<not> ?thesis"
      then obtain i where "i \<in> fst ` set live - set order" by blast
      with wfE_min [OF \<open>wf (task_edges live)\<close>] obtain m where
          m: "m \<in> fst ` set live - set order" and least: "\<And>b. (b, m) \<in> task_edges live \<Longrightarrow> b \<notin> fst ` set live - set order"
        by metis
      then have "blockers live m \<subseteq> set order" using inside [of m] unfolding task_edges_def by blast
      then have "card (blockers live m - set order) = 0" by (metis Diff_eq_empty_iff card.empty)
      moreover have "count_of remaining m = int (card (blockers live m - set order))"
          and "m \<in> set (order @ []) \<longleftrightarrow> count_of remaining m = 0"
        using m inv unfolding kahn_inv_def by blast+
      ultimately show False using m by simp
    qed
    with sub card dist show "length order = length live"
      by (metis distinct_card subset_antisym)
  }
qed

lemma assert_task_graph_iff:
  assumes "map_ok current"
  shows "assert_task_graph current candidate = Inr () \<longleftrightarrow>
    task_dag (live_tasks (map_set (tk_id candidate) candidate current))"
proof -
  define live where "live = live_tasks (map_set (tk_id candidate) candidate current)"
  have ok: "map_ok live"
    using map_ok_set [OF assms, of "tk_id candidate" candidate]
    by (simp add: live_def live_tasks_def map_ok_def distinct_map_filter)
  have rel: "task_relations_ok live p \<longleftrightarrow> distinct (tk_blocked_by (snd p)) \<and> fst p \<notin> set (tk_blocked_by (snd p)) \<and>
      set (tk_blocked_by (snd p)) \<subseteq> fst ` set live" for p
    by (force simp: task_relations_ok_def map_of_eq_None_iff)
  show ?thesis
  proof (cases "foldR (scan_task live) ([], []) live")
    case (Inl err)
    then have "\<not> is_ok (foldR (scan_task live) ([], []) live)" by simp
    then obtain p where p: "p \<in> set live" "\<not> task_relations_ok live p" by (auto simp: scan_ok)
    have "\<not> task_dag live"
    proof
      assume dag: "task_dag live"
      obtain i t where "p = (i, t)" by force
      with p rel dag have "i \<in> set (tk_blocked_by t)" by (auto simp: task_dag_def)
      with ok p \<open>p = (i, t)\<close> have "(i, i) \<in> task_edges live" by (auto simp: task_edges_def task_edges_live)
      with dag show False by (auto simp: task_dag_def acyclic_def)
    qed
    with Inl show ?thesis by (simp add: assert_task_graph_def live_def [symmetric] Let_def)
  next
    case (Inr st)
    obtain dependents remaining where st: "st = (dependents, remaining)" by force
    have rels: "\<forall>p \<in> set live. task_relations_ok live p"
      using Inr scan_ok [of live "([], [])" live] by simp
    have scan: "remaining = map (\<lambda>p. (fst p, int (length (tk_blocked_by (snd p))))) live"
        "\<And>b. consumers_of dependents b = map fst (filter (\<lambda>p. b \<in> set (tk_blocked_by (snd p))) live)"
      using scan_Inr [OF Inr [unfolded st]] ok by (simp_all add: map_ok_def)
    define ready where "ready = map fst (filter (\<lambda>p. snd p = 0) remaining)"
    have "distinct (consumers_of dependents b) \<and>
        set (consumers_of dependents b) = {i \<in> fst ` set live. b \<in> blockers live i}" for b
      using ok by (force simp: scan(2) map_ok_def distinct_map_filter task_edges_live)
    moreover have "kahn_inv live [] ready remaining"
    proof -
      have count: "count_of remaining i = int (card (blockers live i))" if "i \<in> fst ` set live" for i
      proof -
        from that obtain t where "(i, t) \<in> set live" by auto
        with ok rels have "map_get live i = Some t" "distinct (tk_blocked_by t)"
          by (auto simp: map_ok_def task_relations_ok_def)
        moreover have "map_get remaining i = map_option (\<lambda>t. int (length (tk_blocked_by t))) (map_get live i)"
          unfolding scan(1) by (induction live) auto
        ultimately show ?thesis by (simp add: count_of_def distinct_card)
      qed
      have "i \<in> set ready \<longleftrightarrow> count_of remaining i = 0" if "i \<in> fst ` set live" for i
      proof -
        from that obtain t where t: "(i, t) \<in> set live" by auto
        have "map_ok remaining" using ok by (simp add: scan(1) map_ok_def comp_def)
        moreover have "(i, int (length (tk_blocked_by t))) \<in> set remaining" using t by (force simp: scan(1))
        ultimately have "count_of remaining i = int (length (tk_blocked_by t))"
          by (simp add: count_of_def map_ok_def)
        moreover have "i \<in> set ready \<longleftrightarrow> length (tk_blocked_by t) = 0"
          using t ok by (force simp: ready_def scan(1) map_ok_def distinct_map inj_on_def)
        ultimately show ?thesis by simp
      qed
      moreover have "distinct ready" "set ready \<subseteq> fst ` set live"
        using ok by (force simp: ready_def scan(1) map_ok_def comp_def distinct_map_filter)+
      ultimately show ?thesis using count by (simp add: kahn_inv_def)
    qed
    ultimately obtain order remaining' where "kahn_inv live order [] remaining'"
        and "kahn dependents ready remaining 0 = length order"
      using kahn_run [of live "[]" ready remaining dependents] ok by auto
    moreover from this kahn_complete [OF ok rels] have "length order = length live \<longleftrightarrow> task_dag live"
      using rels rel by (fastforce simp: task_dag_def)
    ultimately show ?thesis
      by (simp add: assert_task_graph_def live_def [symmetric] Inr st Let_def ready_def result_simps)
  qed
qed

text \<open>In an acyclic board something can always be done: some open task has no open blocker.\<close>

lemma task_dag_ready:
  assumes dag: "task_dag live" and ok: "map_ok live" and work: "(i, t) \<in> set live" "tk_status t \<noteq> TaskCompleted"
  shows "\<exists>j u. (j, u) \<in> set live \<and> tk_status u \<noteq> TaskCompleted \<and>
    (\<forall>b \<in> set (tk_blocked_by u). \<exists>v. map_get live b = Some v \<and> tk_status v = TaskCompleted)"
proof -
  define done_ids where "done_ids = {j. \<exists>u. (j, u) \<in> set live \<and> tk_status u = TaskCompleted}"
  have same: "u = v" if "(j, u) \<in> set live" "(j, v) \<in> set live" for j u v
    using map_values_get [OF ok that(1)] map_values_get [OF ok that(2)] by simp
  have "task_edges live \<subseteq> (fst ` set live) \<times> (fst ` set live)"
    using dag ok unfolding task_edges_def task_dag_def by (force simp: task_edges_live)
  then have "finite (task_edges live)" by (rule finite_subset) simp
  with dag have "wf (task_edges live)" by (intro finite_acyclic_wf) (simp_all add: task_dag_def)
  moreover have "i \<in> fst ` set live - done_ids"
  proof -
    have "i \<notin> done_ids" using same [OF work(1)] work(2) unfolding done_ids_def by auto
    moreover have "i \<in> fst ` set live" using work(1) by (metis fst_conv image_eqI)
    ultimately show ?thesis by blast
  qed
  ultimately obtain j where j: "j \<in> fst ` set live - done_ids"
      and least: "\<And>b. (b, j) \<in> task_edges live \<Longrightarrow> b \<notin> fst ` set live - done_ids"
    by (metis wfE_min)
  from j obtain u where u: "(j, u) \<in> set live" by auto
  with j have "tk_status u \<noteq> TaskCompleted" by (auto simp: done_ids_def)
  moreover have "\<exists>v. map_get live b = Some v \<and> tk_status v = TaskCompleted" if b: "b \<in> set (tk_blocked_by u)" for b
  proof -
    have "(b, j) \<in> task_edges live" using b u ok by (auto simp: task_edges_def task_edges_live)
    with least have "b \<notin> fst ` set live - done_ids" by simp
    moreover have "b \<in> fst ` set live" using dag u b by (auto simp: task_dag_def)
    ultimately obtain v where "(b, v) \<in> set live" "tk_status v = TaskCompleted" by (auto simp: done_ids_def)
    with ok show ?thesis by (auto intro: map_values_get)
  qed
  ultimately show ?thesis using u by blast
qed

subsection \<open>Properties\<close>

text \<open>
  C19. The dependency check is exact: a candidate task is accepted just when, with it in place,
  every live task names distinct live blockers and the blocking relation of the live tasks has
  no cycle; the work list always terminates.
\<close>

theorem task_graph_exact:
  assumes "distinct (map fst current)"
  shows "assert_task_graph current candidate = Inr () \<longleftrightarrow>
    (let live = live_tasks (map_set (tk_id candidate) candidate current) in
      (\<forall>(i, t) \<in> set live. distinct (tk_blocked_by t) \<and> set (tk_blocked_by t) \<subseteq> fst ` set live) \<and>
      acyclic (task_edges live))"
  using assert_task_graph_iff [of current candidate] assms
  by (simp add: map_ok_def task_dag_def Let_def)

definition sample_task :: "string \<Rightarrow> string list \<Rightarrow> team_task" where
  "sample_task i bs = \<lparr>tk_id = i, tk_revision = 1, tk_subject = ''s'', tk_description = ''d'', tk_status = TaskPending,
     tk_owner = None, tk_blocked_by = bs, tk_scopes = []\<rparr>"

lemma task_graph_exact_witness:
  "acyclic (task_edges [(''a'', sample_task ''a'' []), (''b'', sample_task ''b'' [''a''])]) \<and>
   \<not> acyclic (task_edges [(''a'', sample_task ''a'' [''b'']), (''b'', sample_task ''b'' [''a''])])"
proof -
  define current where "current = [(''a'', sample_task ''a'' []), (''b'', sample_task ''b'' [''a''])]"
  have dist: "distinct (map fst current)" by (simp add: current_def)
  have yes: "assert_task_graph current (sample_task ''b'' [''a'']) = Inr ()"
    and no: "assert_task_graph current (sample_task ''a'' [''b'']) = Inl GraphCycle"
    unfolding current_def by code_simp+
  have "live_tasks (map_set ''b'' (sample_task ''b'' [''a'']) current) = current"
    and "live_tasks (map_set ''a'' (sample_task ''a'' [''b'']) current) =
      [(''a'', sample_task ''a'' [''b'']), (''b'', sample_task ''b'' [''a''])]"
    by (simp_all add: current_def live_tasks_def is_live_def sample_task_def)
  with task_graph_exact [OF dist, of "sample_task ''b'' [''a'']"] yes
    task_graph_exact [OF dist, of "sample_task ''a'' [''b'']"] no
  show ?thesis by (simp add: current_def Let_def) (simp add: sample_task_def)
qed

end
