(* ===== verification/TeamState.thy ===== *)
theory TeamState
  imports TaskGraph
begin

text \<open>
  The replay state of a TeamRun (\<open>packages/collaboration/agent-team/src/fold.ts\<close>), the
  resolution of actors against it (\<open>authority.ts\<close>) and the evidence checks over its ledgers
  (\<open>completion-evidence.ts\<close>).
\<close>

subsection \<open>Events and state\<close>

record team_created =
  cr_lead :: string
  cr_objective :: string
  cr_complexity :: complexity
  cr_planned :: int
  cr_policy :: run_policy

datatype team_body =
    BCreated team_created
  | BPhase run_phase "team_failure option"
  | BMember team_member
  | BTask team_task
  | BMessage stored_message
  | BProtocol team_protocol
  | BArtifact stored_artifact
  | BDecision stored_decision
  | BGate stored_gate

text \<open>A decoded payload of version one.\<close>

record team_payload =
  tp_run :: string
  tp_event :: string
  tp_revision :: int
  tp_body :: team_body

text \<open>
  What the schemas of \<open>schema.ts\<close> make of a session event: not a collaboration event, a value
  without a valid selector, another version, a value of version one with an invalid payload, or
  a payload.
\<close>

datatype team_content =
    NotTeam
  | BadSelector
  | OtherVersion string int
  | BadPayload
  | Payload team_payload

record team_event =
  te_seq :: int
  te_time :: int
  te_content :: team_content

record team_state =
  ts_id :: string
  ts_created :: "team_created option"
  ts_phase :: "run_phase option"
  ts_failure :: "team_failure option"
  ts_revision :: int
  ts_cursor :: int
  ts_members :: "(string, team_member) jsmap"
  ts_by_name :: "(string, string) jsmap"
  ts_by_attempt :: "(string, string) jsmap"
  ts_by_session :: "(string, string) jsmap"
  ts_tasks :: tasks
  ts_messages :: "(string, public_message) jsmap"
  ts_protocol :: "team_protocol option"
  ts_artifacts :: "(string, team_artifact) jsmap"
  ts_decisions :: "(string, team_decision) jsmap"
  ts_gates :: "(string, quality_gate) jsmap"
  ts_activity_cursors :: "(string, int) jsmap"
  ts_activity_times :: "(string, int) jsmap"
  ts_signatures :: "(string, team_payload) jsmap"
  ts_next_task :: int
  ts_last_progress :: int
  ts_next_gate :: int

definition empty_team_state :: "string \<Rightarrow> team_state" where
  "empty_team_state i = \<lparr>ts_id = i, ts_created = None, ts_phase = None, ts_failure = None, ts_revision = 0,
     ts_cursor = -1, ts_members = [], ts_by_name = [], ts_by_attempt = [], ts_by_session = [], ts_tasks = [],
     ts_messages = [], ts_protocol = None, ts_artifacts = [], ts_decisions = [], ts_gates = [],
     ts_activity_cursors = [], ts_activity_times = [], ts_signatures = [], ts_next_task = 1,
     ts_last_progress = 0, ts_next_gate = 1\<rparr>"

abbreviation members :: "team_state \<Rightarrow> team_member list" where
  "members st \<equiv> map_values (ts_members st)"

abbreviation messages :: "team_state \<Rightarrow> public_message list" where
  "messages st \<equiv> map_values (ts_messages st)"

abbreviation task_values :: "team_state \<Rightarrow> team_task list" where
  "task_values st \<equiv> map_values (ts_tasks st)"

abbreviation artifact_values :: "team_state \<Rightarrow> team_artifact list" where
  "artifact_values st \<equiv> map_values (ts_artifacts st)"

abbreviation in_phase :: "team_state \<Rightarrow> run_phase list \<Rightarrow> bool" where
  "in_phase st ps \<equiv> (case ts_phase st of None \<Rightarrow> False | Some p \<Rightarrow> List.member ps p)"

subsection \<open>Authority\<close>

definition member_actor :: "team_member \<Rightarrow> actor_ref" where
  "member_actor m = ExpertActor (mb_id m) (mb_session m) (mb_name m)"

definition lead_actor :: "team_state \<Rightarrow> (team_error, actor_ref) result" where
  "lead_actor st =
     (case ts_created st of
        None \<Rightarrow> Inl (TeamError ''TEAM_NOT_FOUND'')
      | Some c \<Rightarrow> Inr (LeadActor (cr_lead c)))"

text \<open>A roster entry found through one of the indexes, when it is active.\<close>

definition active_member :: "team_state \<Rightarrow> (string, string) jsmap \<Rightarrow> string \<Rightarrow> team_member option" where
  "active_member st index key =
     (case Option.bind (map_get index key) (map_get (ts_members st)) of
        None \<Rightarrow> None
      | Some m \<Rightarrow> if mb_phase m = MemberActive then Some m else None)"

definition resolve_by_name :: "team_state \<Rightarrow> string \<Rightarrow> (team_error, actor_ref) result" where
  "resolve_by_name st raw =
     (let name = trim raw in
      if name = ''lead'' then lead_actor st
      else (case active_member st (ts_by_name st) name of
              None \<Rightarrow> Inl (TeamError ''TEAM_MEMBER_NOT_FOUND'')
            | Some m \<Rightarrow> Inr (member_actor m)))"

definition resolve_membership :: "team_state \<Rightarrow> string \<Rightarrow> (team_error, actor_ref) result" where
  "resolve_membership st session =
     bindR (lead_actor st) (\<lambda>lead.
       if lead = LeadActor session then Inr lead
       else (case active_member st (ts_by_session st) session of
               None \<Rightarrow> Inl (TeamError ''TEAM_NOT_MEMBER'')
             | Some m \<Rightarrow> Inr (member_actor m)))"

fun same_actor :: "actor_ref \<Rightarrow> actor_ref \<Rightarrow> bool" where
  "same_actor (LeadActor s) (LeadActor s') = (s = s')"
| "same_actor (ExpertActor m _ _) (ExpertActor m' _ _) = (m = m')"
| "same_actor _ _ = False"

fun is_lead :: "actor_ref \<Rightarrow> bool" where
  "is_lead (LeadActor _) = True"
| "is_lead (ExpertActor _ _ _) = False"

subsection \<open>Evidence\<close>

definition expert_delivery_kinds :: "message_kind list" where
  "expert_delivery_kinds = [KHandoff, KReview, KResponse]"

definition actor_artifact :: "team_artifact \<Rightarrow> actor_ref \<Rightarrow> team_task \<Rightarrow> artifact_status list \<Rightarrow> bool" where
  "actor_artifact a actor t statuses \<longleftrightarrow>
     List.member statuses (ar_status a) \<and> same_actor (ar_author a) actor \<and> List.member (ar_tasks a) (tk_id t)"

definition sole_lead_target :: "actor_ref list \<Rightarrow> bool" where
  "sole_lead_target targets \<longleftrightarrow> (case targets of [t] \<Rightarrow> is_lead t | _ \<Rightarrow> False)"

definition routed_to_lead :: "team_state \<Rightarrow> actor_ref \<Rightarrow> team_task \<Rightarrow> team_artifact \<Rightarrow> bool" where
  "routed_to_lead st actor t a \<longleftrightarrow>
     list_ex (\<lambda>m. List.member expert_delivery_kinds (sm_kind m) \<and> same_actor (sm_author m) actor \<and>
         sole_lead_target (sm_targets m) \<and> rf_task (sm_refs m) = Some (tk_id t) \<and>
         rf_artifact (sm_refs m) = Some (ar_id a)) (messages st)"

definition reviewable_owner_artifact :: "team_state \<Rightarrow> team_task \<Rightarrow> team_artifact option" where
  "reviewable_owner_artifact st t =
     (case tk_owner t of
        None \<Rightarrow> None
      | Some owner \<Rightarrow> find (\<lambda>a. actor_artifact a owner t [ArtifactReview, ArtifactAccepted]) (artifact_values st))"

definition accepted_owner_artifact :: "team_state \<Rightarrow> team_task \<Rightarrow> team_artifact option" where
  "accepted_owner_artifact st t =
     (case tk_owner t of
        None \<Rightarrow> None
      | Some owner \<Rightarrow>
          find (\<lambda>a. actor_artifact a owner t [ArtifactAccepted] \<and> (is_lead owner \<or> routed_to_lead st owner t a))
            (artifact_values st))"

definition experts_missing_contribution :: "team_state \<Rightarrow> team_member list" where
  "experts_missing_contribution st =
     filter (\<lambda>m. mb_phase m = MemberActive \<and>
         \<not> list_ex (\<lambda>t. tk_status t \<noteq> TaskDeleted \<and>
              list_ex (\<lambda>a. actor_artifact a (member_actor m) t [ArtifactAccepted] \<and>
                  routed_to_lead st (member_actor m) t a) (artifact_values st)) (task_values st))
       (members st)"

definition tasks_missing_evidence :: "team_state \<Rightarrow> team_task list" where
  "tasks_missing_evidence st =
     filter (\<lambda>t. tk_status t \<noteq> TaskDeleted \<and>
         (tk_status t \<noteq> TaskCompleted \<or>
          (ts_protocol st \<noteq> None \<and> (case tk_owner t of Some (ExpertActor _ _ _) \<Rightarrow> False | _ \<Rightarrow> True)) \<or>
          accepted_owner_artifact st t = None))
       (task_values st)"

text \<open>The review that answers one completion request.\<close>

definition answered_request :: "team_state \<Rightarrow> public_message \<Rightarrow> bool" where
  "answered_request st request \<longleftrightarrow>
     (case (sm_targets request, rf_task (sm_refs request), rf_artifact (sm_refs request)) of
        ([target], Some task_id, Some artifact_id) \<Rightarrow>
          sm_kind request = KCompletionRequest \<and> is_lead (sm_author request) \<and> \<not> is_lead target \<and>
          (case (map_get (ts_tasks st) task_id, map_get (ts_artifacts st) artifact_id) of
             (Some t, Some a) \<Rightarrow>
               ar_status a = ArtifactAccepted \<and> List.member (ar_tasks a) (tk_id t) \<and> same_actor (ar_author a) target \<and>
               list_ex (\<lambda>m. pm_sequence request < pm_sequence m \<and> sm_kind m = KReview \<and>
                   same_actor (sm_author m) target \<and> sole_lead_target (sm_targets m) \<and>
                   rf_task (sm_refs m) = Some (tk_id t) \<and> rf_artifact (sm_refs m) = Some (ar_id a)) (messages st)
           | _ \<Rightarrow> False)
      | _ \<Rightarrow> False)"

definition has_verified_review :: "team_state \<Rightarrow> bool" where
  "has_verified_review st \<longleftrightarrow> list_ex (answered_request st) (messages st)"

end
