(* ===== verification/TeamFold.thy ===== *)
theory TeamFold
  imports TeamState
begin

text \<open>
  The strict replay of a TeamRun (\<open>packages/collaboration/agent-team/src/fold.ts\<close>): every event
  of the run is validated against the state of the events before it.
\<close>

subsection \<open>Guards\<close>

definition fold_error :: "string \<Rightarrow> (js_error, 'a) result" where
  "fold_error why = Inl (JsError why)"

definition check :: "bool \<Rightarrow> string \<Rightarrow> (js_error, 'a) result \<Rightarrow> (js_error, 'a) result" where
  "check bad why k = throw_if bad (JsError why) k"

text \<open>A \<open>TeamRunError\<close> of a shared validator ends the replay like any error.\<close>

fun lift_team :: "(team_error, 'a) result \<Rightarrow> (js_error, 'a) result" where
  "lift_team (Inl (TeamError code)) = Inl (JsError code)"
| "lift_team (Inr x) = Inr x"

definition normal_text :: "string \<Rightarrow> int \<Rightarrow> (js_error, 'a) result \<Rightarrow> (js_error, 'a) result" where
  "normal_text s maximum k = bindR (lift_team (required_text s maximum)) (\<lambda>t. check (t \<noteq> s) ''text is not normalized'' k)"

definition count_phase :: "team_state \<Rightarrow> member_phase \<Rightarrow> int" where
  "count_phase st p = int (length (filter (\<lambda>m. mb_phase m = p) (members st)))"

definition require_created :: "team_state \<Rightarrow> (js_error, team_created) result" where
  "require_created st =
     (case (ts_created st, ts_phase st) of
        (Some c, Some _) \<Rightarrow> Inr c
      | _ \<Rightarrow> fold_error ''TeamRun has no creation event'')"

definition is_terminal :: "run_phase \<Rightarrow> bool" where
  "is_terminal p \<longleftrightarrow> p \<in> {CompletedPhase, FormationFailed, FailedPhase, CancelledPhase}"

definition phase_terminal :: "team_state \<Rightarrow> bool" where
  "phase_terminal st \<longleftrightarrow> (case ts_phase st of None \<Rightarrow> True | Some p \<Rightarrow> is_terminal p)"

definition assert_actor :: "team_state \<Rightarrow> actor_ref \<Rightarrow> (js_error, unit) result" where
  "assert_actor st actor =
     bindR (require_created st) (\<lambda>created.
       case actor of
         LeadActor s \<Rightarrow> check (s \<noteq> cr_lead created) ''public actor does not match the authoritative TeamRun Lead'' (Inr ())
       | ExpertActor i s n \<Rightarrow>
           (case map_get (ts_members st) i of
              None \<Rightarrow> fold_error ''public actor is not an active TeamRun expert''
            | Some m \<Rightarrow>
                check (mb_phase m \<noteq> MemberActive \<or> mb_session m \<noteq> s \<or> mb_name m \<noteq> n)
                  ''public actor is not an active TeamRun expert'' (Inr ())))"

definition exact_team_ready :: "team_state \<Rightarrow> team_created \<Rightarrow> bool" where
  "exact_team_ready st created \<longleftrightarrow>
     count_phase st MemberActive = cr_planned created \<and> count_phase st MemberProvisioning = 0"

subsection \<open>Members and phases\<close>

definition slot_attempts :: "team_state \<Rightarrow> string \<Rightarrow> team_member list" where
  "slot_attempts st slot = filter (\<lambda>m. mb_slot m = Some slot) (members st)"

definition protocol_rule :: "team_protocol \<Rightarrow> string \<Rightarrow> expert_rule option" where
  "protocol_rule pt slot = find (\<lambda>r. ru_slot r = slot) (pt_experts pt)"

definition assert_member_slot :: "team_state \<Rightarrow> team_member \<Rightarrow> (js_error, unit) result" where
  "assert_member_slot st m =
     (case ts_protocol st of
        None \<Rightarrow> check (mb_slot m \<noteq> None) ''legacy TeamRun member cannot claim a protocol slot'' (Inr ())
      | Some pt \<Rightarrow>
          (case Option.bind (mb_slot m) (\<lambda>slot. map_option (\<lambda>r. (slot, r)) (protocol_rule pt slot)) of
             None \<Rightarrow> fold_error ''expert has no collaboration protocol slot''
           | Some (slot, rule) \<Rightarrow>
               check (slot_attempts st slot = [] \<and> mb_id m \<noteq> ru_initial rule)
                 ''initial expert for protocol slot has the wrong member id''
               (check (list_ex (\<lambda>c. mb_phase c \<noteq> MemberFailed) (slot_attempts st slot))
                 ''protocol slot is already occupied'' (Inr ()))))"

definition begin_member :: "team_state \<Rightarrow> team_created \<Rightarrow> team_member \<Rightarrow> (js_error, team_state) result" where
  "begin_member st created m =
     check (\<not> in_phase st [Provisioning, ActivePhase]) ''expert attempt cannot begin in this phase''
     (check (mb_phase m \<noteq> MemberProvisioning) ''expert must begin provisioning''
     (check (mb_failure m \<noteq> None) ''a provisioning expert cannot carry a failure''
     (bindR (lift_team (expert_name (mb_name m))) (\<lambda>_.
      normal_text (mb_role m) 200
     (check (mb_session m = cr_lead created) ''the TeamRun Lead cannot occupy an expert slot''
     (check (map_has (ts_by_name st) (mb_name m)) ''expert name was reused''
     (check (map_has (ts_by_attempt st) (mb_attempt m)) ''attempt id was reused''
     (check (map_has (ts_by_session st) (mb_session m)) ''expert Session was reused''
     (check (mb_number m \<noteq> int (length (ts_members st)) + 1) ''expert attempt numbers must be contiguous''
     (check (po_max_attempts (cr_policy created) < mb_number m) ''TeamRun provisioning attempt limit exceeded''
     (bindR (assert_member_slot st m) (\<lambda>_.
      check (po_max_active (cr_policy created) \<le> count_phase st MemberActive + count_phase st MemberProvisioning \<or>
             cr_planned created \<le> count_phase st MemberActive + count_phase st MemberProvisioning)
        ''TeamRun active plus provisioning expert capacity exceeded''
      (Inr (st\<lparr>ts_by_name := map_set (mb_name m) (mb_id m) (ts_by_name st),
               ts_by_attempt := map_set (mb_attempt m) (mb_id m) (ts_by_attempt st),
               ts_by_session := map_set (mb_session m) (mb_id m) (ts_by_session st),
               ts_members := map_set (mb_id m) m (ts_members st)\<rparr>))))))))))))))"

definition settle_member :: "team_state \<Rightarrow> team_member \<Rightarrow> team_member \<Rightarrow> (js_error, team_state) result" where
  "settle_member st prior m =
     check (mb_name prior \<noteq> mb_name m \<or> mb_role prior \<noteq> mb_role m \<or> mb_session prior \<noteq> mb_session m \<or>
         mb_attempt prior \<noteq> mb_attempt m \<or> mb_number prior \<noteq> mb_number m \<or> mb_slot prior \<noteq> mb_slot m)
       ''expert changed immutable attempt fields''
     (let provider_settlement = in_phase st [Provisioning, ActivePhase] \<and>
            mb_phase prior = MemberProvisioning \<and> mb_phase m \<noteq> MemberProvisioning;
          runtime_failure = in_phase st [Provisioning, ActivePhase, Completing] \<and>
            mb_phase prior = MemberActive \<and> mb_phase m = MemberFailed in
      check (\<not> provider_settlement \<and> \<not> runtime_failure) ''expert has an invalid transition''
      (check (mb_phase m = MemberFailed \<and> mb_failure m = None) ''failed expert requires a structured failure''
      (check (mb_phase m = MemberActive \<and> mb_failure m \<noteq> None) ''active expert cannot carry a failure''
      (Inr (st\<lparr>ts_members := map_set (mb_id m) m (ts_members st)\<rparr>)))))"

definition apply_member :: "team_state \<Rightarrow> team_member \<Rightarrow> (js_error, team_state) result" where
  "apply_member st m =
     bindR (require_created st) (\<lambda>created.
       case map_get (ts_members st) (mb_id m) of
         None \<Rightarrow> begin_member st created m
       | Some prior \<Rightarrow> settle_member st prior m)"

definition phase_allowed :: "team_state \<Rightarrow> team_created \<Rightarrow> run_phase \<Rightarrow> run_phase \<Rightarrow> bool" where
  "phase_allowed st created current phase =
     (case phase of
        Profiling \<Rightarrow> False
      | Planning \<Rightarrow> current = Profiling
      | Provisioning \<Rightarrow> current = Planning
      | ActivePhase \<Rightarrow> current = Provisioning \<and> exact_team_ready st created
      | Completing \<Rightarrow> current = ActivePhase \<and> exact_team_ready st created
      | CompletedPhase \<Rightarrow> current = Completing \<and> exact_team_ready st created
      | FormationFailed \<Rightarrow>
          List.member [Profiling, Planning, Provisioning] current \<and> count_phase st MemberActive < cr_planned created
      | FailedPhase \<Rightarrow> current = ActivePhase \<or> current = Completing
      | CancelledPhase \<Rightarrow> True)"

definition apply_phase :: "team_state \<Rightarrow> run_phase \<Rightarrow> team_failure option \<Rightarrow> (js_error, team_state) result" where
  "apply_phase st phase failure =
     bindR (require_created st) (\<lambda>created.
       case ts_phase st of
         None \<Rightarrow> fold_error ''TeamRun cannot transition''
       | Some current \<Rightarrow>
           check (is_terminal current) ''TeamRun cannot transition''
           (check (\<not> phase_allowed st created current phase) ''invalid TeamRun transition''
           (check ((phase \<in> {FormationFailed, FailedPhase, CancelledPhase}) \<noteq> (failure \<noteq> None))
             ''phase requires or cannot carry a structured failure''
           (check (phase = FormationFailed \<and> map_option fl_code failure \<noteq> Some ''FORMATION_FAILED'')
             ''formation_failed requires the FORMATION_FAILED code''
           (check (phase = CancelledPhase \<and> map_option fl_code failure \<noteq> Some ''TEAM_CANCELLED'')
             ''cancelled requires the TEAM_CANCELLED code''
           (Inr (st\<lparr>ts_phase := Some phase, ts_failure := failure\<rparr>)))))))"

subsection \<open>Tasks\<close>

definition digits_after :: "string \<Rightarrow> string \<Rightarrow> nat option" where
  "digits_after prefix s =
     (let ds = drop (length prefix) s in
      if starts_with s prefix \<and> ds \<noteq> [] \<and> list_all is_digit ds then Some (read_nat 0 ds) else None)"

fun graph_error :: "(graph_violation, 'a) result \<Rightarrow> (js_error, 'a) result" where
  "graph_error (Inl GraphMissing) = fold_error ''blocker task is missing or deleted''"
| "graph_error (Inl GraphDuplicate) = fold_error ''team task repeats a blocker''"
| "graph_error (Inl GraphCycle) = fold_error ''task dependency cycle''"
| "graph_error (Inr x) = Inr x"

definition apply_task :: "team_state \<Rightarrow> team_task \<Rightarrow> (js_error, team_state) result" where
  "apply_task st t =
     bindR (require_created st) (\<lambda>_.
     check (phase_terminal st \<or> ts_phase st = Some Profiling) ''TeamRun task cannot change in this phase''
     (normal_text (tk_subject t) 200
     (normal_text (tk_description t) 16384
     (check (tk_revision t \<noteq> (case map_get (ts_tasks st) (tk_id t) of None \<Rightarrow> 1 | Some prior \<Rightarrow> tk_revision prior + 1))
       ''team task revision is not contiguous''
     (check ((tk_status t = TaskInProgress \<or> tk_status t = TaskCompleted) \<and> tk_owner t = None) ''task requires an owner''
     (bindR (case tk_owner t of None \<Rightarrow> Inr () | Some owner \<Rightarrow> assert_actor st owner) (\<lambda>_.
      bindR (lift_team (mapR resource_scope (tk_scopes t))) (\<lambda>scopes.
      check (\<not> distinct scopes \<or> scopes \<noteq> tk_scopes t) ''team task has invalid or duplicate resource scopes''
     (bindR (graph_error (assert_task_graph (ts_tasks st) t)) (\<lambda>_.
      case digits_after ''task-'' (tk_id t) of
        None \<Rightarrow> Inr (st\<lparr>ts_tasks := map_set (tk_id t) t (ts_tasks st)\<rparr>)
      | Some n \<Rightarrow>
          check (\<not> is_safe (int n)) ''team task has an unsafe numeric suffix''
          (Inr (st\<lparr>ts_next_task := max (ts_next_task st) (if int n = max_safe then int n else int n + 1),
                   ts_tasks := map_set (tk_id t) t (ts_tasks st)\<rparr>))))))))))))"

text \<open>A task a public record refers to.\<close>

definition current_task :: "team_state \<Rightarrow> string \<Rightarrow> bool" where
  "current_task st i \<longleftrightarrow> (case map_get (ts_tasks st) i of None \<Rightarrow> False | Some t \<Rightarrow> tk_status t \<noteq> TaskDeleted)"

subsection \<open>Messages\<close>

fun actor_key :: "actor_ref \<Rightarrow> string" where
  "actor_key (LeadActor s) = ''lead:'' @ s"
| "actor_key (ExpertActor m _ _) = ''expert:'' @ m"

definition member_for_slot :: "team_state \<Rightarrow> string \<Rightarrow> team_member option" where
  "member_for_slot st slot = array_last (slot_attempts st slot)"

fun author_member :: "actor_ref \<Rightarrow> string option" where
  "author_member (LeadActor _) = None"
| "author_member (ExpertActor m _ _) = Some m"

definition authored_by :: "team_state \<Rightarrow> string \<Rightarrow> public_message list" where
  "authored_by st i = filter (\<lambda>m. author_member (sm_author m) = Some i) (messages st)"

text \<open>The permissions, the budget and the topology that bind an expert author.\<close>

definition assert_expert_author ::
    "team_state \<Rightarrow> team_protocol \<Rightarrow> string \<Rightarrow> stored_message \<Rightarrow> (js_error, unit) result" where
  "assert_expert_author st pt i m =
     (case Option.bind (Option.bind (map_get (ts_members st) i) mb_slot) (protocol_rule pt) of
        None \<Rightarrow> fold_error ''expert author is not bound to the collaboration protocol''
      | Some rule \<Rightarrow>
          check (pt_max_messages pt \<le> int (length (authored_by st i))) ''expert public message budget exceeded''
          (check ((sm_kind m = KChallenge \<and> \<not> pr_challenge (ru_permissions rule)) \<or>
                  (sm_kind m = KReview \<and> \<not> pr_review (ru_permissions rule)) \<or>
                  (sm_kind m = KRequestHelp \<and> \<not> pr_request_help (ru_permissions rule)))
             ''expert protocol permission denies the kind''
          (check (sm_kind m = KDecision \<or> sm_kind m = KFinalDelivery) ''the kind is owned by the TeamRun Lead ledger''
          (bindR (require_created st) (\<lambda>created.
            let allowed = (''lead:'' @ cr_lead created) #
                  List.map_filter (\<lambda>slot. case member_for_slot st slot of
                      Some t \<Rightarrow> if mb_phase t = MemberActive then Some (''expert:'' @ mb_id t) else None
                    | None \<Rightarrow> None) (ru_targets rule);
                addressed = (if sm_targets m \<noteq> [] then sm_targets m
                  else LeadActor (cr_lead created) #
                    map member_actor (filter (\<lambda>c. mb_phase c = MemberActive \<and> mb_id c \<noteq> i) (members st)))
            in check (list_ex (\<lambda>t. \<not> List.member allowed (actor_key t)) addressed)
                 ''expert target is denied by topology'' (Inr ()))))))"

definition challenges_in :: "team_state \<Rightarrow> string \<Rightarrow> public_message list" where
  "challenges_in st thread = filter (\<lambda>m. sm_kind m = KChallenge \<and> sm_thread m = thread) (messages st)"

definition has_response :: "team_state \<Rightarrow> string option \<Rightarrow> bool" where
  "has_response st challenge \<longleftrightarrow>
     list_ex (\<lambda>m. sm_kind m = KResponse \<and> rf_challenge (sm_refs m) = challenge) (messages st)"

definition challenge_named :: "team_state \<Rightarrow> string \<Rightarrow> public_message option" where
  "challenge_named st i = find (\<lambda>m. sm_kind m = KChallenge \<and> rf_challenge (sm_refs m) = Some i) (messages st)"

definition assert_challenge ::
    "team_state \<Rightarrow> team_protocol \<Rightarrow> stored_message \<Rightarrow> string \<Rightarrow> actor_ref \<Rightarrow> (js_error, unit) result" where
  "assert_challenge st pt m i target =
     check (case array_last (challenges_in st (sm_thread m)) of
              None \<Rightarrow> False
            | Some prior \<Rightarrow> \<not> has_response st (rf_challenge (sm_refs prior)))
       ''the prior challenge round is still open''
     (check (challenge_named st i \<noteq> None \<or> actor_key (sm_author m) = actor_key target)
       ''challenge id was reused or targets its author''
     (check (pt_max_rounds pt < int (length (challenges_in st (sm_thread m))) + 1)
       ''challenge round limit exceeded'' (Inr ())))"

definition assert_response ::
    "team_state \<Rightarrow> stored_message \<Rightarrow> string \<Rightarrow> actor_ref \<Rightarrow> (js_error, unit) result" where
  "assert_response st m i target =
     (case challenge_named st i of
        None \<Rightarrow> fold_error ''response references no challenge in its thread''
      | Some prior \<Rightarrow>
          check (sm_thread prior \<noteq> sm_thread m) ''response references no challenge in its thread''
          (case sm_targets prior of
             [] \<Rightarrow> fold_error ''response participants do not match the open challenge''
           | challenged # _ \<Rightarrow>
               check (has_response st (Some i) \<or> actor_key (sm_author m) \<noteq> actor_key challenged \<or>
                   actor_key target \<noteq> actor_key (sm_author prior))
                 ''response participants do not match the open challenge'' (Inr ())))"

definition assert_protocol_message :: "team_state \<Rightarrow> stored_message \<Rightarrow> (js_error, unit) result" where
  "assert_protocol_message st m =
     (case ts_protocol st of
        None \<Rightarrow> Inr ()
      | Some pt \<Rightarrow>
          bindR (case author_member (sm_author m) of None \<Rightarrow> Inr () | Some i \<Rightarrow> assert_expert_author st pt i m) (\<lambda>_.
          if sm_kind m \<noteq> KChallenge \<and> sm_kind m \<noteq> KResponse
          then check (rf_challenge (sm_refs m) \<noteq> None) ''the kind cannot carry a challenge id'' (Inr ())
          else
            (case (rf_challenge (sm_refs m), sm_targets m) of
               (Some i, [target]) \<Rightarrow>
                 if sm_kind m = KChallenge then assert_challenge st pt m i target else assert_response st m i target
             | _ \<Rightarrow> fold_error ''the kind requires one challenge id and one explicit target'')))"

definition apply_message :: "team_state \<Rightarrow> team_event \<Rightarrow> string \<Rightarrow> stored_message \<Rightarrow> (js_error, team_state) result" where
  "apply_message st e event_id m =
     bindR (require_created st) (\<lambda>created.
     check (phase_terminal st) ''public collaboration message cannot be added in this phase''
     (check (sm_kind m \<noteq> KStatus \<and> \<not> in_phase st [ActivePhase, Completing]) ''messages require an active TeamRun''
     (check (po_max_messages (cr_policy created) \<le> int (length (ts_messages st))) ''TeamRun public message limit exceeded''
     (check (map_has (ts_messages st) (sm_id m)) ''public message was reused''
     (check (po_max_message_bytes (cr_policy created) < int (byte_length (sm_content m)))
       ''TeamRun public message byte limit exceeded''
     (normal_text (sm_content m) max_safe
     (check (case rf_task (sm_refs m) of None \<Rightarrow> False | Some i \<Rightarrow> \<not> current_task st i)
       ''public message references missing or deleted task''
     (bindR (assert_actor st (sm_author m)) (\<lambda>_.
      bindR (foldR (\<lambda>keys t. bindR (assert_actor st t) (\<lambda>_.
               check (List.member keys (actor_key t)) ''public message repeats one target'' (Inr (keys @ [actor_key t]))))
             [] (sm_targets m)) (\<lambda>_.
      bindR (assert_protocol_message st m) (\<lambda>_.
      check (sm_kind m = KFinalDelivery \<and> (\<not> is_lead (sm_author m) \<or> ts_phase st \<noteq> Some Completing))
        ''final_delivery requires the Lead during completing''
      (Inr (st\<lparr>ts_messages := map_set (sm_id m)
         (stored_message.extend m (public_message.fields event_id (te_seq e) (ts_id st) (te_time e)))
         (ts_messages st)\<rparr>)))))))))))))"

subsection \<open>Protocol and ledgers\<close>

definition apply_protocol :: "team_state \<Rightarrow> team_protocol \<Rightarrow> (js_error, team_state) result" where
  "apply_protocol st pt =
     bindR (require_created st) (\<lambda>created.
     check (ts_protocol st \<noteq> None) ''TeamRun collaboration protocol was materialized twice''
     (check (\<not> in_phase st [Planning, Provisioning]) ''collaboration protocol cannot materialize in this phase''
     (check (\<not> is_safe (pt_max_rounds pt) \<or> pt_max_rounds pt < 1 \<or> \<not> is_safe (pt_max_messages pt) \<or>
         pt_max_messages pt < 1 \<or> int (length (pt_experts pt)) \<noteq> cr_planned created)
       ''collaboration protocol limits or expert count are invalid''
     (check (\<not> distinct (map ru_slot (pt_experts pt)) \<or> \<not> distinct (map ru_initial (pt_experts pt)) \<or>
         \<not> distinct (map ru_name (pt_experts pt)))
       ''collaboration protocol expert identities must be unique''
     (check (list_ex (\<lambda>r. \<not> distinct (ru_targets r) \<or> List.member (ru_targets r) (ru_slot r) \<or>
           list_ex (\<lambda>slot. \<not> List.member (map ru_slot (pt_experts pt)) slot) (ru_targets r)) (pt_experts pt))
       ''collaboration protocol routes are invalid''
     (Inr (st\<lparr>ts_protocol := Some pt\<rparr>)))))))"

definition apply_artifact :: "team_state \<Rightarrow> team_event \<Rightarrow> stored_artifact \<Rightarrow> (js_error, team_state) result" where
  "apply_artifact st e a =
     bindR (require_created st) (\<lambda>created.
     check (\<not> in_phase st [ActivePhase, Completing]) ''artifact cannot be written in this phase''
     (let prior = map_get (ts_artifacts st) (ar_id a) in
      check (prior = None \<and> po_max_artifacts (cr_policy created) \<le> int (length (ts_artifacts st)))
        ''TeamRun artifact limit exceeded''
     (check (ar_version a \<noteq> (case prior of None \<Rightarrow> 0 | Some p \<Rightarrow> ar_version p) + 1) ''artifact version is not contiguous''
     (check (case prior of None \<Rightarrow> False | Some p \<Rightarrow> ar_author p \<noteq> ar_author a) ''artifact author cannot change''
     (bindR (assert_actor st (ar_author a)) (\<lambda>_.
      normal_text (ar_title a) 200
     (normal_text (ar_media a) 200
     (normal_text (ar_body a) max_safe
     (check (po_max_artifact_bytes (cr_policy created) < int (byte_length (ar_body a)))
       ''TeamRun artifact body byte limit exceeded''
     (check (\<not> distinct (ar_tasks a)) ''artifact repeats one task''
     (check (list_ex (\<lambda>i. \<not> current_task st i) (ar_tasks a)) ''artifact references missing task''
     (Inr (st\<lparr>ts_artifacts := map_set (ar_id a)
        (stored_artifact.extend a (team_artifact.fields (te_time e))) (ts_artifacts st)\<rparr>)))))))))))))"

definition apply_decision :: "team_state \<Rightarrow> team_event \<Rightarrow> stored_decision \<Rightarrow> (js_error, team_state) result" where
  "apply_decision st e d =
     check (\<not> in_phase st [ActivePhase, Completing]) ''decision cannot be written in this phase''
     (let prior = map_get (ts_decisions st) (dc_id d) in
      check (dc_version d \<noteq> (case prior of None \<Rightarrow> 0 | Some p \<Rightarrow> dc_version p) + 1) ''decision version is not contiguous''
     (bindR (require_created st) (\<lambda>created.
      check (dc_lead d \<noteq> cr_lead created) ''decision arbitrator is not the TeamRun Lead''
     (check (list_ex (\<lambda>i. \<not> current_task st i) (dc_tasks d)) ''decision references missing task''
     (check (list_ex (\<lambda>i. \<not> map_has (ts_artifacts st) i) (dc_artifacts d)) ''decision references missing artifact''
     (normal_text (dc_subject d) 200
     (normal_text (dc_summary d) 4096
     (normal_text (dc_rationale d) 4096
     (Inr (st\<lparr>ts_decisions := map_set (dc_id d)
        (stored_decision.extend d (team_decision.fields
           (case prior of None \<Rightarrow> te_time e | Some p \<Rightarrow> dc_created_at p))) (ts_decisions st)\<rparr>))))))))))"

definition apply_gate :: "team_state \<Rightarrow> team_event \<Rightarrow> stored_gate \<Rightarrow> (js_error, team_state) result" where
  "apply_gate st e g =
     (let prior = map_get (ts_gates st) (qg_id g) in
      check (qg_version g \<noteq> (case prior of None \<Rightarrow> 0 | Some p \<Rightarrow> qg_version p) + 1) ''quality gate version is not contiguous''
     (bindR (case prior of
         None \<Rightarrow>
           check (qg_status g \<noteq> GatePending \<or> qg_reviewer g \<noteq> None \<or> qg_summary g \<noteq> [])
             ''a quality gate must materialize as pending without a reviewer''
           (check (\<not> in_phase st [Planning, Provisioning]) ''quality gate cannot materialize in this phase''
           (check (map_option int (digits_after ''quality-gate-'' (qg_id g)) \<noteq> Some (ts_next_gate st))
             ''quality gate is not the next generated identity''
           (Inr (st\<lparr>ts_next_gate := ts_next_gate st + 1\<rparr>))))
       | Some p \<Rightarrow>
           check (\<not> in_phase st [ActivePhase, Completing]) ''quality result cannot be written in this phase''
           (check (qg_name g \<noteq> qg_name p \<or> qg_status g = GatePending \<or>
               (case qg_reviewer g of Some (LeadActor _) \<Rightarrow> False | _ \<Rightarrow> True))
             ''formal quality result requires the Lead and immutable gate name''
           (Inr st))) (\<lambda>st'.
      check (case qg_task g of None \<Rightarrow> False | Some i \<Rightarrow> \<not> current_task st i) ''quality gate references missing task''
     (check (case qg_artifact g of None \<Rightarrow> False | Some i \<Rightarrow> \<not> map_has (ts_artifacts st) i)
       ''quality gate references missing artifact''
     (normal_text (qg_name g) 200
     (check (4096 < length (qg_summary g) \<or> trim (qg_summary g) \<noteq> qg_summary g) ''quality gate summary is not normalized''
     (Inr (st'\<lparr>ts_gates := map_set (qg_id g)
        (stored_gate.extend g (quality_gate.fields (te_time e))) (ts_gates st')\<rparr>))))))))"

subsection \<open>Events\<close>

definition mark_activity :: "team_state \<Rightarrow> string list \<Rightarrow> team_event \<Rightarrow> team_state" where
  "mark_activity st ids e =
     st\<lparr>ts_activity_cursors := fold (\<lambda>i m. map_set i (te_seq e) m) ids (ts_activity_cursors st),
        ts_activity_times := fold (\<lambda>i m. map_set i (te_time e) m) ids (ts_activity_times st)\<rparr>"

definition apply_created :: "team_state \<Rightarrow> team_payload \<Rightarrow> team_created \<Rightarrow> (js_error, team_state) result" where
  "apply_created st p c =
     check (ts_created st \<noteq> None) ''TeamRun was created twice''
     (check (tp_run p \<noteq> cr_lead c) ''TeamRun id must equal its authoritative Lead Session id''
     (bindR (lift_team (validate_policy (cr_policy c))) (\<lambda>_.
      bindR (lift_team (validate_planned (cr_complexity c) (cr_planned c) (po_max_active (cr_policy c)))) (\<lambda>_.
      normal_text (cr_objective c) 16384
      (Inr (st\<lparr>ts_created := Some c, ts_phase := Some Profiling\<rparr>))))))"

definition apply_body :: "team_state \<Rightarrow> team_event \<Rightarrow> team_payload \<Rightarrow> (js_error, team_state) result" where
  "apply_body st e p =
     (case tp_body p of
        BCreated c \<Rightarrow> apply_created st p c
      | body \<Rightarrow>
          check (tp_revision p \<noteq> ts_revision st + 1) ''TeamRun revision is not contiguous''
          (case body of
             BPhase phase failure \<Rightarrow> apply_phase st phase failure
           | BMember m \<Rightarrow> apply_member st m
           | BTask t \<Rightarrow> apply_task st t
           | BMessage m \<Rightarrow> apply_message st e (tp_event p) m
           | BProtocol pt \<Rightarrow> apply_protocol st pt
           | BArtifact a \<Rightarrow> apply_artifact st e a
           | BDecision d \<Rightarrow> apply_decision st e d
           | BGate g \<Rightarrow> apply_gate st e g
           | BCreated c \<Rightarrow> apply_created st p c))"

fun activity_of :: "team_body \<Rightarrow> string list" where
  "activity_of (BTask t) = [tk_id t]"
| "activity_of (BMessage m) = (case rf_task (sm_refs m) of None \<Rightarrow> [] | Some i \<Rightarrow> [i])"
| "activity_of (BArtifact a) = ar_tasks a"
| "activity_of (BDecision d) = dc_tasks d"
| "activity_of (BGate g) = (case qg_task g of None \<Rightarrow> [] | Some i \<Rightarrow> [i])"
| "activity_of _ = []"

fun is_progress :: "team_body \<Rightarrow> bool" where
  "is_progress (BMessage m) = (rf_task (sm_refs m) \<noteq> None)"
| "is_progress _ = True"

text \<open>A creation payload always has revision one.\<close>

definition payload_revision :: "team_payload \<Rightarrow> int" where
  "payload_revision p = (case tp_body p of BCreated _ \<Rightarrow> 1 | _ \<Rightarrow> tp_revision p)"

text \<open>After an accepted body: progress, activity, revision and the signature of the event.\<close>

definition record_payload :: "team_state \<Rightarrow> team_event \<Rightarrow> team_payload \<Rightarrow> team_state" where
  "record_payload st e p =
     (let st' = mark_activity (if is_progress (tp_body p) then st\<lparr>ts_last_progress := te_time e\<rparr> else st)
            (activity_of (tp_body p)) e in
      st'\<lparr>ts_revision := payload_revision p, ts_signatures := map_set (tp_event p) p (ts_signatures st')\<rparr>)"

definition apply_team_event :: "team_state \<Rightarrow> team_event \<Rightarrow> (js_error, team_state) result" where
  "apply_team_event st e =
     (case te_content e of
        NotTeam \<Rightarrow> Inr st
      | BadSelector \<Rightarrow> fold_error ''persisted TeamRun selector is invalid''
      | OtherVersion run version \<Rightarrow>
          if run \<noteq> ts_id st then Inr st else fold_error ''unsupported TeamRun event version''
      | BadPayload \<Rightarrow> fold_error ''persisted TeamRun payload is invalid''
      | Payload p \<Rightarrow>
          if tp_run p \<noteq> ts_id st then Inr st
          else
            (let st' = st\<lparr>ts_cursor := te_seq e\<rparr> in
             case map_get (ts_signatures st') (tp_event p) of
               Some q \<Rightarrow> check (q \<noteq> p) ''collaboration event id was reused'' (Inr st')
             | None \<Rightarrow> bindR (apply_body st' e p) (\<lambda>st''. Inr (record_payload st'' e p))))"

definition fold_team_run :: "string \<Rightarrow> team_event list \<Rightarrow> (js_error, team_state) result" where
  "fold_team_run i events = foldR apply_team_event (empty_team_state i) events"

end
