(* ===== verification/TeamInvariant.thy ===== *)
theory TeamInvariant
  imports TeamFold EventReplay
begin

text \<open>
  What the strict replay of \<open>TeamFold\<close> guarantees: what an accepted event has checked, and the
  invariants of every state it reaches.
\<close>

subsection \<open>What an accepted body has checked\<close>

lemma check_Inr [result_simps]: "check bad why k = Inr x \<longleftrightarrow> \<not> bad \<and> k = Inr x"
  by (simp add: check_def result_simps)

lemma fold_error_Inr [simp]: "fold_error why \<noteq> Inr x"
  by (simp add: fold_error_def)

lemma lift_team_Inr [result_simps]: "lift_team r = Inr x \<longleftrightarrow> r = Inr x"
proof (cases r)
  case (Inl e)
  then show ?thesis by (cases e) simp
qed simp

lemma normal_text_Inr [result_simps]:
  "normal_text s n k = Inr x \<longleftrightarrow> trim s = s \<and> s \<noteq> [] \<and> int (length s) \<le> n \<and> k = Inr x"
  by (auto simp: normal_text_def result_simps required_text_Inr)

lemma graph_error_Inr [result_simps]: "graph_error r = Inr x \<longleftrightarrow> r = Inr x"
proof (cases r)
  case (Inl e)
  then show ?thesis by (cases e) simp_all
qed simp

lemma require_created_Inr [result_simps]:
  "require_created st = Inr c \<longleftrightarrow> ts_created st = Some c \<and> ts_phase st \<noteq> None"
  by (auto simp: require_created_def split: option.splits)

lemma begin_member_Inr:
  "begin_member st c m = Inr st' \<Longrightarrow>
     in_phase st [Provisioning, ActivePhase] \<and> mb_phase m = MemberProvisioning \<and> mb_failure m = None \<and>
     mb_session m \<noteq> cr_lead c \<and> \<not> map_has (ts_by_name st) (mb_name m) \<and>
     \<not> map_has (ts_by_attempt st) (mb_attempt m) \<and> \<not> map_has (ts_by_session st) (mb_session m) \<and>
     mb_number m = int (length (ts_members st)) + 1 \<and> mb_number m \<le> po_max_attempts (cr_policy c) \<and>
     assert_member_slot st m = Inr () \<and>
     count_phase st MemberActive + count_phase st MemberProvisioning < cr_planned c \<and>
     st' = st\<lparr>ts_by_name := map_set (mb_name m) (mb_id m) (ts_by_name st),
               ts_by_attempt := map_set (mb_attempt m) (mb_id m) (ts_by_attempt st),
               ts_by_session := map_set (mb_session m) (mb_id m) (ts_by_session st),
               ts_members := map_set (mb_id m) m (ts_members st)\<rparr>"
  by (auto simp: begin_member_def result_simps not_le)

lemma settle_member_Inr:
  "settle_member st prior m = Inr st' \<Longrightarrow>
     mb_name prior = mb_name m \<and> mb_role prior = mb_role m \<and> mb_session prior = mb_session m \<and>
     mb_attempt prior = mb_attempt m \<and> mb_number prior = mb_number m \<and> mb_slot prior = mb_slot m \<and>
     in_phase st [Provisioning, ActivePhase, Completing] \<and>
     ((mb_phase prior = MemberProvisioning \<and> mb_phase m \<noteq> MemberProvisioning) \<or>
      (mb_phase prior = MemberActive \<and> mb_phase m = MemberFailed)) \<and>
     (mb_phase m = MemberFailed \<longleftrightarrow> mb_failure m \<noteq> None) \<and>
     st' = st\<lparr>ts_members := map_set (mb_id m) m (ts_members st)\<rparr>"
  by (cases "mb_phase prior"; cases "mb_phase m"; cases "ts_phase st")
    (auto simp: settle_member_def Let_def result_simps)

lemma apply_phase_Inr:
  "apply_phase st phase failure = Inr st' \<Longrightarrow>
     \<exists>c current. ts_created st = Some c \<and> ts_phase st = Some current \<and> \<not> is_terminal current \<and>
       phase_allowed st c current phase \<and> st' = st\<lparr>ts_phase := Some phase, ts_failure := failure\<rparr>"
  by (auto simp: apply_phase_def result_simps split: option.splits)

lemma apply_task_Inr:
  assumes "apply_task st t = Inr st'"
  shows "\<not> phase_terminal st \<and> ts_created st \<noteq> None \<and> assert_task_graph (ts_tasks st) t = Inr () \<and>
    tk_revision t = (case map_get (ts_tasks st) (tk_id t) of None \<Rightarrow> 1 | Some prior \<Rightarrow> tk_revision prior + 1) \<and>
    (\<exists>n. st' = st\<lparr>ts_next_task := n, ts_tasks := map_set (tk_id t) t (ts_tasks st)\<rparr>)"
proof -
  have "\<exists>n. st' = st\<lparr>ts_next_task := n, ts_tasks := map_set (tk_id t) t (ts_tasks st)\<rparr>"
  proof (cases "digits_after ''task-'' (tk_id t)")
    case None
    with assms have "st' = st\<lparr>ts_tasks := map_set (tk_id t) t (ts_tasks st)\<rparr>"
      unfolding apply_task_def by (simp add: result_simps)
    then show ?thesis by (intro exI [of _ "ts_next_task st"]) simp
  next
    case (Some n)
    with assms show ?thesis unfolding apply_task_def by (auto simp: result_simps)
  qed
  moreover from assms have "ts_created st \<noteq> None" "\<not> phase_terminal st"
      "assert_task_graph (ts_tasks st) t = Inr ()"
      "tk_revision t = (case map_get (ts_tasks st) (tk_id t) of None \<Rightarrow> 1 | Some prior \<Rightarrow> tk_revision prior + 1)"
    unfolding apply_task_def by (simp_all add: result_simps)
  ultimately show ?thesis by blast
qed

lemma apply_message_Inr:
  "apply_message st e i m = Inr st' \<Longrightarrow>
     \<exists>c. ts_created st = Some c \<and> \<not> phase_terminal st \<and>
       (sm_kind m = KStatus \<or> in_phase st [ActivePhase, Completing]) \<and>
       int (length (ts_messages st)) < po_max_messages (cr_policy c) \<and> \<not> map_has (ts_messages st) (sm_id m) \<and>
       assert_actor st (sm_author m) = Inr () \<and> assert_protocol_message st m = Inr () \<and>
       (sm_kind m = KFinalDelivery \<longrightarrow> is_lead (sm_author m) \<and> ts_phase st = Some Completing) \<and>
       st' = st\<lparr>ts_messages := map_set (sm_id m)
         (stored_message.extend m (public_message.fields i (te_seq e) (ts_id st) (te_time e))) (ts_messages st)\<rparr>"
  unfolding apply_message_def by (auto simp: result_simps not_le)

lemma apply_protocol_Inr:
  "apply_protocol st pt = Inr st' \<Longrightarrow>
     ts_created st \<noteq> None \<and> ts_protocol st = None \<and> in_phase st [Planning, Provisioning] \<and> 1 \<le> pt_max_rounds pt \<and> 1 \<le> pt_max_messages pt \<and>
     st' = st\<lparr>ts_protocol := Some pt\<rparr>"
  unfolding apply_protocol_def by (auto simp: result_simps not_less)

lemma apply_artifact_Inr:
  "apply_artifact st e a = Inr st' \<Longrightarrow>
     \<exists>c. ts_created st = Some c \<and> in_phase st [ActivePhase, Completing] \<and>
       (map_get (ts_artifacts st) (ar_id a) = None \<longrightarrow> int (length (ts_artifacts st)) < po_max_artifacts (cr_policy c)) \<and>
       ar_version a = (case map_get (ts_artifacts st) (ar_id a) of None \<Rightarrow> 0 | Some p \<Rightarrow> ar_version p) + 1 \<and>
       st' = st\<lparr>ts_artifacts := map_set (ar_id a)
        (stored_artifact.extend a (team_artifact.fields (te_time e))) (ts_artifacts st)\<rparr>"
  unfolding apply_artifact_def Let_def by (auto simp: result_simps not_le)

lemma apply_decision_Inr:
  "apply_decision st e d = Inr st' \<Longrightarrow>
     in_phase st [ActivePhase, Completing] \<and> (\<exists>ds. st' = st\<lparr>ts_decisions := ds\<rparr>)"
  unfolding apply_decision_def Let_def by (auto simp: result_simps)

lemma apply_gate_Inr:
  assumes "apply_gate st e g = Inr st'"
  shows "in_phase st [Planning, Provisioning, ActivePhase, Completing] \<and>
     (\<exists>gs n. st' = st\<lparr>ts_next_gate := n, ts_gates := gs\<rparr>)"
proof (cases "map_get (ts_gates st) (qg_id g)")
  case None
  with assms show ?thesis
    unfolding apply_gate_def Let_def by (simp add: result_simps split: option.splits) auto
next
  case (Some p)
  with assms have "in_phase st [ActivePhase, Completing]"
    and st': "st' = st\<lparr>ts_gates := map_set (qg_id g) (stored_gate.extend g (quality_gate.fields (te_time e))) (ts_gates st)\<rparr>"
    unfolding apply_gate_def Let_def by (simp_all add: result_simps)
  moreover have "\<exists>gs n. st' = st\<lparr>ts_next_gate := n, ts_gates := gs\<rparr>"
    unfolding st' by (rule exI, rule exI [of _ "ts_next_gate st"]) simp
  ultimately show ?thesis by (auto split: option.splits)
qed

lemma apply_created_Inr:
  "apply_created st p c = Inr st' \<Longrightarrow>
     ts_created st = None \<and> tp_run p = cr_lead c \<and> 1 \<le> cr_planned c \<and> cr_planned c \<le> 8 \<and>
     cr_planned c \<le> po_max_active (cr_policy c) \<and> 1 \<le> po_max_attempts (cr_policy c) \<and>
     1 \<le> po_max_messages (cr_policy c) \<and> 1 \<le> po_max_artifacts (cr_policy c) \<and>
     st' = st\<lparr>ts_created := Some c, ts_phase := Some Profiling\<rparr>"
  unfolding apply_created_def
  by (auto simp: result_simps dest!: validate_policy_Inr validate_planned_Inr)

subsection \<open>The bookkeeping of an event\<close>

lemma record_payload_fields [simp]:
  "ts_id (record_payload st e p) = ts_id st" "ts_created (record_payload st e p) = ts_created st"
  "ts_phase (record_payload st e p) = ts_phase st" "ts_failure (record_payload st e p) = ts_failure st"
  "ts_members (record_payload st e p) = ts_members st" "ts_by_name (record_payload st e p) = ts_by_name st"
  "ts_by_attempt (record_payload st e p) = ts_by_attempt st" "ts_by_session (record_payload st e p) = ts_by_session st"
  "ts_tasks (record_payload st e p) = ts_tasks st" "ts_messages (record_payload st e p) = ts_messages st"
  "ts_protocol (record_payload st e p) = ts_protocol st" "ts_artifacts (record_payload st e p) = ts_artifacts st"
  "ts_decisions (record_payload st e p) = ts_decisions st" "ts_gates (record_payload st e p) = ts_gates st"
  "ts_cursor (record_payload st e p) = ts_cursor st" "ts_revision (record_payload st e p) = payload_revision p"
  "ts_signatures (record_payload st e p) = map_set (tp_event p) p (ts_signatures st)"
  by (simp_all add: record_payload_def mark_activity_def Let_def)

text \<open>The cases of an accepted event.\<close>

lemma apply_team_event_cases:
  assumes "apply_team_event st e = Inr st'"
  obtains (skip) "st' = st"
  | (duplicate) p where "te_content e = Payload p" and "map_get (ts_signatures st) (tp_event p) = Some p"
      and "st' = st\<lparr>ts_cursor := te_seq e\<rparr>"
  | (applied) p st1 where "te_content e = Payload p" and "tp_run p = ts_id st"
      and "map_get (ts_signatures st) (tp_event p) = None"
      and "apply_body (st\<lparr>ts_cursor := te_seq e\<rparr>) e p = Inr st1" and "st' = record_payload st1 e p"
proof (cases "te_content e")
  case (Payload p)
  show thesis
  proof (cases "tp_run p = ts_id st")
    case True
    show thesis
    proof (cases "map_get (ts_signatures st) (tp_event p)")
      case None
      with Payload True assms show thesis
        by (auto simp: apply_team_event_def Let_def result_simps intro: applied)
    next
      case (Some q)
      with Payload True assms show thesis
        by (intro duplicate [of p]) (auto simp: apply_team_event_def Let_def result_simps)
    qed
  qed (use Payload assms in \<open>simp add: apply_team_event_def skip\<close>)
qed (use assms in \<open>auto simp: apply_team_event_def split: if_splits intro: skip\<close>)

text \<open>
  An invariant of the replay is one that survives every accepted body, and neither the cursor
  nor the bookkeeping of an event matters to it.
\<close>

lemma team_event_keeps:
  assumes "I st" and step: "apply_team_event st e = Inr st'"
    and cursor: "\<And>s n. I s \<Longrightarrow> I (s\<lparr>ts_cursor := n\<rparr>)" and recorded: "\<And>s p. I s \<Longrightarrow> I (record_payload s e p)"
    and body: "\<And>s p s'. I s \<Longrightarrow> apply_body s e p = Inr s' \<Longrightarrow> I s'"
  shows "I st'"
  using step
proof (cases rule: apply_team_event_cases)
  case skip
  with assms(1) show ?thesis by simp
next
  case (duplicate p)
  with assms(1) show ?thesis by (simp add: cursor)
next
  case (applied p st1)
  with assms(1) show ?thesis by (auto intro: recorded body cursor)
qed

lemma apply_body_cases:
  assumes "apply_body st e p = Inr st'"
  obtains (created) c where "apply_created st p c = Inr st'"
  | (phase) phase failure where "apply_phase st phase failure = Inr st'"
  | (member_begin) c m where "ts_created st = Some c" and "map_get (ts_members st) (mb_id m) = None"
      and "begin_member st c m = Inr st'"
  | (member_settle) c prior m where "ts_created st = Some c" and "map_get (ts_members st) (mb_id m) = Some prior"
      and "settle_member st prior m = Inr st'"
  | (task) t where "apply_task st t = Inr st'"
  | (message) m where "apply_message st e (tp_event p) m = Inr st'"
  | (protocol) pt where "apply_protocol st pt = Inr st'"
  | (artifact) a where "apply_artifact st e a = Inr st'"
  | (decision) d where "apply_decision st e d = Inr st'"
  | (gate) g where "apply_gate st e g = Inr st'"
proof (cases "tp_body p")
  case (BMember m)
  with assms obtain c where c: "ts_created st = Some c"
      and m: "(case map_get (ts_members st) (mb_id m) of None \<Rightarrow> begin_member st c m
        | Some prior \<Rightarrow> settle_member st prior m) = Inr st'"
    by (auto simp: apply_body_def apply_member_def result_simps)
  then show thesis
    by (cases "map_get (ts_members st) (mb_id m)") (auto intro: member_begin member_settle)
qed (use assms in \<open>auto simp: apply_body_def result_simps intro: that\<close>)

subsection \<open>The roster\<close>

definition member_indexed :: "team_state \<Rightarrow> string \<Rightarrow> team_member \<Rightarrow> bool" where
  "member_indexed st k m \<longleftrightarrow> mb_id m = k \<and>
     map_get (ts_by_name st) (mb_name m) = Some k \<and> map_get (ts_by_attempt st) (mb_attempt m) = Some k \<and>
     map_get (ts_by_session st) (mb_session m) = Some k \<and>
     (mb_phase m = MemberFailed \<longleftrightarrow> mb_failure m \<noteq> None)"

definition roster_ok :: "team_state \<Rightarrow> bool" where
  "roster_ok st \<longleftrightarrow>
     (\<forall>k m. (k, m) \<in> set (ts_members st) \<longrightarrow> member_indexed st k m) \<and>
     map_ok (ts_members st) \<and> map mb_number (members st) = [1..int (length (ts_members st))] \<and>
     (case ts_created st of
        None \<Rightarrow> ts_members st = [] \<and> ts_phase st = None
      | Some c \<Rightarrow> ts_phase st \<noteq> None \<and> 1 \<le> cr_planned c \<and> cr_planned c \<le> 8 \<and>
          cr_planned c \<le> po_max_active (cr_policy c) \<and>
          (\<forall>m \<in> set (members st). mb_session m \<noteq> cr_lead c) \<and>
          int (length (ts_members st)) \<le> po_max_attempts (cr_policy c) \<and>
          count_phase st MemberActive + count_phase st MemberProvisioning \<le> cr_planned c \<and>
          (ts_phase st = Some CompletedPhase \<longrightarrow> exact_team_ready st c))"

lemma count_phase_cong:
  "ts_members st = ts_members st' \<Longrightarrow> count_phase st p = count_phase st' p"
  by (simp add: count_phase_def)

lemma count_phase_nonneg: "0 \<le> count_phase st p"
  by (simp add: count_phase_def)

lemma roster_ok_begin:
  assumes ok: "roster_ok st" and c: "ts_created st = Some c" and fresh: "map_get (ts_members st) (mb_id m) = None"
    and step: "begin_member st c m = Inr st'"
  shows "roster_ok st'"
proof -
  note b = begin_member_Inr [OF step]
  have members: "ts_members st' = ts_members st @ [(mb_id m, m)]"
    using b by (simp add: map_set_fresh [OF fresh])
  have count: "count_phase st' p = count_phase st p + (if p = MemberProvisioning then 1 else 0)" for p
  proof -
    have "mb_phase m = MemberProvisioning" using b by simp
    then show ?thesis by (simp add: count_phase_def members)
  qed
  have phase: "ts_phase st' = ts_phase st" "ts_created st' = Some c" using b c by simp_all
  have "ts_phase st \<noteq> Some CompletedPhase" using b by (auto split: option.splits)
  moreover have "map_ok (ts_members st')"
    using ok b by (auto simp: roster_ok_def)
  moreover have "map mb_number (members st') = [1..int (length (ts_members st'))]"
  proof -
    have "map mb_number (members st) = [1..int (length (ts_members st))]"
      and number: "mb_number m = int (length (ts_members st)) + 1" using ok b by (simp_all add: roster_ok_def)
    then show ?thesis using upto_snoc [of "int (length (ts_members st))"] by (simp add: members add.commute)
  qed
  moreover have "member_indexed st' k n" if n: "(k, n) \<in> set (ts_members st')" for k n
  proof (cases "(k, n) = (mb_id m, m)")
    case True
    with b show ?thesis by (simp add: member_indexed_def)
  next
    case False
    with n have old: "(k, n) \<in> set (ts_members st)" by (auto simp: members)
    with ok have at: "member_indexed st k n" unfolding roster_ok_def by blast
    then have "mb_name n \<noteq> mb_name m" "mb_attempt n \<noteq> mb_attempt m" "mb_session n \<noteq> mb_session m"
      using b by (auto simp: member_indexed_def)
    with at b show ?thesis by (simp add: member_indexed_def)
  qed
  moreover have "\<forall>n \<in> set (members st'). mb_session n \<noteq> cr_lead c"
  proof -
    have "mb_session m \<noteq> cr_lead c" "\<forall>n \<in> set (members st). mb_session n \<noteq> cr_lead c"
      using ok b c by (simp_all add: roster_ok_def)
    then show ?thesis by (simp add: members)
  qed
  moreover have "int (length (ts_members st')) \<le> po_max_attempts (cr_policy c)"
  proof -
    have "int (length (ts_members st)) + 1 \<le> po_max_attempts (cr_policy c)" using b by simp
    then show ?thesis by (simp add: members)
  qed
  moreover have "count_phase st' MemberActive + count_phase st' MemberProvisioning \<le> cr_planned c"
  proof -
    have "count_phase st MemberActive + count_phase st MemberProvisioning < cr_planned c" using b by simp
    then show ?thesis by (simp add: count)
  qed
  ultimately show ?thesis
    using ok c phase unfolding roster_ok_def by simp
qed

lemma roster_ok_settle:
  assumes ok: "roster_ok st" and c: "ts_created st = Some c" and prior: "map_get (ts_members st) (mb_id m) = Some prior"
    and step: "settle_member st prior m = Inr st'"
  shows "roster_ok st'"
proof -
  note b = settle_member_Inr [OF step]
  have members: "ts_members st' = map_set (mb_id m) m (ts_members st)" using b by simp
  have mem: "(k, n) \<in> set (ts_members st') \<Longrightarrow> (k, n) = (mb_id m, m) \<or> (k, n) \<in> set (ts_members st)" for k n
    using set_map_set_subset [of "mb_id m" m "ts_members st"] by (auto simp: members)
  have old: "(mb_id m, prior) \<in> set (ts_members st)" using prior by (rule map_of_SomeD)
  have len: "length (ts_members st') = length (ts_members st)" using prior by (simp add: members length_map_set)
  have numbers: "map mb_number (members st') = map mb_number (members st)"
    unfolding members by (rule map_values_replace [OF prior]) (use b in simp)
  have count: "count_phase st' q = count_phase st q - (if mb_phase prior = q then 1 else 0) + (if mb_phase m = q then 1 else 0)" for q
    unfolding count_phase_def members using count_values_replace [OF prior, of "\<lambda>n. mb_phase n = q" m] by simp
  have phase: "ts_phase st' = ts_phase st" "ts_created st' = Some c" "ts_phase st \<noteq> Some CompletedPhase"
    using b c by (auto split: option.splits)
  have "count_phase st' MemberActive + count_phase st' MemberProvisioning \<le> cr_planned c"
  proof -
    have "count_phase st MemberActive + count_phase st MemberProvisioning \<le> cr_planned c"
      using ok c by (simp add: roster_ok_def)
    moreover have "(mb_phase prior = MemberProvisioning \<and> mb_phase m \<noteq> MemberProvisioning) \<or>
        (mb_phase prior = MemberActive \<and> mb_phase m = MemberFailed)" using b by blast
    ultimately show ?thesis by (auto simp: count)
  qed
  moreover have "map_ok (ts_members st')" using ok by (simp add: roster_ok_def members)
  moreover have "member_indexed st' k n" if n: "(k, n) \<in> set (ts_members st')" for k n
  proof (cases "(k, n) = (mb_id m, m)")
    case True
    have "member_indexed st (mb_id m) prior" using ok old unfolding roster_ok_def by blast
    with True b show ?thesis by (simp add: member_indexed_def)
  next
    case False
    with mem [OF n] have "(k, n) \<in> set (ts_members st)" by blast
    then have "member_indexed st k n" using ok unfolding roster_ok_def by blast
    with b show ?thesis by (simp add: member_indexed_def)
  qed
  moreover have "mb_session n \<noteq> cr_lead c" if "n \<in> set (members st')" for n
  proof -
    have old_ok: "\<forall>n \<in> set (members st). mb_session n \<noteq> cr_lead c" using ok c by (simp add: roster_ok_def)
    from that obtain k where "(k, n) \<in> set (ts_members st')" by auto
    from mem [OF this] have "n = m \<or> n \<in> set (members st)" by force
    moreover have "mb_session m \<noteq> cr_lead c" using old_ok old b by force
    ultimately show ?thesis using old_ok by blast
  qed
  ultimately show ?thesis
    using ok c phase numbers len unfolding roster_ok_def by simp
qed

text \<open>The roster does not depend on anything but members, indexes, header and phase.\<close>

lemma roster_ok_cong:
  assumes "roster_ok st" and "ts_members st' = ts_members st" and "ts_by_name st' = ts_by_name st"
    and "ts_by_attempt st' = ts_by_attempt st" and "ts_by_session st' = ts_by_session st"
    and "ts_created st' = ts_created st" and "ts_phase st' = ts_phase st"
  shows "roster_ok st'"
proof -
  have "count_phase st' p = count_phase st p" for p using assms(2) by (rule count_phase_cong)
  moreover from this have "exact_team_ready st' c = exact_team_ready st c" for c by (simp add: exact_team_ready_def)
  moreover have "member_indexed st' k m = member_indexed st k m" for k m using assms by (simp add: member_indexed_def)
  ultimately show ?thesis using assms by (cases "ts_created st") (simp_all add: roster_ok_def)
qed

lemma roster_ok_body:
  assumes ok: "roster_ok st" and body: "apply_body st e p = Inr st'"
  shows "roster_ok st'"
  using body
proof (cases rule: apply_body_cases)
  case (created c)
  note b = apply_created_Inr [OF created]
  with ok have empty: "ts_members st = []" by (simp add: roster_ok_def)
  then have "count_phase st' q = 0" for q using b by (simp add: count_phase_def)
  with b empty show ?thesis by (simp add: roster_ok_def)
next
  case (phase phase failure)
  from apply_phase_Inr [OF phase] obtain c current where
      b: "ts_created st = Some c" "phase_allowed st c current phase" "st' = st\<lparr>ts_phase := Some phase, ts_failure := failure\<rparr>"
    by blast
  have count: "count_phase st' q = count_phase st q" for q using b by (simp add: count_phase_def)
  have "phase = CompletedPhase \<Longrightarrow> exact_team_ready st c" using b by (simp add: phase_allowed_def)
  then have "phase = CompletedPhase \<Longrightarrow> exact_team_ready st' c" by (simp add: exact_team_ready_def count)
  moreover have "member_indexed st' k m = member_indexed st k m" for k m using b by (simp add: member_indexed_def)
  moreover have "ts_members st' = ts_members st" "ts_created st' = Some c" "ts_phase st' = Some phase" using b by simp_all
  ultimately show ?thesis using ok b(1) by (simp add: roster_ok_def count)
next
  case (member_begin c m)
  show ?thesis by (rule roster_ok_begin [OF ok member_begin])
next
  case (member_settle c prior m)
  show ?thesis by (rule roster_ok_settle [OF ok member_settle])
next
  case (task t)
  show ?thesis using apply_task_Inr [OF task] by (auto intro!: roster_ok_cong [OF ok])
next
  case (message m)
  show ?thesis using apply_message_Inr [OF message] by (auto intro!: roster_ok_cong [OF ok])
next
  case (protocol pt)
  show ?thesis using apply_protocol_Inr [OF protocol] by (auto intro!: roster_ok_cong [OF ok])
next
  case (artifact a)
  show ?thesis using apply_artifact_Inr [OF artifact] by (auto intro!: roster_ok_cong [OF ok])
next
  case (decision d)
  show ?thesis using apply_decision_Inr [OF decision] by (auto intro!: roster_ok_cong [OF ok])
next
  case (gate g)
  show ?thesis using apply_gate_Inr [OF gate] by (auto intro!: roster_ok_cong [OF ok])
qed

lemma roster_ok_event: "roster_ok st \<Longrightarrow> apply_team_event st e = Inr st' \<Longrightarrow> roster_ok st'"
  by (erule (1) team_event_keeps [of roster_ok])
    (auto intro: roster_ok_cong roster_ok_body)

interpretation roster_log: replay apply_team_event "empty_team_state i" "\<lambda>_. roster_ok" for i
  by unfold_locales (simp add: roster_ok_def empty_team_state_def, rule roster_ok_event)

subsection \<open>The task board\<close>

definition board_ok :: "team_state \<Rightarrow> bool" where
  "board_ok st \<longleftrightarrow> map_ok (ts_tasks st) \<and> (\<forall>k t. (k, t) \<in> set (ts_tasks st) \<longrightarrow> tk_id t = k) \<and>
     task_dag (live_tasks (ts_tasks st)) \<and> (ts_created st = None \<longrightarrow> ts_tasks st = [])"

lemma board_ok_cong:
  "board_ok st \<Longrightarrow> ts_tasks st' = ts_tasks st \<Longrightarrow> (ts_created st' = None \<longrightarrow> ts_created st = None) \<Longrightarrow> board_ok st'"
  by (simp add: board_ok_def)

text \<open>No body but a task's touches the board.\<close>

lemma body_keeps_tasks:
  assumes "apply_body st e p = Inr st'"
  shows "(ts_created st' = None \<longrightarrow> ts_created st = None) \<and>
    (ts_tasks st' = ts_tasks st \<or> (\<exists>t. tp_body p = BTask t \<and> apply_task st t = Inr st'))"
proof (cases "tp_body p")
  case (BTask t)
  with assms have t: "apply_task st t = Inr st'" by (simp add: apply_body_def result_simps)
  with apply_task_Inr [OF t] BTask show ?thesis by auto
next
  case (BMember m)
  with assms show ?thesis
    by (auto simp: apply_body_def apply_member_def result_simps split: option.splits
        dest!: begin_member_Inr settle_member_Inr)
qed (use assms in \<open>auto simp: apply_body_def result_simps dest!: apply_created_Inr apply_phase_Inr apply_message_Inr
      apply_protocol_Inr apply_artifact_Inr apply_decision_Inr apply_gate_Inr\<close>)

lemma board_ok_body:
  assumes ok: "board_ok st" and body: "apply_body st e p = Inr st'"
  shows "board_ok st'"
  using body_keeps_tasks [OF body]
proof (elim conjE disjE)
  assume "ts_tasks st' = ts_tasks st" "ts_created st' = None \<longrightarrow> ts_created st = None"
  with ok show ?thesis by (rule board_ok_cong)
next
  assume "\<exists>t. tp_body p = BTask t \<and> apply_task st t = Inr st'"
  then obtain t where "apply_task st t = Inr st'" by blast
  from apply_task_Inr [OF this] have created: "ts_created st \<noteq> None" "ts_created st' = ts_created st"
      and graph: "assert_task_graph (ts_tasks st) t = Inr ()"
      and tasks: "ts_tasks st' = map_set (tk_id t) t (ts_tasks st)" by auto
  from graph ok have "task_dag (live_tasks (ts_tasks st'))"
    by (simp add: assert_task_graph_iff board_ok_def tasks)
  moreover have "tk_id u = k" if "(k, u) \<in> set (ts_tasks st')" for k u
    using that set_map_set_subset [of "tk_id t" t "ts_tasks st"] ok unfolding tasks board_ok_def by auto
  ultimately show ?thesis using ok created by (auto simp: board_ok_def tasks)
qed

lemma board_ok_event: "board_ok st \<Longrightarrow> apply_team_event st e = Inr st' \<Longrightarrow> board_ok st'"
  by (erule (1) team_event_keeps [of board_ok]) (auto intro: board_ok_cong board_ok_body)

interpretation board_log: replay apply_team_event "empty_team_state i" "\<lambda>_. board_ok" for i
  by unfold_locales
    (simp add: board_ok_def empty_team_state_def live_tasks_def task_dag_def task_edges_def acyclic_def, rule board_ok_event)

end
