(* ===== verification/TeamProtocol.thy ===== *)
theory TeamProtocol
  imports TeamInvariant
begin

text \<open>
  The conversation of a TeamRun: the ledgers stay within the limits of the run, an expert bound
  to the protocol within its message budget, and the challenges of a thread within their rounds,
  each answered before the next. The replay is the one of \<open>TeamFold\<close>.
\<close>

subsection \<open>What an accepted message has checked\<close>

lemma assert_actor_member:
  "assert_actor st actor = Inr () \<Longrightarrow> author_member actor = Some i \<Longrightarrow> map_has (ts_members st) i"
  by (cases actor) (auto simp: assert_actor_def result_simps split: option.splits)

lemma assert_protocol_budget:
  assumes "assert_protocol_message st m = Inr ()" and "ts_protocol st = Some pt" and "author_member (sm_author m) = Some i"
  shows "int (length (authored_by st i)) < pt_max_messages pt"
proof -
  from assms have "assert_expert_author st pt i m = Inr ()"
    by (auto simp: assert_protocol_message_def result_simps)
  then show ?thesis by (auto simp: assert_expert_author_def result_simps split: option.splits)
qed

lemma assert_protocol_challenge:
  assumes "assert_protocol_message st m = Inr ()" and "ts_protocol st = Some pt" and kind: "sm_kind m = KChallenge"
  shows "int (length (challenges_in st (sm_thread m))) < pt_max_rounds pt \<and>
    (\<forall>prior. array_last (challenges_in st (sm_thread m)) = Some prior \<longrightarrow> has_response st (rf_challenge (sm_refs prior)))"
proof -
  from assms obtain i target where "assert_challenge st pt m i target = Inr ()"
    by (auto simp: assert_protocol_message_def result_simps split: option.splits list.splits)
  then show ?thesis by (auto simp: assert_challenge_def result_simps)
qed

definition stored_as :: "stored_message \<Rightarrow> public_message \<Rightarrow> bool" where
  "stored_as m pm \<longleftrightarrow> sm_id pm = sm_id m \<and> sm_thread pm = sm_thread m \<and> sm_kind pm = sm_kind m \<and>
     sm_author pm = sm_author m \<and> sm_refs pm = sm_refs m"

lemma stored_as_extend: "stored_as m (stored_message.extend m x)"
  by (simp add: stored_as_def stored_message.defs)

lemma message_appended:
  assumes "apply_message st e i m = Inr st'"
  shows "\<exists>pm. ts_messages st' = ts_messages st @ [(sm_id m, pm)] \<and> stored_as m pm \<and>
    st' = st\<lparr>ts_messages := ts_messages st @ [(sm_id m, pm)]\<rparr>"
  using apply_message_Inr [OF assms] stored_as_extend [of m]
  by (auto simp: map_set_fresh)

subsection \<open>The invariant\<close>

definition early_phase :: "team_state \<Rightarrow> bool" where
  "early_phase st \<longleftrightarrow> in_phase st [Profiling, Planning, Provisioning]"

definition rounds_ok :: "team_state \<Rightarrow> team_protocol \<Rightarrow> bool" where
  "rounds_ok st pt \<longleftrightarrow>
     (\<forall>thread. int (length (challenges_in st thread)) \<le> pt_max_rounds pt \<and>
        (\<forall>c \<in> set (butlast (challenges_in st thread)). has_response st (rf_challenge (sm_refs c))))"

definition budgets_ok :: "team_state \<Rightarrow> team_protocol \<Rightarrow> bool" where
  "budgets_ok st pt \<longleftrightarrow>
     (\<forall>k m. map_get (ts_members st) k = Some m \<and> mb_slot m \<noteq> None \<longrightarrow>
        int (length (authored_by st k)) \<le> pt_max_messages pt)"

definition talk_ok :: "team_state \<Rightarrow> bool" where
  "talk_ok st \<longleftrightarrow>
     (\<forall>m \<in> set (messages st). \<forall>i. author_member (sm_author m) = Some i \<longrightarrow> map_has (ts_members st) i) \<and>
     (early_phase st \<longrightarrow> (\<forall>m \<in> set (messages st). sm_kind m = KStatus)) \<and>
     (case ts_created st of
        None \<Rightarrow> ts_messages st = [] \<and> ts_artifacts st = [] \<and> ts_protocol st = None \<and> ts_members st = []
      | Some c \<Rightarrow> int (length (ts_messages st)) \<le> po_max_messages (cr_policy c) \<and>
          int (length (ts_artifacts st)) \<le> po_max_artifacts (cr_policy c)) \<and>
     (case ts_protocol st of
        None \<Rightarrow> \<forall>k m. map_get (ts_members st) k = Some m \<longrightarrow> mb_slot m = None
      | Some pt \<Rightarrow> 1 \<le> pt_max_messages pt \<and> rounds_ok st pt \<and> budgets_ok st pt)"

lemma rounds_ok_cong: "rounds_ok st pt \<Longrightarrow> ts_messages st' = ts_messages st \<Longrightarrow> rounds_ok st' pt"
  by (simp add: rounds_ok_def challenges_in_def has_response_def)

lemma authored_by_cong: "ts_messages st' = ts_messages st \<Longrightarrow> authored_by st' k = authored_by st k"
  by (simp add: authored_by_def)

lemma budgets_ok_cong:
  "budgets_ok st pt \<Longrightarrow> ts_messages st' = ts_messages st \<Longrightarrow> ts_members st' = ts_members st \<Longrightarrow> budgets_ok st' pt"
  by (simp add: budgets_ok_def authored_by_def)

text \<open>Changes that leave the conversation, the members, the header and the phase alone.\<close>

lemma talk_ok_cong:
  assumes "talk_ok st" and "ts_messages st' = ts_messages st" and "ts_members st' = ts_members st"
    and "ts_created st' = ts_created st" and "ts_phase st' = ts_phase st" and "ts_protocol st' = ts_protocol st"
    and "ts_artifacts st' = ts_artifacts st"
  shows "talk_ok st'"
proof -
  have "early_phase st' = early_phase st" using assms by (simp add: early_phase_def)
  moreover have "rounds_ok st' pt = rounds_ok st pt" "budgets_ok st' pt = budgets_ok st pt" for pt
    using assms by (auto intro: rounds_ok_cong budgets_ok_cong)
  ultimately show ?thesis
    using assms by (cases "ts_created st"; cases "ts_protocol st") (simp_all add: talk_ok_def)
qed

text \<open>Only the slots and the presence of the members matter to the conversation.\<close>

lemma talk_ok_members:
  assumes ok: "talk_ok st" and created: "ts_created st \<noteq> None"
    and st': "ts_messages st' = ts_messages st" "ts_created st' = ts_created st" "ts_phase st' = ts_phase st"
      "ts_protocol st' = ts_protocol st" "ts_artifacts st' = ts_artifacts st"
    and keep: "\<And>k. map_has (ts_members st) k \<Longrightarrow> map_has (ts_members st') k"
    and slot: "\<And>k m. map_get (ts_members st') k = Some m \<Longrightarrow>
        (\<exists>m0. map_get (ts_members st) k = Some m0 \<and> mb_slot m0 = mb_slot m) \<or>
        (map_get (ts_members st) k = None \<and> (ts_protocol st = None \<longrightarrow> mb_slot m = None))"
  shows "talk_ok st'"
proof -
  have authors: "\<forall>m \<in> set (messages st). \<forall>i. author_member (sm_author m) = Some i \<longrightarrow> map_has (ts_members st) i"
    using ok by (simp add: talk_ok_def)
  have none: "authored_by st k = []" if "map_get (ts_members st) k = None" for k
    using authors that by (fastforce simp: authored_by_def filter_empty_conv)
  have "budgets_ok st' pt" if pt: "ts_protocol st = Some pt" for pt
  proof -
    have "budgets_ok st pt" and "1 \<le> pt_max_messages pt" using ok pt by (simp_all add: talk_ok_def)
    show ?thesis unfolding budgets_ok_def authored_by_cong [OF st'(1)]
    proof (intro allI impI)
      fix k m assume m: "map_get (ts_members st') k = Some m \<and> mb_slot m \<noteq> None"
      show "int (length (authored_by st k)) \<le> pt_max_messages pt"
      proof (cases "map_get (ts_members st) k")
        case None
        then show ?thesis using none [OF None] \<open>1 \<le> pt_max_messages pt\<close> by simp
      next
        case (Some m0)
        with slot m \<open>budgets_ok st pt\<close> show ?thesis by (force simp: budgets_ok_def)
      qed
    qed
  qed
  moreover have "rounds_ok st' pt" if "rounds_ok st pt" for pt using that st'(1) by (rule rounds_ok_cong)
  moreover have "early_phase st' = early_phase st" using st' by (simp add: early_phase_def)
  moreover have "\<forall>m \<in> set (messages st'). \<forall>i. author_member (sm_author m) = Some i \<longrightarrow> map_has (ts_members st') i"
    using authors keep st'(1) by simp
  moreover have "mb_slot m = None" if "ts_protocol st = None" "map_get (ts_members st') k = Some m" for k m
    using slot [OF that(2)] that(1) ok by (auto simp: talk_ok_def)
  ultimately show ?thesis
    using ok st' created by (cases "ts_created st"; cases "ts_protocol st") (simp_all add: talk_ok_def)
qed

lemma talk_ok_message:
  assumes ok: "talk_ok st" and step: "apply_message st e i m = Inr st'"
  shows "talk_ok st'"
proof -
  from message_appended [OF step] obtain pm where msgs: "ts_messages st' = ts_messages st @ [(sm_id m, pm)]"
      and pm: "stored_as m pm" and st': "st' = st\<lparr>ts_messages := ts_messages st @ [(sm_id m, pm)]\<rparr>" by blast
  from apply_message_Inr [OF step] obtain c where c: "ts_created st = Some c"
      and kind: "sm_kind m = KStatus \<or> in_phase st [ActivePhase, Completing]"
      and limit: "int (length (ts_messages st)) < po_max_messages (cr_policy c)"
      and author: "assert_actor st (sm_author m) = Inr ()" and admitted: "assert_protocol_message st m = Inr ()" by blast
  have same: "ts_members st' = ts_members st" "ts_created st' = Some c" "ts_phase st' = ts_phase st"
      "ts_protocol st' = ts_protocol st" "ts_artifacts st' = ts_artifacts st" using st' c by simp_all
  have early: "early_phase st' = early_phase st" using same by (simp add: early_phase_def)
  have challenges: "challenges_in st' t = challenges_in st t @ (if sm_kind m = KChallenge \<and> sm_thread m = t then [pm] else [])" for t
    using pm by (simp add: challenges_in_def msgs stored_as_def)
  have mono: "has_response st x \<Longrightarrow> has_response st' x" for x by (simp add: has_response_def msgs)
  have authored: "authored_by st' k = authored_by st k @ (if author_member (sm_author m) = Some k then [pm] else [])" for k
    using pm by (simp add: authored_by_def msgs stored_as_def)
  have protocol: "rounds_ok st' pt \<and> budgets_ok st' pt" if pt: "ts_protocol st = Some pt" for pt
  proof
    have rounds: "rounds_ok st pt" and budgets: "budgets_ok st pt" using ok pt by (simp_all add: talk_ok_def)
    show "rounds_ok st' pt" unfolding rounds_ok_def
    proof (intro allI conjI)
      fix t
      show "int (length (challenges_in st' t)) \<le> pt_max_rounds pt"
        using rounds assert_protocol_challenge [OF admitted pt] by (auto simp: challenges rounds_ok_def)
      show "\<forall>c \<in> set (butlast (challenges_in st' t)). has_response st' (rf_challenge (sm_refs c))"
      proof (cases "sm_kind m = KChallenge \<and> sm_thread m = t")
        case True
        then have "\<forall>prior. array_last (challenges_in st t) = Some prior \<longrightarrow> has_response st (rf_challenge (sm_refs prior))"
          using assert_protocol_challenge [OF admitted pt] by auto
        moreover have "\<forall>c \<in> set (butlast (challenges_in st t)). has_response st (rf_challenge (sm_refs c))"
          using rounds by (simp add: rounds_ok_def)
        ultimately have "\<forall>c \<in> set (challenges_in st t). has_response st (rf_challenge (sm_refs c))"
          by (cases "challenges_in st t" rule: rev_cases) (auto simp: array_last_def)
        with True mono show ?thesis by (simp add: challenges)
      next
        case False
        then have "challenges_in st' t = challenges_in st t" by (auto simp: challenges)
        with rounds mono show ?thesis by (simp add: rounds_ok_def)
      qed
    qed
    show "budgets_ok st' pt"
      using budgets assert_protocol_budget [OF admitted pt] by (auto simp: budgets_ok_def authored same)
  qed
  have "map_has (ts_members st) k" if "author_member (sm_author pm) = Some k" for k
    using assert_actor_member [OF author] that pm by (simp add: stored_as_def)
  moreover have "early_phase st \<Longrightarrow> sm_kind pm = KStatus"
    using kind pm by (auto simp: early_phase_def stored_as_def split: option.splits)
  ultimately show ?thesis
    using ok protocol limit c same early by (cases "ts_protocol st") (auto simp: talk_ok_def msgs)
qed

lemma talk_ok_body:
  assumes ok: "talk_ok st" and body: "apply_body st e p = Inr st'"
  shows "talk_ok st'"
  using body
proof (cases rule: apply_body_cases)
  case (created c)
  with ok show ?thesis by (auto simp: talk_ok_def dest!: apply_created_Inr)
next
  case (phase phase failure)
  from apply_phase_Inr [OF phase] obtain c current where
      b: "ts_created st = Some c" "ts_phase st = Some current" "phase_allowed st c current phase"
        "st' = st\<lparr>ts_phase := Some phase, ts_failure := failure\<rparr>" by blast
  have "early_phase st' \<Longrightarrow> early_phase st"
    using b by (auto simp: early_phase_def phase_allowed_def)
  moreover have "rounds_ok st' pt = rounds_ok st pt" "budgets_ok st' pt = budgets_ok st pt" for pt
    using b(4) by (simp_all add: rounds_ok_def challenges_in_def has_response_def budgets_ok_def authored_by_def)
  ultimately show ?thesis
    using ok b by (cases "ts_protocol st") (simp_all add: talk_ok_def)
next
  case (member_begin c m)
  note b = begin_member_Inr [OF member_begin(3)]
  have "ts_protocol st = None \<Longrightarrow> mb_slot m = None"
    using b by (auto simp: assert_member_slot_def result_simps)
  then show ?thesis using b member_begin(1,2) by (intro talk_ok_members [OF ok]) (auto split: if_splits)
next
  case (member_settle c prior m)
  note b = settle_member_Inr [OF member_settle(3)]
  then show ?thesis using member_settle(1,2) by (intro talk_ok_members [OF ok]) (auto split: if_splits)
next
  case (task t)
  show ?thesis using apply_task_Inr [OF task] by (auto intro!: talk_ok_cong [OF ok])
next
  case (message m)
  show ?thesis by (rule talk_ok_message [OF ok message])
next
  case (protocol pt)
  note b = apply_protocol_Inr [OF protocol]
  then have early: "early_phase st" by (auto simp: early_phase_def split: option.splits)
  with ok have "challenges_in st t = []" for t
    by (fastforce simp: talk_ok_def challenges_in_def filter_empty_conv)
  then have "rounds_ok st' pt" using b by (simp add: rounds_ok_def challenges_in_def)
  moreover have "budgets_ok st' pt" using ok b by (auto simp: budgets_ok_def talk_ok_def)
  moreover have "early_phase st' = early_phase st" using b by (simp add: early_phase_def)
  ultimately show ?thesis using ok b by (cases "ts_created st") (simp_all add: talk_ok_def)
next
  case (artifact a)
  from apply_artifact_Inr [OF artifact] obtain c where
      b: "ts_created st = Some c" "map_get (ts_artifacts st) (ar_id a) = None \<longrightarrow> int (length (ts_artifacts st)) < po_max_artifacts (cr_policy c)"
        "st' = st\<lparr>ts_artifacts := map_set (ar_id a) (stored_artifact.extend a (team_artifact.fields (te_time e))) (ts_artifacts st)\<rparr>"
    by auto
  have same: "ts_messages st' = ts_messages st" "ts_members st' = ts_members st" "ts_created st' = Some c"
      "ts_phase st' = ts_phase st" "ts_protocol st' = ts_protocol st" using b by simp_all
  have "early_phase st' = early_phase st" using same by (simp add: early_phase_def)
  moreover have "rounds_ok st pt \<Longrightarrow> rounds_ok st' pt" "budgets_ok st pt \<Longrightarrow> budgets_ok st' pt" for pt
    using same by (simp_all add: rounds_ok_cong budgets_ok_cong)
  moreover have "int (length (ts_artifacts st')) \<le> po_max_artifacts (cr_policy c)"
  proof -
    have "int (length (ts_artifacts st)) \<le> po_max_artifacts (cr_policy c)" using ok b(1) by (simp add: talk_ok_def)
    with b(2,3) show ?thesis by (cases "map_get (ts_artifacts st) (ar_id a)") (simp_all add: length_map_set)
  qed
  ultimately show ?thesis using ok b(1) same by (cases "ts_protocol st") (simp_all add: talk_ok_def)
next
  case (decision d)
  show ?thesis using apply_decision_Inr [OF decision] by (auto intro!: talk_ok_cong [OF ok])
next
  case (gate g)
  show ?thesis using apply_gate_Inr [OF gate] by (auto intro!: talk_ok_cong [OF ok])
qed

lemma talk_ok_event: "talk_ok st \<Longrightarrow> apply_team_event st e = Inr st' \<Longrightarrow> talk_ok st'"
  by (erule (1) team_event_keeps [of talk_ok]) (auto intro: talk_ok_cong talk_ok_body)

interpretation talk_log: replay apply_team_event "empty_team_state i" "\<lambda>_. talk_ok" for i
  by unfold_locales (simp add: talk_ok_def empty_team_state_def early_phase_def, rule talk_ok_event)

end
