(* ===== verification/TeamRun.thy ===== *)
theory TeamRun
  imports TeamProtocol
begin

text \<open>
  The identities of the events of a TeamRun, the four invariants of its replay together, and the
  order of its phases.
\<close>

subsection \<open>Event identities\<close>

definition run_events :: "string \<Rightarrow> team_event list \<Rightarrow> string set" where
  "run_events i es = {k. \<exists>e \<in> set es. \<exists>p. te_content e = Payload p \<and> tp_run p = i \<and> tp_event p = k}"

definition identity_ok :: "string \<Rightarrow> team_event list \<Rightarrow> team_state \<Rightarrow> bool" where
  "identity_ok i es st \<longleftrightarrow> roster_ok st \<and> ts_id st = i \<and>
     (\<forall>e \<in> set es. \<forall>p. te_content e = Payload p \<and> tp_run p = i \<longrightarrow> map_get (ts_signatures st) (tp_event p) = Some p) \<and>
     map_ok (ts_signatures st) \<and> fst ` set (ts_signatures st) \<subseteq> run_events i es \<and>
     ts_revision st = int (length (ts_signatures st)) \<and>
     (ts_created st = None \<longrightarrow> ts_signatures st = [])"

text \<open>Before its creation a run accepts nothing else.\<close>

lemma body_needs_creation:
  assumes "roster_ok st" and "apply_body st e p = Inr st'"
  shows "if ts_created st = None then \<exists>c. tp_body p = BCreated c else \<not> (\<exists>c. tp_body p = BCreated c)"
proof (cases "ts_created st")
  case None
  with assms(1) have "ts_phase st = None" by (simp add: roster_ok_def)
  with None assms(2) show ?thesis
    by (cases "tp_body p")
      (auto simp: apply_body_def apply_member_def result_simps dest!: apply_phase_Inr apply_task_Inr apply_message_Inr
        apply_protocol_Inr apply_artifact_Inr apply_decision_Inr apply_gate_Inr)
next
  case (Some c)
  with assms(2) show ?thesis
    by (auto simp: apply_body_def dest!: apply_created_Inr)
qed

lemma body_keeps_identity:
  assumes "apply_body st e p = Inr st'"
  shows "ts_id st' = ts_id st \<and> ts_revision st' = ts_revision st \<and> ts_signatures st' = ts_signatures st \<and>
    (ts_created st \<noteq> None \<longrightarrow> ts_created st' = ts_created st)"
  using assms
  by (cases rule: apply_body_cases)
    (auto dest!: apply_created_Inr apply_phase_Inr begin_member_Inr settle_member_Inr apply_task_Inr
      apply_message_Inr apply_protocol_Inr apply_artifact_Inr apply_decision_Inr apply_gate_Inr)

lemma body_revision:
  "apply_body st e p = Inr st' \<Longrightarrow> ts_created st \<noteq> None \<Longrightarrow> payload_revision p = ts_revision st + 1"
  by (cases "tp_body p") (auto simp: apply_body_def payload_revision_def result_simps dest!: apply_created_Inr)

lemma identity_step:
  assumes ok: "identity_ok i es st" and step: "apply_team_event st e = Inr st'"
  shows "identity_ok i (es @ [e]) st'"
proof -
  have roster: "roster_ok st'" using ok step by (auto simp: identity_ok_def intro: roster_ok_event)
  from step show ?thesis
  proof (cases rule: apply_team_event_cases)
    case skip
    have "te_content e = Payload p \<Longrightarrow> tp_run p = i \<Longrightarrow> False \<or> map_get (ts_signatures st) (tp_event p) = Some p" for p
      using step ok skip
      by (auto simp: apply_team_event_def identity_ok_def Let_def result_simps split: option.splits)
    with ok skip show ?thesis by (auto simp: identity_ok_def run_events_def)
  next
    case (duplicate p)
    with ok roster show ?thesis by (auto simp: identity_ok_def run_events_def)
  next
    case (applied p st1)
    define s where "s = st\<lparr>ts_cursor := te_seq e\<rparr>"
    have body: "apply_body s e p = Inr st1" using applied by (simp add: s_def)
    have same: "ts_id st1 = ts_id st" "ts_signatures st1 = ts_signatures st"
        "ts_created st \<noteq> None \<Longrightarrow> ts_created st1 = ts_created st"
      using body_keeps_identity [OF body] by (simp_all add: s_def)
    have "payload_revision p = int (length (ts_signatures st)) + 1 \<and> ts_created st1 \<noteq> None"
    proof (cases "ts_created st")
      case None
      have "roster_ok s" using ok by (auto simp: s_def identity_ok_def intro: roster_ok_cong)
      from body_needs_creation [OF this body] None obtain c where c: "tp_body p = BCreated c" by (auto simp: s_def)
      with body have "apply_created s p c = Inr st1" by (simp add: apply_body_def)
      with None ok c show ?thesis
        by (auto simp: payload_revision_def identity_ok_def dest!: apply_created_Inr)
    next
      case (Some c)
      with body_revision [OF body] ok same show ?thesis by (simp add: s_def identity_ok_def)
    qed
    moreover have "ts_created st' = ts_created st1" using applied by simp
    moreover have "fst ` set (map_set (tp_event p) p (ts_signatures st)) \<subseteq> run_events i (es @ [e])"
      using ok applied set_map_set_subset [of "tp_event p" p "ts_signatures st"]
      by (fastforce simp: identity_ok_def run_events_def)
    ultimately show ?thesis
      using ok applied same roster by (auto simp: identity_ok_def length_map_set)
  qed
qed

interpretation identity_log: replay apply_team_event "empty_team_state i" "identity_ok i" for i
  by unfold_locales
    (simp add: identity_ok_def roster_ok_def empty_team_state_def, rule identity_step)

lemma fold_team_run_invariants:
  assumes "fold_team_run i es = Inr st"
  shows "roster_ok st" and "board_ok st" and "talk_ok st" and "identity_ok i es st"
  using assms unfolding fold_team_run_def
  by (auto intro: roster_log.hist_fold board_log.hist_fold talk_log.hist_fold identity_log.hist_fold)

text \<open>A final phase admits no further body.\<close>

lemma terminal_body_rejected:
  assumes "roster_ok st" and "ts_created st \<noteq> None" and "phase_terminal st" and "apply_body st e p = Inr st'"
  shows False
proof -
  from assms(1,2) have "ts_phase st \<noteq> None" by (auto simp: roster_ok_def)
  with assms(3) obtain q where q: "ts_phase st = Some q" "is_terminal q"
    by (auto simp: phase_terminal_def split: option.splits)
  with assms(4,2,3) show False
    by (cases rule: apply_body_cases)
      (auto simp: is_terminal_def dest!: apply_created_Inr apply_phase_Inr begin_member_Inr settle_member_Inr
        apply_task_Inr apply_message_Inr apply_protocol_Inr apply_artifact_Inr apply_decision_Inr apply_gate_Inr)
qed

subsection \<open>The order of the phases\<close>

text \<open>A run only moves forward: formation, activity, completion, and one of the final phases.\<close>

fun phase_rank :: "run_phase \<Rightarrow> nat" where
  "phase_rank Profiling = 0"
| "phase_rank Planning = 1"
| "phase_rank Provisioning = 2"
| "phase_rank ActivePhase = 3"
| "phase_rank Completing = 4"
| "phase_rank _ = 5"

instantiation run_phase :: preorder
begin

definition less_eq_run_phase :: "run_phase \<Rightarrow> run_phase \<Rightarrow> bool" where
  "less_eq_run_phase p q \<longleftrightarrow> phase_rank p \<le> phase_rank q"

definition less_run_phase :: "run_phase \<Rightarrow> run_phase \<Rightarrow> bool" where
  "less_run_phase p q \<longleftrightarrow> phase_rank p < phase_rank q"

instance by standard (auto simp: less_eq_run_phase_def less_run_phase_def)

end

lemma phase_allowed_forward:
  "phase_allowed st c p q \<Longrightarrow> \<not> is_terminal p \<Longrightarrow> p < q"
  by (cases q; cases p) (simp_all add: phase_allowed_def less_run_phase_def is_terminal_def)

definition phase_advances :: "run_phase option \<Rightarrow> run_phase option \<Rightarrow> bool" where
  "phase_advances x y \<longleftrightarrow> (case (x, y) of
     (None, _) \<Rightarrow> True
   | (Some p, None) \<Rightarrow> False
   | (Some p, Some q) \<Rightarrow> p = q \<or> p < q)"

lemma phase_advances_refl [simp]: "phase_advances x x"
  by (cases x) (simp_all add: phase_advances_def)

lemma phase_advances_trans: "phase_advances x y \<Longrightarrow> phase_advances y z \<Longrightarrow> phase_advances x z"
  by (cases x; cases y; cases z) (auto simp: phase_advances_def intro: less_trans)

lemma body_advances:
  assumes ok: "roster_ok st" and body: "apply_body st e p = Inr st'"
  shows "phase_advances (ts_phase st) (ts_phase st')"
  using body
proof (cases rule: apply_body_cases)
  case (created c)
  with ok show ?thesis by (auto simp: roster_ok_def phase_advances_def dest!: apply_created_Inr)
next
  case (phase phase failure)
  then show ?thesis by (auto simp: phase_advances_def dest!: apply_phase_Inr intro: phase_allowed_forward)
qed (auto dest!: begin_member_Inr settle_member_Inr apply_task_Inr apply_message_Inr apply_protocol_Inr
    apply_artifact_Inr apply_decision_Inr apply_gate_Inr)

lemma event_advances:
  assumes ok: "roster_ok st" and step: "apply_team_event st e = Inr st'"
  shows "phase_advances (ts_phase st) (ts_phase st')"
  using step
proof (cases rule: apply_team_event_cases)
  case (applied p st1)
  have "roster_ok (st\<lparr>ts_cursor := te_seq e\<rparr>)" using ok by (auto intro: roster_ok_cong)
  from body_advances [OF this applied(4)] applied(5) show ?thesis by simp
qed simp_all

text \<open>A finished run: nothing but the cursor moves.\<close>

definition finished :: "team_state \<Rightarrow> bool" where
  "finished st \<longleftrightarrow> roster_ok st \<and> ts_created st \<noteq> None \<and> phase_terminal st"

lemma finished_event:
  assumes fin: "finished st" and step: "apply_team_event st e = Inr st'"
  shows "st' = st\<lparr>ts_cursor := ts_cursor st'\<rparr>" and "finished st'"
proof -
  show frozen: "st' = st\<lparr>ts_cursor := ts_cursor st'\<rparr>"
    using step
  proof (cases rule: apply_team_event_cases)
    case (applied p st1)
    define s where "s = st\<lparr>ts_cursor := te_seq e\<rparr>"
    have "roster_ok s" using fin by (auto simp: s_def finished_def intro: roster_ok_cong)
    moreover have "ts_created s \<noteq> None" "phase_terminal s" using fin by (simp_all add: s_def finished_def phase_terminal_def)
    ultimately show ?thesis using terminal_body_rejected [of s e p st1] applied(4) by (simp add: s_def)
  qed simp_all
  have "roster_ok st'" using fin step by (auto simp: finished_def intro: roster_ok_event)
  moreover have "ts_phase st' = ts_phase st" "ts_created st' = ts_created st" by (subst frozen, simp)+
  ultimately show "finished st'" using fin by (simp add: finished_def phase_terminal_def)
qed

lemma finished_fold:
  "finished st \<Longrightarrow> foldR apply_team_event st es = Inr st' \<Longrightarrow> st' = st\<lparr>ts_cursor := ts_cursor st'\<rparr>"
proof (induction es arbitrary: st)
  case (Cons e es)
  then obtain u where u: "apply_team_event st e = Inr u" and rest: "foldR apply_team_event u es = Inr st'"
    by (auto simp: result_simps)
  from finished_event [OF Cons.prems(1) u] have "u = st\<lparr>ts_cursor := ts_cursor u\<rparr>" "finished u" by blast+
  with Cons.IH [OF _ rest] show ?case by (metis team_state.surjective team_state.update_convs(6))
qed simp

lemma fold_advances:
  "roster_ok st \<Longrightarrow> foldR apply_team_event st es = Inr st' \<Longrightarrow> phase_advances (ts_phase st) (ts_phase st')"
proof (induction es arbitrary: st)
  case (Cons e es)
  then show ?case
    by (auto simp: result_simps intro: phase_advances_trans [OF event_advances] roster_ok_event)
qed simp

end
