(* ===== verification/TeamGuarantees.thy ===== *)
theory TeamGuarantees
  imports TeamRun
begin

text \<open>
  The guarantees of a replayed TeamRun: capacity, lifecycle, a board that can always move, the
  limits of the conversation, and idempotent event identities. A short sample run instantiates
  them.
\<close>

subsection \<open>A sample run\<close>

definition sample_policy :: run_policy where
  "sample_policy = \<lparr>po_max_active = 8, po_max_attempts = 12, po_max_tasks = 4, po_max_messages = 9,
     po_max_message_bytes = 99, po_max_artifacts = 5, po_max_artifact_bytes = 99, po_stall_threshold = 20\<rparr>"

definition sample_created_run :: team_created where
  "sample_created_run = \<lparr>cr_lead = ''L'', cr_objective = ''ship'', cr_complexity = SimpleRun, cr_planned = 1,
     cr_policy = sample_policy\<rparr>"

definition sample_member :: "member_phase \<Rightarrow> team_member" where
  "sample_member ph = \<lparr>mb_id = ''m1'', mb_session = ''s1'', mb_name = ''ada'', mb_role = ''writer'', mb_slot = Some ''slot'',
     mb_attempt = ''a1'', mb_number = 1, mb_phase = ph, mb_failure = None\<rparr>"

definition sample_protocol :: team_protocol where
  "sample_protocol = \<lparr>pt_topology = Centralized, pt_max_rounds = 2, pt_max_messages = 3,
     pt_experts = [\<lparr>ru_slot = ''slot'', ru_initial = ''m1'', ru_name = ''ada'',
       ru_permissions = \<lparr>pr_challenge = True, pr_review = True, pr_request_help = True\<rparr>, ru_targets = []\<rparr>]\<rparr>"

definition sample_challenge :: stored_message where
  "sample_challenge = \<lparr>sm_id = ''c1'', sm_thread = ''main'', sm_kind = KChallenge, sm_author = ExpertActor ''m1'' ''s1'' ''ada'',
     sm_targets = [LeadActor ''L''], sm_refs = \<lparr>rf_task = Some ''task-1'', rf_challenge = Some ''q1'', rf_decision = None,
       rf_artifact = None\<rparr>, sm_content = ''why''\<rparr>"

definition team_log :: "team_body list \<Rightarrow> team_event list" where
  "team_log bs = map2 (\<lambda>n b. \<lparr>te_seq = int n, te_time = 100 + int n, te_content = Payload
     \<lparr>tp_run = ''L'', tp_event = show_nat n, tp_revision = int n + 1, tp_body = b\<rparr>\<rparr>) [0..<length bs] bs"

definition sample_bodies :: "team_body list" where
  "sample_bodies = [BCreated sample_created_run, BPhase Planning None, BProtocol sample_protocol, BPhase Provisioning None,
     BMember (sample_member MemberProvisioning), BMember (sample_member MemberActive), BPhase ActivePhase None,
     BTask (sample_task ''task-1'' []), BMessage sample_challenge]"

definition sample_end :: team_body where
  "sample_end = BPhase CancelledPhase (Some \<lparr>fl_code = ''TEAM_CANCELLED'', fl_message = ''stop'', fl_retryable = False,
     fl_details = []\<rparr>)"

definition sample_final :: "team_event list" where
  "sample_final = team_log (sample_bodies @ [sample_end])"

definition sample_run :: team_state where
  "sample_run = (case fold_team_run ''L'' (team_log sample_bodies) of Inr st \<Rightarrow> st | Inl _ \<Rightarrow> empty_team_state ''L'')"

lemma sample_run_fold: "fold_team_run ''L'' (team_log sample_bodies) = Inr sample_run"
proof -
  have "is_ok (fold_team_run ''L'' (team_log sample_bodies))" by code_simp
  then show ?thesis by (auto simp: sample_run_def is_ok_iff)
qed

subsection \<open>Properties\<close>

text \<open>
  C20. Capacity: in every state of the replay the experts that are active or being provisioned
  are at most the planned ones, at most eight and at most the active limit of the policy;
  attempts are numbered without a gap and stay within the attempt limit; names, attempt ids and
  Sessions are never reused, and the Lead is nobody's expert.
\<close>

theorem team_capacity:
  assumes replayed: "fold_team_run i es = Inr st" and created: "ts_created st = Some c"
  shows "length (filter (\<lambda>m. mb_phase m \<noteq> MemberFailed) (members st)) \<le> nat (cr_planned c) \<and>
    cr_planned c \<le> 8 \<and> cr_planned c \<le> po_max_active (cr_policy c) \<and>
    int (length (members st)) \<le> po_max_attempts (cr_policy c) \<and>
    map mb_number (members st) = [1..int (length (members st))] \<and>
    distinct (map mb_name (members st)) \<and> distinct (map mb_attempt (members st)) \<and>
    distinct (map mb_session (members st)) \<and> cr_lead c \<notin> set (map mb_session (members st))"
proof -
  have ok: "roster_ok st" by (rule fold_team_run_invariants [OF replayed])
  then have map: "map_ok (ts_members st)" and indexed: "\<And>k m. (k, m) \<in> set (ts_members st) \<Longrightarrow> member_indexed st k m"
    by (simp_all add: roster_ok_def)
  have "distinct (map mb_name (members st))"
    by (rule indexed_distinct [OF map, of "ts_by_name st"]) (use indexed in \<open>auto simp: member_indexed_def\<close>)
  moreover have "distinct (map mb_attempt (members st))"
    by (rule indexed_distinct [OF map, of "ts_by_attempt st"]) (use indexed in \<open>auto simp: member_indexed_def\<close>)
  moreover have "distinct (map mb_session (members st))"
    by (rule indexed_distinct [OF map, of "ts_by_session st"]) (use indexed in \<open>auto simp: member_indexed_def\<close>)
  moreover have "int (length (filter (\<lambda>m. mb_phase m \<noteq> MemberFailed) (members st))) \<le> cr_planned c"
  proof -
    have split: "length (filter (\<lambda>m. mb_phase m \<noteq> MemberFailed) ms) =
        length (filter (\<lambda>m. mb_phase m = MemberActive) ms) + length (filter (\<lambda>m. mb_phase m = MemberProvisioning) ms)" for ms
      by (induction ms) (auto, metis member_phase.exhaust)
    show ?thesis using ok created by (simp add: roster_ok_def count_phase_def split)
  qed
  ultimately show ?thesis using ok created by (auto simp: roster_ok_def)
qed

lemma team_capacity_witness:
  "length (filter (\<lambda>m. mb_phase m \<noteq> MemberFailed) (members sample_run)) \<le> 1 \<and>
   map mb_number (members sample_run) = [1..int (length (members sample_run))]"
proof -
  have "ts_created sample_run = Some sample_created_run" by code_simp
  from team_capacity [OF sample_run_fold this] show ?thesis by (simp add: sample_created_run_def)
qed

text \<open>
  C21. The board can always move: while a replayed run has a task that is neither completed nor
  deleted, some such task has only completed blockers.
\<close>

theorem team_board_progress:
  assumes "fold_team_run i es = Inr st" and "t \<in> set (task_values st)" and "tk_status t \<in> {TaskPending, TaskInProgress}"
  shows "\<exists>u \<in> set (task_values st). tk_status u \<in> {TaskPending, TaskInProgress} \<and>
    (\<forall>b \<in> set (tk_blocked_by u). \<exists>v. map_get (ts_tasks st) b = Some v \<and> tk_status v = TaskCompleted)"
proof -
  have ok: "board_ok st" by (rule fold_team_run_invariants [OF assms(1)])
  then have dag: "task_dag (live_tasks (ts_tasks st))" and map: "map_ok (ts_tasks st)" by (simp_all add: board_ok_def)
  have live: "map_ok (live_tasks (ts_tasks st))"
    using map by (simp add: map_ok_def live_tasks_def distinct_map_filter)
  have lookup: "map_get (ts_tasks st) b = Some v" if "map_get (live_tasks (ts_tasks st)) b = Some v" for b v
    using map_of_SomeD [OF that] map by (auto simp: live_tasks_def intro: map_values_get)
  from assms(2) obtain k where "(k, t) \<in> set (ts_tasks st)" by auto
  with assms(3) have "(k, t) \<in> set (live_tasks (ts_tasks st))" "tk_status t \<noteq> TaskCompleted"
    by (auto simp: live_tasks_def is_live_def)
  from task_dag_ready [OF dag live this] obtain j u where
      u: "(j, u) \<in> set (live_tasks (ts_tasks st))" "tk_status u \<noteq> TaskCompleted"
        "\<forall>b \<in> set (tk_blocked_by u). \<exists>v. map_get (live_tasks (ts_tasks st)) b = Some v \<and> tk_status v = TaskCompleted"
    by blast
  from u(1,2) have "u \<in> set (task_values st)" "tk_status u \<in> {TaskPending, TaskInProgress}"
    by (cases "tk_status u"; force simp: live_tasks_def is_live_def)+
  with u(3) lookup show ?thesis by blast
qed

lemma team_board_progress_witness:
  "\<exists>u \<in> set (task_values sample_run). tk_status u \<in> {TaskPending, TaskInProgress} \<and>
    (\<forall>b \<in> set (tk_blocked_by u). \<exists>v. map_get (ts_tasks sample_run) b = Some v \<and> tk_status v = TaskCompleted)"
proof -
  have "task_values sample_run = [sample_task ''task-1'' []]" by code_simp
  then have "sample_task ''task-1'' [] \<in> set (task_values sample_run)" by simp
  then show ?thesis
    by (rule team_board_progress [OF sample_run_fold]) (simp add: sample_task_def)
qed

text \<open>
  C22. Lifecycle: along a replayed log the phase stays or advances; a run is completed only with
  exactly its planned experts active and none in provisioning; and once a final phase is
  reached, whatever the log still accepts moves nothing but the cursor.
\<close>

theorem team_lifecycle:
  assumes prefix: "fold_team_run i es = Inr st" and log: "fold_team_run i (es @ fs) = Inr st'"
    and created: "ts_created st = Some c"
  shows "phase_advances (ts_phase st) (ts_phase st') \<and>
    (ts_phase st = Some CompletedPhase \<longrightarrow> count_phase st MemberActive = cr_planned c \<and> count_phase st MemberProvisioning = 0) \<and>
    (phase_terminal st \<longrightarrow> st' = st\<lparr>ts_cursor := ts_cursor st'\<rparr>)"
proof -
  have ok: "roster_ok st" by (rule fold_team_run_invariants [OF prefix])
  have rest: "foldR apply_team_event st fs = Inr st'"
    using prefix log by (simp add: fold_team_run_def foldR_append)
  have "phase_terminal st \<Longrightarrow> finished st" using ok created by (simp add: finished_def)
  then show ?thesis
    using fold_advances [OF ok rest] finished_fold [OF _ rest] ok created
    by (simp add: roster_ok_def exact_team_ready_def)
qed

lemma team_lifecycle_witness:
  "case (fold_team_run ''L'' sample_final, fold_team_run ''L'' (sample_final @ [hd sample_final])) of
     (Inr st, Inr st') \<Rightarrow> ts_phase st = Some CancelledPhase \<and> st' = st\<lparr>ts_cursor := ts_cursor st'\<rparr>
   | _ \<Rightarrow> False"
proof -
  have "(case (fold_team_run ''L'' sample_final, fold_team_run ''L'' (sample_final @ [hd sample_final])) of
     (Inr st, Inr st') \<Rightarrow> ts_phase st = Some CancelledPhase \<and> ts_created st = Some sample_created_run \<and> phase_terminal st
   | _ \<Rightarrow> False)" by code_simp
  then obtain st st' where st: "fold_team_run ''L'' sample_final = Inr st"
      and st': "fold_team_run ''L'' (sample_final @ [hd sample_final]) = Inr st'"
      and phase: "ts_phase st = Some CancelledPhase" "ts_created st = Some sample_created_run" "phase_terminal st"
    by (auto split: sum.splits)
  from team_lifecycle [OF st st' phase(2)] phase st st' show ?thesis by simp
qed

text \<open>
  C23. The conversation keeps its limits: messages and artifacts stay within the policy of the
  run; an expert bound to a slot of the protocol has written at most its budget of public
  messages; a thread has at most the agreed challenge rounds, and every challenge of it but the
  last has its response.
\<close>

theorem team_conversation_limits:
  assumes replayed: "fold_team_run i es = Inr st" and created: "ts_created st = Some c"
    and protocol: "ts_protocol st = Some pt"
  shows "int (length (messages st)) \<le> po_max_messages (cr_policy c) \<and>
    int (length (artifact_values st)) \<le> po_max_artifacts (cr_policy c) \<and>
    (\<forall>k m. map_get (ts_members st) k = Some m \<and> mb_slot m \<noteq> None \<longrightarrow> int (length (authored_by st k)) \<le> pt_max_messages pt) \<and>
    (\<forall>thread. int (length (challenges_in st thread)) \<le> pt_max_rounds pt \<and>
       (\<forall>q \<in> set (butlast (challenges_in st thread)). has_response st (rf_challenge (sm_refs q))))"
  using fold_team_run_invariants(3) [OF replayed] created protocol
  by (simp add: talk_ok_def rounds_ok_def budgets_ok_def)

lemma team_conversation_limits_witness:
  "int (length (challenges_in sample_run ''main'')) \<le> 2 \<and> length (challenges_in sample_run ''main'') = 1"
proof -
  have "ts_created sample_run = Some sample_created_run" "ts_protocol sample_run = Some sample_protocol" by code_simp+
  from team_conversation_limits [OF sample_run_fold this]
  have "int (length (challenges_in sample_run ''main'')) \<le> 2" by (simp add: sample_protocol_def)
  moreover have "length (challenges_in sample_run ''main'') = 1" by code_simp
  ultimately show ?thesis by simp
qed

text \<open>
  Event identities: an event of the log that is delivered again, at any position and time,
  moves only the cursor; another payload under the same event id is an error; and the revision of
  the run is the number of its distinct events.
\<close>

theorem team_event_idempotent:
  assumes replayed: "fold_team_run i es = Inr st" and e: "e \<in> set es"
    and p: "te_content e = Payload p" "tp_run p = i"
  shows "apply_team_event st \<lparr>te_seq = n, te_time = time, te_content = Payload p\<rparr> = Inr (st\<lparr>ts_cursor := n\<rparr>) \<and>
    (tp_run q = i \<and> tp_event q = tp_event p \<and> q \<noteq> p \<longrightarrow>
       \<not> is_ok (apply_team_event st \<lparr>te_seq = n, te_time = time, te_content = Payload q\<rparr>)) \<and>
    ts_revision st = int (card (run_events i es))"
proof -
  have ok: "identity_ok i es st" by (rule fold_team_run_invariants [OF replayed])
  then have i: "ts_id st = i" and sig: "map_get (ts_signatures st) (tp_event p) = Some p"
    using e p by (auto simp: identity_ok_def)
  have "run_events i es \<subseteq> fst ` set (ts_signatures st)"
    using ok by (force simp: identity_ok_def run_events_def dest: map_of_SomeD)
  with ok have "run_events i es = set (map fst (ts_signatures st))" by (auto simp: identity_ok_def)
  moreover have "distinct (map fst (ts_signatures st))" using ok by (simp add: identity_ok_def map_ok_def)
  ultimately have "card (run_events i es) = length (ts_signatures st)" by (metis distinct_card length_map)
  with ok i sig p(2) show ?thesis
    by (auto simp: identity_ok_def apply_team_event_def check_def throw_if_def fold_error_def)
qed

lemma team_event_idempotent_witness:
  "case fold_team_run ''L'' sample_final of
     Inr st \<Rightarrow> apply_team_event st (hd sample_final) = Inr (st\<lparr>ts_cursor := 0\<rparr>) \<and>
       ts_revision st = int (card (run_events ''L'' sample_final))
   | Inl _ \<Rightarrow> False"
proof -
  define p where "p = \<lparr>tp_run = ''L'', tp_event = ''0'', tp_revision = 1, tp_body = BCreated sample_created_run\<rparr>"
  have head: "hd sample_final = \<lparr>te_seq = 0, te_time = 100, te_content = Payload p\<rparr>" unfolding p_def by code_simp
  have "is_ok (fold_team_run ''L'' sample_final)" by code_simp
  then obtain st where st: "fold_team_run ''L'' sample_final = Inr st" by (auto simp: is_ok_iff)
  have "sample_final \<noteq> []" by code_simp
  then have "hd sample_final \<in> set sample_final" by simp
  from team_event_idempotent [OF st this, of p 0 100] st show ?thesis by (simp add: head) (simp add: p_def)
qed

end
