(* ===== verification/TeamBoard.thy ===== *)
theory TeamBoard
  imports TeamGuarantees
begin

text \<open>
  The task commands of a TeamRun (\<open>packages/collaboration/agent-team/src/task-board.ts\<close>):
  what \<open>create\<close> and \<open>planUpdate\<close> decide before anything is written, and how that
  decision relates to the replay that validates the written event.
\<close>

subsection \<open>Requests\<close>

record create_task_request =
  ct_subject :: string
  ct_description :: string
  ct_blocked_by :: "string list option"
  ct_scopes :: "string list option"

datatype task_action =
    ActAssign | ActClaim | ActRelease | ActEdit | ActSetDependencies | ActComplete | ActReopen | ActReassign | ActDelete

record update_task_request =
  ut_task :: string
  ut_expected :: int
  ut_action :: task_action
  ut_subject :: "string option"
  ut_description :: "string option"
  ut_blocked_by :: "string list option"
  ut_scopes :: "string list option"
  ut_owner :: "string option"

subsection \<open>Shared checks\<close>

definition team_check :: "bool \<Rightarrow> string \<Rightarrow> (team_error, 'a) result \<Rightarrow> (team_error, 'a) result" where
  "team_check bad code k = throw_if bad (TeamError code) k"

definition assert_task_phase :: "team_state \<Rightarrow> (team_error, 'a) result \<Rightarrow> (team_error, 'a) result" where
  "assert_task_phase st k =
     team_check (\<not> in_phase st [Planning, Provisioning, ActivePhase, Completing]) ''TEAM_INVALID_TRANSITION'' k"

definition dependencies ::
    "team_state \<Rightarrow> string option \<Rightarrow> string list \<Rightarrow> (team_error, string list) result" where
  "dependencies st self =
     foldR (\<lambda>acc i.
       team_check (Some i = self) ''TEAM_TASK_DEPENDENCY_CYCLE''
       (team_check (List.member acc i) ''TEAM_INVALID_ARGUMENT''
       (team_check (\<not> current_task st i) ''TEAM_TASK_NOT_FOUND'' (Inr (acc @ [i]))))) []"

definition resource_scopes :: "string list \<Rightarrow> (team_error, string list) result" where
  "resource_scopes values = bindR (mapR resource_scope values) (\<lambda>scopes. Inr (js_set scopes))"

definition task_ready :: "team_state \<Rightarrow> team_task \<Rightarrow> bool" where
  "task_ready st t \<longleftrightarrow>
     list_all (\<lambda>i. case map_get (ts_tasks st) i of None \<Rightarrow> False | Some b \<Rightarrow> tk_status b = TaskCompleted) (tk_blocked_by t)"

fun graph_code :: "graph_violation \<Rightarrow> team_error" where
  "graph_code GraphMissing = TeamError ''TEAM_TASK_NOT_FOUND''"
| "graph_code GraphDuplicate = TeamError ''TEAM_INVALID_ARGUMENT''"
| "graph_code GraphCycle = TeamError ''TEAM_TASK_DEPENDENCY_CYCLE''"

definition assert_graph :: "team_state \<Rightarrow> team_task \<Rightarrow> (team_error, unit) result" where
  "assert_graph st t = mapError graph_code (assert_task_graph (ts_tasks st) t)"

definition normal_or :: "string \<Rightarrow> int \<Rightarrow> string option \<Rightarrow> (team_error, string) result" where
  "normal_or current maximum requested =
     (case requested of None \<Rightarrow> Inr current | Some s \<Rightarrow> required_text s maximum)"

definition edit_task :: "team_task \<Rightarrow> update_task_request \<Rightarrow> (team_error, team_task) result" where
  "edit_task current rq =
     team_check (ut_subject rq = None \<and> ut_description rq = None \<and> ut_scopes rq = None) ''TEAM_INVALID_ARGUMENT''
     (bindR (normal_or (tk_subject current) 200 (ut_subject rq)) (\<lambda>subject.
      bindR (normal_or (tk_description current) 16384 (ut_description rq)) (\<lambda>description.
      bindR (case ut_scopes rq of None \<Rightarrow> Inr (tk_scopes current) | Some scopes \<Rightarrow> resource_scopes scopes) (\<lambda>scopes.
      Inr (current\<lparr>tk_subject := subject, tk_description := description, tk_scopes := scopes\<rparr>)))))"

subsection \<open>Creating a task\<close>

definition plan_create :: "team_state \<Rightarrow> create_task_request \<Rightarrow> (team_error, team_task) result" where
  "plan_create st rq =
     (case ts_created st of
        None \<Rightarrow> Inl (TeamError ''TEAM_NOT_FOUND'')
      | Some created \<Rightarrow>
          assert_task_phase st
          (team_check (po_max_tasks (cr_policy created) \<le> int (length (filter is_live (task_values st)))) ''TEAM_TASK_LIMIT''
          (let i = ''task-'' @ show_int (ts_next_task st) in
           team_check (map_has (ts_tasks st) i) ''TEAM_TASK_LIMIT''
          (bindR (required_text (ct_subject rq) 200) (\<lambda>subject.
           bindR (required_text (ct_description rq) 16384) (\<lambda>description.
           bindR (dependencies st None (case ct_blocked_by rq of None \<Rightarrow> [] | Some bs \<Rightarrow> bs)) (\<lambda>blocked.
           bindR (resource_scopes (case ct_scopes rq of None \<Rightarrow> [] | Some ss \<Rightarrow> ss)) (\<lambda>scopes.
           let t = \<lparr>tk_id = i, tk_revision = 1, tk_subject = subject, tk_description = description,
                     tk_status = TaskPending, tk_owner = None, tk_blocked_by = blocked, tk_scopes = scopes\<rparr> in
           bindR (assert_graph st t) (\<lambda>_. Inr t)))))))))"

subsection \<open>The actions on a task\<close>

definition owner_authority :: "actor_ref \<Rightarrow> team_task \<Rightarrow> bool" where
  "owner_authority actor t \<longleftrightarrow> (case tk_owner t of None \<Rightarrow> False | Some owner \<Rightarrow> same_actor owner actor)"

definition require_owner :: "actor_ref \<Rightarrow> team_task \<Rightarrow> (team_error, 'a) result \<Rightarrow> (team_error, 'a) result" where
  "require_owner actor t k = team_check (\<not> is_lead actor \<and> \<not> owner_authority actor t) ''TEAM_TASK_UNAUTHORIZED'' k"

definition blank :: "string option \<Rightarrow> bool" where
  "blank s \<longleftrightarrow> (case s of None \<Rightarrow> True | Some t \<Rightarrow> trim t = [])"

definition plan_assign ::
    "team_state \<Rightarrow> actor_ref \<Rightarrow> team_task \<Rightarrow> string option \<Rightarrow> (team_error, team_task) result" where
  "plan_assign st actor current owner =
     team_check (\<not> is_lead actor) ''TEAM_LEAD_REQUIRED''
     (team_check (tk_status current \<noteq> TaskPending \<or> tk_owner current \<noteq> None) ''TEAM_TASK_INVALID_TRANSITION''
     (case owner of
        None \<Rightarrow> Inl (TeamError ''TEAM_INVALID_ARGUMENT'')
      | Some name \<Rightarrow>
          team_check (trim name = []) ''TEAM_INVALID_ARGUMENT''
          (bindR (resolve_by_name st name) (\<lambda>planned.
           team_check (is_lead planned) ''TEAM_TASK_UNAUTHORIZED'' (Inr (current\<lparr>tk_owner := Some planned\<rparr>))))))"

definition plan_claim :: "team_state \<Rightarrow> actor_ref \<Rightarrow> team_task \<Rightarrow> (team_error, team_task) result" where
  "plan_claim st actor current =
     team_check (tk_owner current \<noteq> None \<and> \<not> owner_authority actor current) ''TEAM_TASK_UNAUTHORIZED''
     (team_check (tk_status current \<noteq> TaskPending \<or> \<not> task_ready st current) ''TEAM_TASK_BLOCKED''
     (Inr (current\<lparr>tk_status := TaskInProgress, tk_owner := Some actor\<rparr>)))"

definition plan_complete :: "team_state \<Rightarrow> actor_ref \<Rightarrow> team_task \<Rightarrow> (team_error, team_task) result" where
  "plan_complete st actor current =
     require_owner actor current
     (team_check (tk_status current \<noteq> TaskInProgress) ''TEAM_TASK_INVALID_TRANSITION''
     (team_check (\<not> task_ready st current) ''TEAM_TASK_BLOCKED''
     (team_check (ts_protocol st \<noteq> None \<and> (case tk_owner current of None \<Rightarrow> True | Some owner \<Rightarrow> is_lead owner))
        ''TEAM_TASK_INVALID_TRANSITION''
     (team_check (ts_protocol st \<noteq> None \<and> \<not> is_lead actor) ''TEAM_LEAD_REQUIRED''
     (team_check (ts_protocol st \<noteq> None \<and> accepted_owner_artifact st current = None) ''TEAM_TASK_INVALID_TRANSITION''
     (Inr (current\<lparr>tk_status := TaskCompleted\<rparr>)))))))"

definition plan_reassign ::
    "team_state \<Rightarrow> actor_ref \<Rightarrow> team_task \<Rightarrow> string option \<Rightarrow> (team_error, team_task) result" where
  "plan_reassign st actor current owner =
     team_check (\<not> is_lead actor) ''TEAM_LEAD_REQUIRED''
     (team_check (tk_status current \<noteq> TaskPending \<and> tk_status current \<noteq> TaskInProgress) ''TEAM_TASK_INVALID_TRANSITION''
     (if blank owner then Inr (current\<lparr>tk_status := TaskPending, tk_owner := None\<rparr>)
      else
        team_check (\<not> task_ready st current) ''TEAM_TASK_BLOCKED''
        (bindR (resolve_by_name st (the owner)) (\<lambda>next.
         Inr (current\<lparr>tk_status := TaskInProgress, tk_owner := Some next\<rparr>)))))"

definition plan_delete :: "team_state \<Rightarrow> actor_ref \<Rightarrow> team_task \<Rightarrow> (team_error, team_task) result" where
  "plan_delete st actor current =
     require_owner actor current
     (team_check (list_ex (\<lambda>t. is_live t \<and> tk_id t \<noteq> tk_id current \<and> List.member (tk_blocked_by t) (tk_id current))
          (task_values st)) ''TEAM_TASK_HAS_DEPENDENTS''
     (Inr (current\<lparr>tk_status := TaskDeleted\<rparr>)))"

definition plan_next ::
    "team_state \<Rightarrow> actor_ref \<Rightarrow> team_task \<Rightarrow> update_task_request \<Rightarrow> (team_error, team_task) result" where
  "plan_next st actor current rq =
     (case ut_action rq of
        ActAssign \<Rightarrow> plan_assign st actor current (ut_owner rq)
      | ActClaim \<Rightarrow> plan_claim st actor current
      | ActRelease \<Rightarrow> require_owner actor current
          (team_check (tk_status current \<noteq> TaskInProgress) ''TEAM_TASK_INVALID_TRANSITION''
          (Inr (current\<lparr>tk_status := TaskPending, tk_owner := None\<rparr>)))
      | ActEdit \<Rightarrow> require_owner actor current (edit_task current rq)
      | ActSetDependencies \<Rightarrow> require_owner actor current
          (case ut_blocked_by rq of
             None \<Rightarrow> Inl (TeamError ''TEAM_INVALID_ARGUMENT'')
           | Some bs \<Rightarrow> bindR (dependencies st (Some (tk_id current)) bs) (\<lambda>blocked.
               Inr (current\<lparr>tk_blocked_by := blocked\<rparr>)))
      | ActComplete \<Rightarrow> plan_complete st actor current
      | ActReopen \<Rightarrow> require_owner actor current
          (team_check (tk_status current \<noteq> TaskCompleted) ''TEAM_TASK_INVALID_TRANSITION''
          (Inr (current\<lparr>tk_status := TaskPending, tk_owner := None\<rparr>)))
      | ActReassign \<Rightarrow> plan_reassign st actor current (ut_owner rq)
      | ActDelete \<Rightarrow> plan_delete st actor current)"

definition plan_update ::
    "team_state \<Rightarrow> actor_ref \<Rightarrow> update_task_request \<Rightarrow> (team_error, team_task) result" where
  "plan_update st actor rq =
     assert_task_phase st
     (case map_get (ts_tasks st) (ut_task rq) of
        None \<Rightarrow> Inl (TeamError ''TEAM_TASK_NOT_FOUND'')
      | Some current \<Rightarrow>
          team_check (tk_revision current \<noteq> ut_expected rq) ''STALE_REVISION''
          (team_check (tk_status current = TaskDeleted) ''TEAM_TASK_INVALID_TRANSITION''
          (bindR (plan_next st actor current rq) (\<lambda>next.
           let t = next\<lparr>tk_revision := tk_revision current + 1\<rparr> in
           bindR (assert_graph st t) (\<lambda>_. Inr t)))))"

lemma team_check_Inr [result_simps]: "team_check bad code k = Inr x \<longleftrightarrow> \<not> bad \<and> k = Inr x"
  by (simp add: team_check_def result_simps)

subsection \<open>Scopes\<close>

lemma length_trim_le: "length (trim s) \<le> length s"
  using trim_start_le [of s] trim_start_le [of "rev (trim_start s)"] by (simp add: trim_def)

lemma trim_full:
  assumes "length (trim s) = length s"
  shows "trim s = s"
proof -
  have suffix: "length (trim_start u) = length u \<Longrightarrow> trim_start u = u" for u
    using trim_start_suffix [of u] by (metis append_Nil append_eq_append_conv)
  have "length (trim_start (rev (trim_start s))) = length s" using assms by (simp add: trim_def)
  then have "length (trim_start s) = length s" "length (trim_start (rev (trim_start s))) = length (rev (trim_start s))"
    using trim_start_le [of s] trim_start_le [of "rev (trim_start s)"] by simp_all
  with suffix have "trim_start s = s" "trim_start (rev (trim_start s)) = rev (trim_start s)" by blast+
  then show ?thesis by (simp add: trim_def)
qed

lemma strip_slashes_idem: "strip_slashes (strip_slashes s) = strip_slashes s"
  by (simp add: strip_slashes_def dropWhile_idem)

lemma strip_slashes_subset: "set (strip_slashes s) \<subseteq> set s"
  using set_dropWhileD by (fastforce simp: strip_slashes_def)

lemma length_strip_slashes: "length (strip_slashes s) \<le> length s"
  by (simp add: strip_slashes_def) (metis length_dropWhile_le length_rev)

text \<open>A normalised scope is its own normal form unless the removal of slashes has left white space at its end.\<close>

lemma resource_scope_stable:
  assumes "resource_scope v = Inr n"
  shows "resource_scope n = Inr n \<longleftrightarrow> trim n = n"
proof -
  define f where "f = (\<lambda>c. if c = char_of (92 :: nat) then CHR ''/'' else c)"
  define bad where "bad = (\<lambda>n :: string. n = [] \<or> 512 < length n \<or> list_ex is_control n \<or>
      list_ex (\<lambda>s. s = [] \<or> s = ''.'' \<or> s = ''..'') (split_on (CHR ''/'') n))"
  have scope: "resource_scope u = Inr m \<longleftrightarrow> m = strip_slashes (map f (trim u)) \<and> \<not> bad m" for u m
    by (auto simp: resource_scope_def Let_def f_def bad_def result_simps)
  from assms have n: "n = strip_slashes (map f (trim v))" and good: "\<not> bad n" using scope by blast+
  have "f c = c" if "c \<in> set n" for c
    using that strip_slashes_subset [of "map f (trim v)"] unfolding n by (auto simp: f_def split: if_splits)
  then have "map f n = n" by (simp add: map_idI)
  then have "strip_slashes (map f n) = n" by (simp add: n strip_slashes_idem)
  moreover have "trim n = n" if "n = strip_slashes (map f (trim n))"
  proof -
    have "length n \<le> length (trim n)" using that length_strip_slashes [of "map f (trim n)"] by simp
    with length_trim_le [of n] show ?thesis by (intro trim_full) simp
  qed
  ultimately show ?thesis using good scope [of n n] by metis
qed

lemma mapR_fixed: "mapR f xs = Inr xs \<longleftrightarrow> (\<forall>x \<in> set xs. f x = Inr x)"
proof (induction xs)
  case (Cons x xs)
  then show ?case by (auto simp: result_simps)
qed simp

lemma resource_scopes_Inr:
  assumes "resource_scopes values = Inr scopes"
  shows "distinct scopes \<and> (mapR resource_scope scopes = Inr scopes \<longleftrightarrow> (\<forall>s \<in> set scopes. trim s = s))"
proof -
  from assms obtain ns where ns: "mapR resource_scope values = Inr ns" and scopes: "scopes = js_set ns"
    by (auto simp: resource_scopes_def result_simps)
  have "resource_scope s = Inr s \<longleftrightarrow> trim s = s" if "s \<in> set scopes" for s
  proof -
    from that mapR_Inr_set [OF ns] obtain v where "resource_scope v = Inr s" by (auto simp: scopes)
    then show ?thesis by (rule resource_scope_stable)
  qed
  then show ?thesis by (simp add: scopes mapR_fixed)
qed

subsection \<open>What the replay checks of a task\<close>

definition id_safe :: "string \<Rightarrow> bool" where
  "id_safe i \<longleftrightarrow> (case digits_after ''task-'' i of None \<Rightarrow> True | Some n \<Rightarrow> is_safe (int n))"

definition normal :: "string \<Rightarrow> nat \<Rightarrow> bool" where
  "normal s maximum \<longleftrightarrow> trim s = s \<and> s \<noteq> [] \<and> length s \<le> maximum"

text \<open>The checks that depend on the task alone.\<close>

definition task_static :: "team_task \<Rightarrow> bool" where
  "task_static t \<longleftrightarrow> normal (tk_subject t) 200 \<and> normal (tk_description t) 16384 \<and>
     (tk_status t \<in> {TaskInProgress, TaskCompleted} \<longrightarrow> tk_owner t \<noteq> None) \<and>
     mapR resource_scope (tk_scopes t) = Inr (tk_scopes t) \<and> distinct (tk_scopes t) \<and> id_safe (tk_id t)"

definition next_revision :: "team_state \<Rightarrow> team_task \<Rightarrow> int" where
  "next_revision st t = (case map_get (ts_tasks st) (tk_id t) of None \<Rightarrow> 1 | Some prior \<Rightarrow> tk_revision prior + 1)"

definition owner_current :: "team_state \<Rightarrow> team_task \<Rightarrow> bool" where
  "owner_current st t \<longleftrightarrow> (case tk_owner t of None \<Rightarrow> True | Some owner \<Rightarrow> is_ok (assert_actor st owner))"

lemma is_ok_check [simp]: "is_ok (check bad why k) \<longleftrightarrow> \<not> bad \<and> is_ok k"
  by (simp add: check_def result_simps)

lemma is_ok_normal_text [simp]: "is_ok (normal_text s n k) \<longleftrightarrow> trim s = s \<and> s \<noteq> [] \<and> int (length s) \<le> n \<and> is_ok k"
  by (auto simp: is_ok_iff normal_text_Inr)

lemma apply_task_ok:
  "is_ok (apply_task st t) \<longleftrightarrow> is_ok (require_created st) \<and> \<not> phase_terminal st \<and> ts_phase st \<noteq> Some Profiling \<and>
     task_static t \<and> tk_revision t = next_revision st t \<and> owner_current st t \<and>
     assert_task_graph (ts_tasks st) t = Inr ()"
proof -
  have owner: "(case tk_owner t of None \<Rightarrow> Inr () | Some owner \<Rightarrow> assert_actor st owner) = Inr () \<longleftrightarrow> owner_current st t"
    by (simp add: owner_current_def is_ok_iff split: option.splits)
  have tail: "is_ok (case digits_after ''task-'' (tk_id t) of None \<Rightarrow> Inr a
      | Some n \<Rightarrow> check (\<not> is_safe (int n)) w (Inr (b n))) \<longleftrightarrow> id_safe (tk_id t)" for a b w
    by (simp add: id_safe_def split: option.splits)
  show ?thesis
    unfolding apply_task_def is_ok_bindR is_ok_check is_ok_normal_text lift_team_Inr graph_error_Inr tail
      next_revision_def [symmetric]
    by (simp add: owner is_ok_iff [of "require_created st"]) (auto simp: task_static_def normal_def)
qed

subsection \<open>The board holds only tasks the replay would accept again\<close>

definition board_static :: "team_state \<Rightarrow> bool" where
  "board_static st \<longleftrightarrow> (\<forall>k t. (k, t) \<in> set (ts_tasks st) \<longrightarrow> task_static t) \<and>
     1 \<le> ts_next_task st \<and> ts_next_task st \<le> max_safe"

lemma apply_task_next:
  assumes "apply_task st t = Inr st'" and "1 \<le> ts_next_task st" and "ts_next_task st \<le> max_safe"
  shows "1 \<le> ts_next_task st' \<and> ts_next_task st' \<le> max_safe"
proof (cases "digits_after ''task-'' (tk_id t)")
  case None
  with assms show ?thesis by (auto simp: apply_task_def result_simps)
next
  case (Some n)
  with assms have "is_safe (int n)"
      and next_task: "ts_next_task st' = max (ts_next_task st) (if int n = max_safe then int n else int n + 1)"
    by (auto simp: apply_task_def result_simps)
  with assms(2,3) show ?thesis unfolding next_task by (auto simp: is_safe_def)
qed

lemma body_keeps_next:
  "apply_body st e p = Inr st' \<Longrightarrow>
     ts_next_task st' = ts_next_task st \<or> (\<exists>t. tp_body p = BTask t \<and> apply_task st t = Inr st')"
  by (cases "tp_body p")
    (auto simp: apply_body_def apply_member_def result_simps split: option.splits
      dest!: apply_created_Inr apply_phase_Inr begin_member_Inr settle_member_Inr apply_message_Inr apply_protocol_Inr
        apply_artifact_Inr apply_decision_Inr apply_gate_Inr)

lemma board_static_task:
  assumes "board_static st" and step: "apply_task st t = Inr st'"
  shows "board_static st'"
proof -
  have "task_static t" using step apply_task_ok [of st t] by simp
  moreover have "ts_tasks st' = map_set (tk_id t) t (ts_tasks st)" using apply_task_Inr [OF step] by auto
  ultimately show ?thesis
    using assms apply_task_next [OF step] set_map_set_subset [of "tk_id t" t "ts_tasks st"]
    by (auto simp: board_static_def)
qed

lemma board_static_body:
  assumes ok: "board_static st" and body: "apply_body st e p = Inr st'"
  shows "board_static st'"
proof (cases "\<exists>t. tp_body p = BTask t \<and> apply_task st t = Inr st'")
  case True
  with ok show ?thesis by (auto intro: board_static_task)
next
  case False
  with body_keeps_tasks [OF body] body_keeps_next [OF body]
  have "ts_tasks st' = ts_tasks st" "ts_next_task st' = ts_next_task st" by auto
  with ok show ?thesis by (simp add: board_static_def)
qed

lemma record_payload_next [simp]: "ts_next_task (record_payload st e p) = ts_next_task st"
  by (simp add: record_payload_def mark_activity_def Let_def)

lemma board_static_cong:
  "board_static st \<Longrightarrow> ts_tasks st' = ts_tasks st \<Longrightarrow> ts_next_task st' = ts_next_task st \<Longrightarrow> board_static st'"
  by (simp add: board_static_def)

lemma board_static_event: "board_static st \<Longrightarrow> apply_team_event st e = Inr st' \<Longrightarrow> board_static st'"
  by (erule (1) team_event_keeps [of board_static]) (auto intro: board_static_cong board_static_body)

interpretation static_log: replay apply_team_event "empty_team_state i" "\<lambda>_. board_static" for i
  by unfold_locales (simp add: board_static_def empty_team_state_def max_safe_def, rule board_static_event)

lemma fold_board_static: "fold_team_run i es = Inr st \<Longrightarrow> board_static st"
  unfolding fold_team_run_def by (rule static_log.hist_fold)

subsection \<open>What a planned task looks like\<close>

lemma required_text_normal: "required_text v (int m) = Inr s \<Longrightarrow> normal s m"
  by (auto simp: required_text_Inr normal_def)

definition scopes_from :: "string list \<Rightarrow> team_task \<Rightarrow> bool" where
  "scopes_from old t \<longleftrightarrow> tk_scopes t = old \<or> (\<exists>vs. resource_scopes vs = Inr (tk_scopes t))"

definition derived_from :: "team_task \<Rightarrow> team_task \<Rightarrow> bool" where
  "derived_from current t \<longleftrightarrow> tk_id t = tk_id current \<and> tk_revision t = tk_revision current \<and>
     (tk_subject t = tk_subject current \<or> normal (tk_subject t) 200) \<and>
     (tk_description t = tk_description current \<or> normal (tk_description t) 16384) \<and>
     (tk_status t \<in> {TaskInProgress, TaskCompleted} \<longrightarrow>
        tk_owner t \<noteq> None \<or> (tk_owner t = tk_owner current \<and> tk_status current \<in> {TaskInProgress, TaskCompleted})) \<and>
     scopes_from (tk_scopes current) t"

lemma edit_task_derived:
  assumes "edit_task current rq = Inr t"
  shows "derived_from current t"
proof -
  have norm: "normal_or old (int n) q = Inr s \<Longrightarrow> s = old \<or> normal s n" for old n q s
    by (cases q) (auto simp: normal_or_def required_text_normal)
  from assms obtain subject description scopes where
      subject: "normal_or (tk_subject current) 200 (ut_subject rq) = Inr subject"
      and description: "normal_or (tk_description current) 16384 (ut_description rq) = Inr description"
      and scopes: "(case ut_scopes rq of None \<Rightarrow> Inr (tk_scopes current) | Some ss \<Rightarrow> resource_scopes ss) = Inr scopes"
      and t: "t = current\<lparr>tk_subject := subject, tk_description := description, tk_scopes := scopes\<rparr>"
    by (auto simp: edit_task_def result_simps)
  from norm [of _ 200] norm [of _ 16384] subject description
  have "subject = tk_subject current \<or> normal subject 200" "description = tk_description current \<or> normal description 16384"
    by simp_all
  moreover have "scopes = tk_scopes current \<or> (\<exists>vs. resource_scopes vs = Inr scopes)"
    using scopes by (cases "ut_scopes rq") auto
  ultimately show ?thesis by (auto simp: t derived_from_def scopes_from_def)
qed

lemma plan_next_derived:
  assumes "plan_next st actor current rq = Inr t"
  shows "derived_from current t"
proof (cases "ut_action rq = ActEdit")
  case True
  with assms have "edit_task current rq = Inr t" by (simp add: plan_next_def require_owner_def result_simps)
  then show ?thesis by (rule edit_task_derived)
next
  case False
  with assms show ?thesis
    by (cases "ut_action rq")
      (auto simp: plan_next_def plan_assign_def plan_claim_def plan_complete_def plan_reassign_def plan_delete_def
        require_owner_def derived_from_def scopes_from_def result_simps split: option.splits if_splits)
qed

lemma fixed_scopes: "mapR resource_scope ss = Inr ss \<Longrightarrow> s \<in> set ss \<Longrightarrow> trim s = s"
  using resource_scope_stable by (auto simp: mapR_fixed)

lemma scopes_from_admitted:
  assumes "scopes_from old t" and "mapR resource_scope old = Inr old" and "distinct old"
  shows "mapR resource_scope (tk_scopes t) = Inr (tk_scopes t) \<and> distinct (tk_scopes t) \<longleftrightarrow>
    (\<forall>s \<in> set (tk_scopes t). trim s = s)"
  using assms resource_scopes_Inr fixed_scopes unfolding scopes_from_def by metis

lemma assert_graph_Inr: "assert_graph st t = Inr () \<longleftrightarrow> assert_task_graph (ts_tasks st) t = Inr ()"
  by (simp add: assert_graph_def mapError_Inr)

lemma assert_task_phase_Inr [result_simps]:
  "assert_task_phase st k = Inr x \<longleftrightarrow> in_phase st [Planning, Provisioning, ActivePhase, Completing] \<and> k = Inr x"
  by (simp add: assert_task_phase_def result_simps)

lemma open_phase:
  assumes "roster_ok st" and "in_phase st [Planning, Provisioning, ActivePhase, Completing]"
  shows "is_ok (require_created st) \<and> \<not> phase_terminal st \<and> ts_phase st \<noteq> Some Profiling"
  using assms
  by (cases "ts_created st"; cases "ts_phase st")
    (auto simp: roster_ok_def require_created_def phase_terminal_def is_terminal_def)

lemma plan_update_Inr:
  assumes "plan_update st actor rq = Inr t"
  obtains current planned where "in_phase st [Planning, Provisioning, ActivePhase, Completing]"
    and "map_get (ts_tasks st) (ut_task rq) = Some current" and "tk_revision current = ut_expected rq"
    and "tk_status current \<noteq> TaskDeleted" and "plan_next st actor current rq = Inr planned"
    and "t = planned\<lparr>tk_revision := tk_revision current + 1\<rparr>" and "assert_task_graph (ts_tasks st) t = Inr ()"
  using assms by (auto simp: plan_update_def Let_def result_simps assert_graph_Inr split: option.splits)

lemma update_admitted:
  assumes replayed: "fold_team_run i es = Inr st" and plan: "plan_update st actor rq = Inr t"
  shows "is_ok (apply_task st t) \<longleftrightarrow> owner_current st t \<and> (\<forall>s \<in> set (tk_scopes t). trim s = s)"
proof -
  from plan obtain current planned where phase: "in_phase st [Planning, Provisioning, ActivePhase, Completing]"
      and current: "map_get (ts_tasks st) (ut_task rq) = Some current" and planned: "plan_next st actor current rq = Inr planned"
      and t: "t = planned\<lparr>tk_revision := tk_revision current + 1\<rparr>" and graph: "assert_task_graph (ts_tasks st) t = Inr ()"
    by (rule plan_update_Inr)
  from map_of_SomeD [OF current] fold_board_static [OF replayed] fold_team_run_invariants(2) [OF replayed]
  have static: "task_static current" and id: "tk_id current = ut_task rq" by (auto simp: board_static_def board_ok_def)
  from plan_next_derived [OF planned] have d: "derived_from current planned" .
  have "next_revision st t = tk_revision t"
    using d current id by (simp add: next_revision_def t derived_from_def)
  moreover have "mapR resource_scope (tk_scopes t) = Inr (tk_scopes t) \<and> distinct (tk_scopes t) \<longleftrightarrow>
      (\<forall>s \<in> set (tk_scopes t). trim s = s)"
    by (rule scopes_from_admitted [of "tk_scopes current"]) (use d static in \<open>auto simp: t derived_from_def scopes_from_def task_static_def\<close>)
  moreover have "normal (tk_subject t) 200 \<and> normal (tk_description t) 16384 \<and> id_safe (tk_id t) \<and>
      (tk_status t \<in> {TaskInProgress, TaskCompleted} \<longrightarrow> tk_owner t \<noteq> None)"
    using d static by (auto simp: t derived_from_def task_static_def)
  ultimately show ?thesis
    using open_phase [OF fold_team_run_invariants(1) [OF replayed] phase] graph
    by (auto simp: apply_task_ok task_static_def)
qed

lemma digits_after_task: "digits_after ''task-'' (''task-'' @ show_nat n) = Some n"
proof -
  have "list_all is_digit (show_nat n) \<and> show_nat n \<noteq> []"
  proof (induction n rule: show_nat.induct)
    case (1 n)
    have "is_digit (char_of (48 + d))" if "d < 10" for d :: nat
      using that by (simp add: is_digit_def of_char_digit)
    with 1 show ?case by (subst (1 2) show_nat.simps) simp
  qed
  then show ?thesis by (simp add: digits_after_def starts_with_def Let_def read_show_nat)
qed

lemma create_admitted:
  assumes replayed: "fold_team_run i es = Inr st" and plan: "plan_create st rq = Inr t"
  shows "is_ok (apply_task st t) \<longleftrightarrow> (\<forall>s \<in> set (tk_scopes t). trim s = s)"
proof -
  have static: "board_static st" by (rule fold_board_static [OF replayed])
  from plan have phase: "in_phase st [Planning, Provisioning, ActivePhase, Completing]"
      and graph: "assert_task_graph (ts_tasks st) t = Inr ()"
      and i: "tk_id t = ''task-'' @ show_int (ts_next_task st)" "map_get (ts_tasks st) (tk_id t) = None"
      and t: "tk_revision t = 1" "tk_status t = TaskPending" "tk_owner t = None"
      and subject: "required_text (ct_subject rq) (int 200) = Inr (tk_subject t)"
      and description: "required_text (ct_description rq) (int 16384) = Inr (tk_description t)"
      and scopes: "\<exists>ss. resource_scopes ss = Inr (tk_scopes t)"
    by (auto simp: plan_create_def Let_def result_simps assert_graph_Inr split: option.splits)
  from static i(1) have "id_safe (tk_id t)"
    using digits_after_task [of "nat (ts_next_task st)"] by (simp add: board_static_def id_safe_def show_int_def is_safe_def)
  moreover have "mapR resource_scope (tk_scopes t) = Inr (tk_scopes t) \<and> distinct (tk_scopes t) \<longleftrightarrow>
      (\<forall>s \<in> set (tk_scopes t). trim s = s)"
    using scopes resource_scopes_Inr by blast
  ultimately show ?thesis
    using open_phase [OF fold_team_run_invariants(1) [OF replayed] phase] graph i t
      required_text_normal [OF subject] required_text_normal [OF description]
    by (auto simp: apply_task_ok task_static_def next_revision_def owner_current_def)
qed

subsection \<open>Who may do what\<close>

definition may_act :: "actor_ref \<Rightarrow> team_task \<Rightarrow> task_action \<Rightarrow> bool" where
  "may_act actor current act \<longleftrightarrow>
     (if act \<in> {ActAssign, ActReassign} then is_lead actor
      else is_lead actor \<or> owner_authority actor current \<or> (act = ActClaim \<and> tk_owner current = None))"

definition completion_allowed :: "team_state \<Rightarrow> actor_ref \<Rightarrow> team_task \<Rightarrow> bool" where
  "completion_allowed st actor current \<longleftrightarrow> tk_status current = TaskInProgress \<and> task_ready st current \<and>
     (ts_protocol st \<noteq> None \<longrightarrow> is_lead actor \<and>
        (\<exists>a owner. accepted_owner_artifact st current = Some a \<and> tk_owner current = Some owner \<and> \<not> is_lead owner))"

text \<open>
  What a planned change guarantees about the task. The status changes only along the edges
  pending to in progress (with all blockers completed), in progress to completed, back to
  pending without an owner, and deleted when no live task depends on it.
\<close>

definition change_allowed :: "team_state \<Rightarrow> actor_ref \<Rightarrow> team_task \<Rightarrow> team_task \<Rightarrow> bool" where
  "change_allowed st actor current t \<longleftrightarrow>
     (case tk_status t of
        TaskPending \<Rightarrow> tk_status current = TaskPending \<or> tk_owner t = None
      | TaskInProgress \<Rightarrow> tk_owner t \<noteq> None \<and> (tk_status current = TaskInProgress \<or> task_ready st current)
      | TaskCompleted \<Rightarrow> tk_status current = TaskCompleted \<or> completion_allowed st actor current
      | TaskDeleted \<Rightarrow> \<forall>u \<in> set (task_values st). is_live u \<and> tk_id u \<noteq> tk_id current \<longrightarrow> tk_id current \<notin> set (tk_blocked_by u))"

lemma plan_next_allowed:
  assumes "plan_next st actor current rq = Inr t" and "tk_status current \<noteq> TaskDeleted"
    and owned: "tk_status current = TaskInProgress \<longrightarrow> tk_owner current \<noteq> None"
  shows "may_act actor current (ut_action rq) \<and> change_allowed st actor current t"
proof (cases "ut_action rq = ActEdit")
  case True
  with assms have edit: "edit_task current rq = Inr t" and auth: "is_lead actor \<or> owner_authority actor current"
    by (auto simp: plan_next_def require_owner_def result_simps)
  from edit have "tk_status t = tk_status current" "tk_owner t = tk_owner current" by (auto simp: edit_task_def result_simps)
  with True auth assms(2) owned show ?thesis
    by (cases "tk_status current") (simp_all add: may_act_def change_allowed_def)
next
  case False
  with assms show ?thesis
    by (cases "ut_action rq")
      (auto simp: plan_next_def plan_assign_def plan_claim_def plan_complete_def plan_reassign_def plan_delete_def
        require_owner_def may_act_def change_allowed_def completion_allowed_def list_ex_iff result_simps
        split: option.splits if_splits task_status.splits)
qed

subsection \<open>Properties\<close>

text \<open>
  C24. The task commands and the replay agree: on any replayed run, a task that \<open>create\<close> or
  \<open>planUpdate\<close> has accepted is accepted by the replay that validates the write, exactly when
  its owner, if it has one, is still a current actor of the run and none of its scopes has white
  space at an end. All other checks of the replay are implied by those of the command.
\<close>

theorem task_commands_admitted:
  assumes "fold_team_run i es = Inr st"
  shows "(plan_update st actor rq = Inr t \<longrightarrow>
      (is_ok (apply_task st t) \<longleftrightarrow> owner_current st t \<and> (\<forall>s \<in> set (tk_scopes t). trim s = s))) \<and>
    (plan_create st crq = Inr u \<longrightarrow> (is_ok (apply_task st u) \<longleftrightarrow> (\<forall>s \<in> set (tk_scopes u). trim s = s)))"
  using update_admitted [OF assms] create_admitted [OF assms] by blast

definition sample_claim :: update_task_request where
  "sample_claim = \<lparr>ut_task = ''task-1'', ut_expected = 1, ut_action = ActClaim, ut_subject = None, ut_description = None,
     ut_blocked_by = None, ut_scopes = None, ut_owner = None\<rparr>"

definition sample_create :: create_task_request where
  "sample_create = \<lparr>ct_subject = ''s'', ct_description = ''d'', ct_blocked_by = Some [''task-1''],
     ct_scopes = Some [''docs /'']\<rparr>"

lemma task_commands_admitted_witness:
  "(case plan_update sample_run (ExpertActor ''m1'' ''s1'' ''ada'') sample_claim of
      Inr t \<Rightarrow> is_ok (apply_task sample_run t) | Inl _ \<Rightarrow> False) \<and>
   (case plan_create sample_run sample_create of
      Inr t \<Rightarrow> tk_scopes t = [''docs ''] \<and> \<not> is_ok (apply_task sample_run t) | Inl _ \<Rightarrow> False)"
proof -
  have "case plan_update sample_run (ExpertActor ''m1'' ''s1'' ''ada'') sample_claim of
      Inr t \<Rightarrow> owner_current sample_run t \<and> tk_scopes t = [] | Inl _ \<Rightarrow> False" by code_simp
  moreover have "case plan_create sample_run sample_create of
      Inr t \<Rightarrow> tk_scopes t = [''docs ''] \<and> trim ''docs '' \<noteq> ''docs '' | Inl _ \<Rightarrow> False" by code_simp
  ultimately show ?thesis
    using task_commands_admitted [OF sample_run_fold] by (auto split: sum.splits)
qed

text \<open>
  C25. Authority over tasks: a planned change is the next revision of the task the request
  names, at the revision the request expects; it comes from the Lead or the owner (only a claim
  from anyone, and only on an unowned task; assignments only from the Lead); work starts only
  on completed blockers; under a protocol only the Lead completes a task, with an expert owner's
  accepted evidence; and no task is deleted under a live dependent.
\<close>

theorem task_update_authorized:
  assumes "fold_team_run i es = Inr st" and "plan_update st actor rq = Inr t"
  shows "\<exists>current. map_get (ts_tasks st) (ut_task rq) = Some current \<and> tk_revision current = ut_expected rq \<and>
    tk_id t = ut_task rq \<and> tk_revision t = ut_expected rq + 1 \<and>
    may_act actor current (ut_action rq) \<and> change_allowed st actor current t"
proof -
  from assms(2) obtain current planned where current: "map_get (ts_tasks st) (ut_task rq) = Some current"
      and r: "tk_revision current = ut_expected rq" and live: "tk_status current \<noteq> TaskDeleted"
      and planned: "plan_next st actor current rq = Inr planned" and t: "t = planned\<lparr>tk_revision := tk_revision current + 1\<rparr>"
    by (rule plan_update_Inr)
  from map_of_SomeD [OF current] fold_board_static [OF assms(1)] fold_team_run_invariants(2) [OF assms(1)]
  have static: "task_static current" and id: "tk_id current = ut_task rq" by (auto simp: board_static_def board_ok_def)
  from static have "tk_status current = TaskInProgress \<longrightarrow> tk_owner current \<noteq> None" by (simp add: task_static_def)
  from plan_next_allowed [OF planned live this] plan_next_derived [OF planned] current r id show ?thesis
    by (auto simp: t derived_from_def change_allowed_def split: task_status.splits)
qed

lemma task_update_authorized_witness:
  "case plan_update sample_run (ExpertActor ''m1'' ''s1'' ''ada'') sample_claim of
     Inr t \<Rightarrow> (\<exists>current. map_get (ts_tasks sample_run) ''task-1'' = Some current \<and> tk_revision t = 2 \<and>
       change_allowed sample_run (ExpertActor ''m1'' ''s1'' ''ada'') current t) | Inl _ \<Rightarrow> False"
proof -
  have "is_ok (plan_update sample_run (ExpertActor ''m1'' ''s1'' ''ada'') sample_claim)" by code_simp
  then obtain t where t: "plan_update sample_run (ExpertActor ''m1'' ''s1'' ''ada'') sample_claim = Inr t"
    by (auto simp: is_ok_iff)
  from task_update_authorized [OF sample_run_fold t] t show ?thesis by (auto simp: sample_claim_def)
qed

text \<open>
  A task keeps its owner when the expert fails. The Lead's \<open>delete\<close> of such a task passes
  \<open>planUpdate\<close>, and the replay then refuses the write.
\<close>

definition sample_owned :: team_task where
  "sample_owned = (sample_task ''task-1'' [])\<lparr>tk_revision := 2, tk_owner := Some (ExpertActor ''m1'' ''s1'' ''ada'')\<rparr>"

definition sample_failed :: team_member where
  "sample_failed = (sample_member MemberFailed)\<lparr>mb_failure := Some \<lparr>fl_code = ''TEAM_NOT_FOUND'', fl_message = ''gone'',
     fl_retryable = False, fl_details = []\<rparr>\<rparr>"

definition sample_orphaned :: team_state where
  "sample_orphaned = (case fold_team_run ''L'' (team_log (sample_bodies @ [BTask sample_owned, BMember sample_failed])) of
     Inr st \<Rightarrow> st | Inl _ \<Rightarrow> empty_team_state ''L'')"

lemma failed_owner_refused:
  "is_ok (fold_team_run ''L'' (team_log (sample_bodies @ [BTask sample_owned, BMember sample_failed]))) \<and>
   (case plan_update sample_orphaned (LeadActor ''L'') (sample_claim\<lparr>ut_expected := 2, ut_action := ActDelete\<rparr>) of
      Inr t \<Rightarrow> \<not> is_ok (apply_task sample_orphaned t) | Inl _ \<Rightarrow> False)"
  by code_simp

end
