(* ===== verification/TeamProjection.thy ===== *)
theory TeamProjection
  imports TeamBoard
begin

text \<open>
  The public projections of a TeamRun (second half of
  \<open>packages/collaboration/agent-team/src/fold.ts\<close>): task views, the controller's health, the
  protocol usage and the complete snapshot. Replayed runs always have one.
\<close>

subsection \<open>Views\<close>

record task_view = team_task +
  tv_ready :: bool
  tv_conflicts :: "string list"

datatype controller_health = Healthy | Attention | Stalled | HealthReworking | ReadyHealth

datatype recommended_action =
    RecReassign | RecReplan | RecReplaceExpert | RecResolveQuality | RecRework

record controller_snapshot =
  cs_health :: controller_health
  cs_last_progress :: int
  cs_stalled :: "string list"
  cs_duplicates :: int
  cs_quality_failures :: int
  cs_recommended :: "recommended_action list"
  cs_actions_taken :: "string list"

record member_view =
  pv_slot :: string
  pv_member :: "string option"
  pv_name :: string
  pv_phase :: "member_phase option"
  pv_permissions :: permissions
  pv_targets :: "string list"
  pv_used :: int
  pv_remaining :: int

record challenge_row =
  ch_id :: string
  ch_thread :: string
  ch_round :: int
  ch_challenger :: string
  ch_target :: string
  ch_responded :: bool
  ch_message :: string
  ch_response :: "string option"

datatype protocol_view =
    LegacyProtocol
  | EnforcedProtocol topology int int "member_view list" "challenge_row list"

record counts_view =
  ec_planned :: int
  ec_provisioning :: int
  ec_active :: int
  ec_failed :: int
  ec_attempts :: int
  ec_available :: int

record team_snapshot =
  sn_id :: string
  sn_revision :: int
  sn_cursor :: int
  sn_lead :: actor_ref
  sn_created :: team_created
  sn_phase :: run_phase
  sn_status :: run_status
  sn_members :: "team_member list"
  sn_tasks :: "task_view list"
  sn_messages :: "public_message list"
  sn_protocol :: protocol_view
  sn_artifacts :: "team_artifact list"
  sn_decisions :: "team_decision list"
  sn_gates :: "quality_gate list"
  sn_controller :: controller_snapshot
  sn_counts :: counts_view
  sn_failure :: "team_failure option"

subsection \<open>Tasks\<close>

definition project_task :: "team_state \<Rightarrow> team_task \<Rightarrow> task_view" where
  "project_task st t =
     team_task.extend t
       (task_view.fields (tk_status t = TaskPending \<and> task_ready st t)
          (js_set (map tk_id (filter (\<lambda>u. tk_id u \<noteq> tk_id t \<and> tk_status u = TaskInProgress \<and>
              list_ex (\<lambda>l. list_ex (\<lambda>r. scopes_overlap l r) (tk_scopes u)) (tk_scopes t)) (task_values st)))))"

subsection \<open>Controller\<close>

definition current_tasks :: "team_state \<Rightarrow> team_task list" where
  "current_tasks st = filter is_live (task_values st)"

definition task_stalled :: "team_state \<Rightarrow> team_created \<Rightarrow> team_task \<Rightarrow> bool" where
  "task_stalled st created t \<longleftrightarrow>
     (tk_status t = TaskInProgress \<or> (tk_status t = TaskPending \<and> task_ready st t)) \<and>
     po_stall_threshold (cr_policy created) \<le>
       ts_cursor st - (case map_get (ts_activity_cursors st) (tk_id t) of None \<Rightarrow> ts_cursor st | Some c \<Rightarrow> c)"

fun duplicate_count :: "string list \<Rightarrow> nat" where
  "duplicate_count [] = 0"
| "duplicate_count (s # ss) = length (filter (\<lambda>u. u = s) ss) + duplicate_count ss"

definition gates :: "team_state \<Rightarrow> quality_gate list" where
  "gates st = map_values (ts_gates st)"

definition decisions :: "team_state \<Rightarrow> team_decision list" where
  "decisions st = map_values (ts_decisions st)"

definition accepted_for :: "team_artifact \<Rightarrow> team_task \<Rightarrow> bool" where
  "accepted_for a t \<longleftrightarrow> ar_status a = ArtifactAccepted \<and> List.member (ar_tasks a) (tk_id t)"

definition has_accepted_artifact :: "team_state \<Rightarrow> team_task \<Rightarrow> bool" where
  "has_accepted_artifact st t \<longleftrightarrow> list_ex (\<lambda>a. accepted_for a t) (artifact_values st)"

definition decision_covers :: "team_state \<Rightarrow> team_task \<Rightarrow> bool" where
  "decision_covers st t \<longleftrightarrow>
     list_ex (\<lambda>d. dc_outcome d = OutAccepted \<and> List.member (dc_tasks d) (tk_id t) \<and>
         list_ex (\<lambda>i. case map_get (ts_artifacts st) i of None \<Rightarrow> False | Some a \<Rightarrow> accepted_for a t) (dc_artifacts d))
       (decisions st)"

definition has_kind :: "team_state \<Rightarrow> message_kind \<Rightarrow> bool" where
  "has_kind st k \<longleftrightarrow> list_ex (\<lambda>m. sm_kind m = k) (messages st)"

definition collaboration_evidence :: "team_state \<Rightarrow> bool" where
  "collaboration_evidence st \<longleftrightarrow>
     (if ts_protocol st = None
      then list_all (\<lambda>t. tk_status t = TaskCompleted) (current_tasks st) \<and> has_kind st KCompletionRequest \<and> has_kind st KReview
      else tasks_missing_evidence st = [] \<and> experts_missing_contribution st = [] \<and> has_verified_review st)"

definition delivery_ready :: "team_state \<Rightarrow> bool" where
  "delivery_ready st \<longleftrightarrow>
     current_tasks st \<noteq> [] \<and> collaboration_evidence st \<and> list_all (has_accepted_artifact st) (current_tasks st) \<and>
     gates st \<noteq> [] \<and> list_all (\<lambda>g. qg_status g = GatePassed) (gates st) \<and>
     list_all (decision_covers st) (current_tasks st)"

definition controller :: "team_state \<Rightarrow> (js_error, controller_snapshot) result" where
  "controller st =
     bindR (require_created st) (\<lambda>created.
     let current = current_tasks st;
         stalled = map tk_id (filter (task_stalled st created) current);
         duplicates = int (duplicate_count (map (\<lambda>t. to_lower (trim (tk_subject t))) current));
         failed = int (length (filter (\<lambda>g. qg_status g = GateFailed) (gates st)));
         missing = (ts_phase st = Some ActivePhase \<and> count_phase st MemberActive < cr_planned created);
         unfilled = (missing \<and> count_phase st MemberActive + count_phase st MemberProvisioning < cr_planned created);
         recommended = (if stalled \<noteq> [] then [RecReassign] else []) @ (if 0 < duplicates then [RecReplan] else []) @
           (if unfilled then [RecReplaceExpert] else []) @ (if 0 < failed then [RecResolveQuality, RecRework] else []);
         taken = map dc_id (filter (\<lambda>d. List.member [OutReassign, OutRework, OutReplan] (dc_outcome d)) (decisions st));
         last_action = map_option dc_outcome (array_last (decisions st));
         health = (if delivery_ready st then ReadyHealth else if missing then Attention
           else if last_action = Some OutRework then HealthReworking else if stalled \<noteq> [] then Stalled
           else if 0 < failed \<or> 0 < duplicates then Attention else Healthy)
     in Inr \<lparr>cs_health = health, cs_last_progress = ts_last_progress st, cs_stalled = stalled, cs_duplicates = duplicates,
          cs_quality_failures = failed, cs_recommended = recommended, cs_actions_taken = taken\<rparr>)"

fun public_status :: "run_phase \<Rightarrow> bool \<Rightarrow> controller_snapshot \<Rightarrow> run_status" where
  "public_status Profiling _ _ = Forming"
| "public_status Planning _ _ = Forming"
| "public_status Provisioning _ _ = Forming"
| "public_status ActivePhase ready c =
     (if \<not> ready then BlockedStatus else if cs_health c = HealthReworking then Reworking
      else if cs_stalled c \<noteq> [] \<or> 0 < cs_quality_failures c then BlockedStatus
      else if cs_health c = ReadyHealth then Reviewing else Running)"
| "public_status Completing _ _ = Reviewing"
| "public_status CompletedPhase _ _ = CompletedStatus"
| "public_status FormationFailed _ _ = TeamFormationFailed"
| "public_status FailedPhase _ _ = FailedStatus"
| "public_status CancelledPhase _ _ = CancelledStatus"

subsection \<open>Protocol\<close>

definition protocol_member :: "team_state \<Rightarrow> team_protocol \<Rightarrow> expert_rule \<Rightarrow> member_view" where
  "protocol_member st pt rule =
     (let m = member_for_slot st (ru_slot rule);
          used = (case m of None \<Rightarrow> 0 | Some mb \<Rightarrow> int (length (authored_by st (mb_id mb))));
          targets = ''lead'' # List.map_filter (\<lambda>slot. case member_for_slot st slot of
              Some t \<Rightarrow> if mb_phase t = MemberActive then Some (mb_name t) else None
            | None \<Rightarrow> None) (ru_targets rule)
      in \<lparr>pv_slot = ru_slot rule, pv_member = map_option mb_id m,
          pv_name = (case m of None \<Rightarrow> ru_name rule | Some mb \<Rightarrow> mb_name mb), pv_phase = map_option mb_phase m,
          pv_permissions = ru_permissions rule, pv_targets = targets, pv_used = used,
          pv_remaining = max 0 (pt_max_messages pt - used)\<rparr>)"

definition challenge_view :: "team_state \<Rightarrow> public_message \<Rightarrow> (js_error, challenge_row) result" where
  "challenge_view st q =
     (case rf_challenge (sm_refs q) of
        None \<Rightarrow> fold_error ''persisted challenge has no challenge id''
      | Some i \<Rightarrow>
          (case sm_targets q of
             [] \<Rightarrow> fold_error ''persisted challenge has no target''
           | target # _ \<Rightarrow>
               (let response = find (\<lambda>m. sm_kind m = KResponse \<and> rf_challenge (sm_refs m) = Some i) (messages st);
                    round = length (filter (\<lambda>m. sm_kind m = KChallenge \<and> sm_thread m = sm_thread q \<and>
                        pm_sequence m \<le> pm_sequence q) (messages st))
                in Inr \<lparr>ch_id = i, ch_thread = sm_thread q, ch_round = int round, ch_challenger = actor_name (sm_author q),
                     ch_target = actor_name target, ch_responded = (response \<noteq> None), ch_message = sm_id q,
                     ch_response = map_option sm_id response\<rparr>)))"

definition protocol_snapshot :: "team_state \<Rightarrow> (js_error, protocol_view) result" where
  "protocol_snapshot st =
     (case ts_protocol st of
        None \<Rightarrow> Inr LegacyProtocol
      | Some pt \<Rightarrow>
          bindR (mapR (challenge_view st) (filter (\<lambda>m. sm_kind m = KChallenge) (messages st))) (\<lambda>challenges.
          Inr (EnforcedProtocol (pt_topology pt) (pt_max_rounds pt) (pt_max_messages pt)
            (map (protocol_member st pt) (pt_experts pt)) challenges)))"

subsection \<open>The snapshot\<close>

definition expert_counts :: "team_state \<Rightarrow> team_created \<Rightarrow> counts_view" where
  "expert_counts st created = \<lparr>ec_planned = cr_planned created, ec_provisioning = count_phase st MemberProvisioning,
     ec_active = count_phase st MemberActive, ec_failed = count_phase st MemberFailed,
     ec_attempts = int (length (ts_members st)),
     ec_available = cr_planned created - count_phase st MemberActive - count_phase st MemberProvisioning\<rparr>"

definition snapshot :: "team_state \<Rightarrow> (js_error, team_snapshot) result" where
  "snapshot st =
     bindR (require_created st) (\<lambda>created.
     case ts_phase st of
       None \<Rightarrow> fold_error ''TeamRun has no lifecycle''
     | Some phase \<Rightarrow>
         bindR (controller st) (\<lambda>c.
         bindR (protocol_snapshot st) (\<lambda>p.
         Inr \<lparr>sn_id = ts_id st, sn_revision = ts_revision st, sn_cursor = ts_cursor st, sn_lead = LeadActor (cr_lead created),
            sn_created = created, sn_phase = phase, sn_status = public_status phase (exact_team_ready st created) c,
            sn_members = members st, sn_tasks = map (project_task st) (current_tasks st), sn_messages = messages st,
            sn_protocol = p, sn_artifacts = map (\<lambda>a. a\<lparr>ar_body := []\<rparr>) (artifact_values st),
            sn_decisions = decisions st, sn_gates = gates st, sn_controller = c, sn_counts = expert_counts st created,
            sn_failure = ts_failure st\<rparr>)))"

subsection \<open>Challenges of a replayed run are well formed\<close>

definition challenge_ok :: "public_message \<Rightarrow> bool" where
  "challenge_ok m \<longleftrightarrow> rf_challenge (sm_refs m) \<noteq> None \<and> length (sm_targets m) = 1"

definition challenges_ok :: "team_state \<Rightarrow> bool" where
  "challenges_ok st \<longleftrightarrow> talk_ok st \<and>
     (\<forall>pt. ts_protocol st = Some pt \<longrightarrow> (\<forall>m \<in> set (messages st). sm_kind m = KChallenge \<longrightarrow> challenge_ok m))"

lemma challenges_ok_cong:
  "challenges_ok st \<Longrightarrow> talk_ok st' \<Longrightarrow> ts_messages st' = ts_messages st \<Longrightarrow> ts_protocol st' = ts_protocol st \<Longrightarrow> challenges_ok st'"
  by (simp add: challenges_ok_def)

lemma challenges_ok_message:
  assumes ok: "challenges_ok st" and step: "apply_message st e i m = Inr st'" and talk: "talk_ok st'"
  shows "challenges_ok st'"
proof -
  have st': "ts_protocol st' = ts_protocol st"
      "set (messages st') \<subseteq> insert (stored_message.extend m (public_message.fields i (te_seq e) (ts_id st) (te_time e))) (set (messages st))"
    using apply_message_Inr [OF step] set_map_set_subset [of "sm_id m"] by fastforce+
  have "challenge_ok (stored_message.extend m x)" if "ts_protocol st = Some pt" "sm_kind m = KChallenge" for pt x
    using apply_message_Inr [OF step] that
    by (auto simp: assert_protocol_message_def challenge_ok_def stored_message.defs result_simps split: option.splits list.splits)
  moreover have "sm_kind (stored_message.extend m x) = sm_kind m" for x by (simp add: stored_message.defs)
  ultimately show ?thesis using ok talk st' unfolding challenges_ok_def by (metis (no_types, lifting) insertE subsetD)
qed

text \<open>A protocol enters before the first challenge.\<close>

lemma challenges_ok_protocol:
  assumes ok: "challenges_ok st" and step: "apply_protocol st pt = Inr st'" and talk: "talk_ok st'"
  shows "challenges_ok st'"
proof -
  note b = apply_protocol_Inr [OF step]
  then have "early_phase st" by (auto simp: early_phase_def split: option.splits)
  with ok have "\<forall>m \<in> set (messages st). sm_kind m = KStatus" by (simp add: challenges_ok_def talk_ok_def)
  with b talk show ?thesis by (auto simp: challenges_ok_def)
qed

lemma challenges_ok_body:
  assumes ok: "challenges_ok st" and body: "apply_body st e p = Inr st'"
  shows "challenges_ok st'"
proof -
  have talk: "talk_ok st'" using ok body by (auto simp: challenges_ok_def intro: talk_ok_body)
  from body show ?thesis
  proof (cases rule: apply_body_cases)
    case (message m)
    show ?thesis by (rule challenges_ok_message [OF ok message talk])
  next
    case (protocol pt)
    show ?thesis by (rule challenges_ok_protocol [OF ok protocol talk])
  qed (rule challenges_ok_cong [OF ok talk];
      (auto dest!: apply_created_Inr apply_phase_Inr begin_member_Inr settle_member_Inr apply_task_Inr
        apply_artifact_Inr apply_decision_Inr apply_gate_Inr)[1])+
qed

lemma challenges_ok_same:
  assumes "challenges_ok st" and "ts_messages st' = ts_messages st" and "ts_members st' = ts_members st"
    and "ts_created st' = ts_created st" and "ts_phase st' = ts_phase st" and "ts_protocol st' = ts_protocol st"
    and "ts_artifacts st' = ts_artifacts st"
  shows "challenges_ok st'"
  using assms talk_ok_cong [of st st'] by (simp add: challenges_ok_def)

lemma challenges_ok_event: "challenges_ok st \<Longrightarrow> apply_team_event st e = Inr st' \<Longrightarrow> challenges_ok st'"
  by (erule (1) team_event_keeps [of challenges_ok])
    (auto intro: challenges_ok_body challenges_ok_same)

interpretation challenge_log: replay apply_team_event "empty_team_state i" "\<lambda>_. challenges_ok" for i
  by unfold_locales (simp add: challenges_ok_def talk_ok_def empty_team_state_def early_phase_def, rule challenges_ok_event)

lemma mapR_is_ok: "is_ok (mapR f xs) \<longleftrightarrow> (\<forall>x \<in> set xs. is_ok (f x))"
  by (induction xs) (auto simp: is_ok_iff result_simps)

lemma challenge_view_ok: "challenge_ok m \<Longrightarrow> is_ok (challenge_view st m)"
  by (cases "sm_targets m") (auto simp: challenge_ok_def challenge_view_def Let_def)

lemma snapshot_is_ok:
  assumes "is_ok (require_created st)" and "challenges_ok st"
  shows "is_ok (snapshot st)"
proof -
  from assms(1) obtain created where created: "require_created st = Inr created" by (auto simp: is_ok_iff)
  then have phase: "ts_phase st \<noteq> None" by (simp add: require_created_Inr)
  have "is_ok (protocol_snapshot st)"
    using assms(2) challenge_view_ok [of _ st]
    by (auto simp: protocol_snapshot_def challenges_ok_def is_ok_bindR mapR_is_ok is_ok_iff [of "mapR f xs" for f xs, symmetric] split: option.splits)
  then show ?thesis
    using created phase by (auto simp: snapshot_def controller_def Let_def result_simps is_ok_iff)
qed

fun_cases completed_status: "public_status phase ready c = CompletedStatus"

lemma snapshot_Inr:
  assumes "snapshot st = Inr sn"
  obtains created phase c p where "require_created st = Inr created" and "ts_phase st = Some phase" and "controller st = Inr c"
    and "protocol_snapshot st = Inr p" and "sn_counts sn = expert_counts st created"
    and "sn_status sn = public_status phase (exact_team_ready st created) c" and "sn_protocol sn = p"
  using assms by (auto simp: snapshot_def result_simps split: option.splits)

lemma member_count:
  "count_phase st MemberActive + count_phase st MemberProvisioning + count_phase st MemberFailed = int (length (ts_members st))"
proof -
  have "length (filter (\<lambda>m. mb_phase m = MemberActive) ms) + length (filter (\<lambda>m. mb_phase m = MemberProvisioning) ms) +
      length (filter (\<lambda>m. mb_phase m = MemberFailed) ms) = length ms" for ms
    by (induction ms) (auto, metis member_phase.exhaust)
  from this [of "members st"] show ?thesis by (simp add: count_phase_def)
qed

text \<open>An expert in a slot of the protocol is within its budget.\<close>

lemma slot_budget:
  assumes "roster_ok st" and "talk_ok st" and pt: "ts_protocol st = Some pt"
  shows "pv_used (protocol_member st pt rule) + pv_remaining (protocol_member st pt rule) = pt_max_messages pt"
proof (cases "member_for_slot st (ru_slot rule)")
  case None
  moreover have "1 \<le> pt_max_messages pt" using assms by (simp add: talk_ok_def)
  ultimately show ?thesis by (simp add: protocol_member_def Let_def)
next
  case (Some mb)
  then have "mb \<in> set (slot_attempts st (ru_slot rule))"
    by (auto simp: member_for_slot_def array_last_def split: if_splits)
  then have slot: "mb_slot mb \<noteq> None" and mb: "mb \<in> set (members st)" by (auto simp: slot_attempts_def)
  from mb obtain k where k: "(k, mb) \<in> set (ts_members st)" by auto
  with assms(1) have "mb_id mb = k" "map_get (ts_members st) k = Some mb"
    by (auto simp: roster_ok_def member_indexed_def intro: map_values_get)
  with assms(2) pt slot have "int (length (authored_by st (mb_id mb))) \<le> pt_max_messages pt"
    by (auto simp: talk_ok_def budgets_ok_def)
  with Some show ?thesis by (simp add: protocol_member_def Let_def)
qed

subsection \<open>Properties\<close>

text \<open>
  C26. Every created run that replays has a snapshot, whatever has happened in it: the projection
  of challenges and protocol usage never fails. Its counts add up (active, provisioning and
  failed experts are the attempts; used capacity and available slots are the plan), no expert
  has more public messages than its budget, and a run shown as completed has all its experts
  active.
\<close>

theorem team_snapshot_total:
  assumes replayed: "fold_team_run i es = Inr st" and created: "ts_created st = Some c"
  shows "\<exists>sn. snapshot st = Inr sn \<and>
    ec_active (sn_counts sn) + ec_provisioning (sn_counts sn) + ec_failed (sn_counts sn) = ec_attempts (sn_counts sn) \<and>
    ec_active (sn_counts sn) + ec_provisioning (sn_counts sn) + ec_available (sn_counts sn) = ec_planned (sn_counts sn) \<and>
    0 \<le> ec_available (sn_counts sn) \<and>
    (sn_status sn = CompletedStatus \<longrightarrow> ec_active (sn_counts sn) = cr_planned c \<and> ec_available (sn_counts sn) = 0) \<and>
    (\<forall>t r n m ms qs. sn_protocol sn = EnforcedProtocol t r n ms qs \<and> m \<in> set ms \<longrightarrow> pv_used m + pv_remaining m = n)"
proof -
  have roster: "roster_ok st" and talk: "talk_ok st" by (rule fold_team_run_invariants [OF replayed])+
  have "challenges_ok st" using replayed unfolding fold_team_run_def by (rule challenge_log.hist_fold)
  moreover have req: "require_created st = Inr c" using roster created by (simp add: roster_ok_def require_created_Inr)
  ultimately obtain sn where sn: "snapshot st = Inr sn" using snapshot_is_ok [of st] by (auto simp: is_ok_iff)
  then obtain phase k p where parts: "ts_phase st = Some phase" "protocol_snapshot st = Inr p"
      "sn_counts sn = expert_counts st c" "sn_status sn = public_status phase (exact_team_ready st c) k" "sn_protocol sn = p"
    using req by (auto elim!: snapshot_Inr)
  have "sn_status sn = CompletedStatus \<Longrightarrow> phase = CompletedPhase"
    unfolding parts(4) by (erule completed_status) (auto split: if_splits)
  then have "sn_status sn = CompletedStatus \<Longrightarrow> exact_team_ready st c"
    using roster created parts(1) by (simp add: roster_ok_def)
  moreover have "pv_used m + pv_remaining m = n"
    if "sn_protocol sn = EnforcedProtocol t r n ms qs" "m \<in> set ms" for t r n m ms qs
    using that parts(2,5) slot_budget [OF roster talk]
    by (auto simp: protocol_snapshot_def result_simps split: option.splits)
  moreover have "0 \<le> ec_available (expert_counts st c)"
    using roster created by (simp add: roster_ok_def expert_counts_def)
  ultimately show ?thesis
    using sn member_count [of st] by (auto simp: parts(3) expert_counts_def exact_team_ready_def)
qed

lemma team_snapshot_total_witness:
  "\<exists>sn. snapshot sample_run = Inr sn \<and> 0 \<le> ec_available (sn_counts sn)"
proof -
  have "ts_created sample_run = Some sample_created_run" by code_simp
  from team_snapshot_total [OF sample_run_fold this] show ?thesis by blast
qed

end
