(* ===== verification/TeamCommands.thy ===== *)
theory TeamCommands
  imports TeamProjection
begin

text \<open>
  The commands of the TeamRun service (\<open>packages/collaboration/agent-team/src/index.ts\<close>) up to
  the write: the guards each command evaluates on the replayed state, inside the transaction of
  the Lead, and the event bodies it then hands to the journal. Fresh identities come from the
  environment of the command.
\<close>

subsection \<open>Errors and environment\<close>

text \<open>
  A \<open>TeamRunError\<close> with its code, an error of a projection or of the replay, and a rejected
  flush.
\<close>

datatype service_error = Refused string | Failed js_error | FlushFailed

definition refuse :: "bool \<Rightarrow> string \<Rightarrow> (service_error, 'a) result \<Rightarrow> (service_error, 'a) result" where
  "refuse bad code k = throw_if bad (Refused code) k"

definition team :: "(team_error, 'a) result \<Rightarrow> (service_error, 'a) result" where
  "team r = mapError (\<lambda>e. case e of TeamError code \<Rightarrow> Refused code) r"

definition snap :: "team_state \<Rightarrow> (service_error, team_snapshot) result" where
  "snap st = mapError Failed (snapshot st)"

text \<open>The identities one command draws from \<open>randomUUID\<close>: for its events and its records.\<close>

record fresh_ids =
  fr_event :: "nat \<Rightarrow> string"
  fr_message :: "nat \<Rightarrow> string"
  fr_artifact :: string
  fr_decision :: string

definition no_refs :: message_refs where
  "no_refs = \<lparr>rf_task = None, rf_challenge = None, rf_decision = None, rf_artifact = None\<rparr>"

definition main_thread :: string where
  "main_thread = ''main''"

definition quoted :: "string \<Rightarrow> string" where
  "quoted s = char_of (34 :: nat) # s @ [char_of (34 :: nat)]"

definition assert_run_revision :: "team_state \<Rightarrow> int \<Rightarrow> (service_error, 'a) result \<Rightarrow> (service_error, 'a) result" where
  "assert_run_revision st expected k =
     refuse (\<not> is_safe expected \<or> expected \<noteq> ts_revision st) ''STALE_REVISION'' k"

definition assert_ledger_version :: "int \<Rightarrow> int \<Rightarrow> (service_error, 'a) result \<Rightarrow> (service_error, 'a) result" where
  "assert_ledger_version expected actual k =
     refuse (\<not> is_safe expected \<or> expected < 0 \<or> expected \<noteq> actual) ''STALE_REVISION'' k"

subsection \<open>Configuration and creation\<close>

record team_config =
  cf_max_active :: "int option"
  cf_max_attempts :: "int option"
  cf_max_tasks :: "int option"
  cf_max_messages :: "int option"
  cf_max_message_bytes :: "int option"
  cf_max_artifacts :: "int option"
  cf_max_artifact_bytes :: "int option"
  cf_stall_threshold :: "int option"

definition or_default :: "'a option \<Rightarrow> 'a \<Rightarrow> 'a" where
  "or_default x d = (case x of None \<Rightarrow> d | Some y \<Rightarrow> y)"

definition service_policy :: "team_config \<Rightarrow> (team_error, run_policy) result" where
  "service_policy c = validate_policy
     \<lparr>po_max_active = or_default (cf_max_active c) product_max_active, po_max_attempts = or_default (cf_max_attempts c) 12,
      po_max_tasks = or_default (cf_max_tasks c) 256, po_max_messages = or_default (cf_max_messages c) 4096,
      po_max_message_bytes = or_default (cf_max_message_bytes c) 65536, po_max_artifacts = or_default (cf_max_artifacts c) 512,
      po_max_artifact_bytes = or_default (cf_max_artifact_bytes c) 1048576,
      po_stall_threshold = or_default (cf_stall_threshold c) 20\<rparr>"

record create_run_request =
  rr_objective :: string
  rr_complexity :: complexity
  rr_planned :: int

definition plan_create_run ::
    "run_policy \<Rightarrow> string \<Rightarrow> team_state \<Rightarrow> create_run_request \<Rightarrow> (service_error, team_body list) result" where
  "plan_create_run policy lead st rq =
     refuse (ts_created st \<noteq> None) ''TEAM_INVALID_TRANSITION''
     (bindR (team (validate_planned (rr_complexity rq) (rr_planned rq) (po_max_active policy))) (\<lambda>planned.
      bindR (team (required_text (rr_objective rq) 16384)) (\<lambda>objective.
      Inr [BCreated \<lparr>cr_lead = lead, cr_objective = objective, cr_complexity = rr_complexity rq, cr_planned = planned,
                     cr_policy = policy\<rparr>])))"

subsection \<open>Phases\<close>

definition plan_change_phase :: "team_state \<Rightarrow> int \<Rightarrow> run_phase \<Rightarrow> (service_error, team_body list) result" where
  "plan_change_phase st expected phase =
     assert_run_revision st expected
     (bindR (snap st) (\<lambda>sn.
      let ready = (ec_active (sn_counts sn) = cr_planned (sn_created sn) \<and> ec_provisioning (sn_counts sn) = 0);
          allowed = ((ts_phase st = Some Profiling \<and> phase = Planning) \<or>
            (ts_phase st = Some Planning \<and> phase = Provisioning) \<or>
            (ts_phase st = Some Provisioning \<and> phase = ActivePhase \<and> ready) \<or>
            (ts_phase st = Some ActivePhase \<and> phase = Completing \<and> ready) \<or>
            (ts_phase st = Some Completing \<and> phase = CompletedPhase \<and> ready))
      in refuse (\<not> allowed) ''TEAM_INVALID_TRANSITION'' (Inr [BPhase phase None])))"

definition error_codes :: "string list" where
  "error_codes =
     [''TEAM_MEMBER_LIMIT'', ''TEAM_PROVISION_ATTEMPT_LIMIT'', ''FORMATION_FAILED'', ''CAPABILITY_UNAVAILABLE'',
      ''BLUEPRINT_REVISION_MISMATCH'', ''RESOURCE_CONFLICT'', ''STALE_REVISION'', ''DELIVERY_FAILED'',
      ''TEAM_INVALID_ARGUMENT'', ''TEAM_INVALID_CONFIG'', ''TEAM_NOT_FOUND'', ''TEAM_NOT_MEMBER'', ''TEAM_LEAD_REQUIRED'',
      ''TEAM_MEMBER_NOT_FOUND'', ''TEAM_MEMBER_NAME_TAKEN'', ''TEAM_MEMBER_ID_TAKEN'', ''TEAM_ATTEMPT_ID_TAKEN'',
      ''TEAM_SESSION_ID_TAKEN'', ''TEAM_INVALID_TRANSITION'', ''TEAM_CANCELLED'', ''TEAM_TASK_LIMIT'',
      ''TEAM_TASK_NOT_FOUND'', ''TEAM_TASK_BLOCKED'', ''TEAM_TASK_UNAUTHORIZED'', ''TEAM_TASK_INVALID_TRANSITION'',
      ''TEAM_TASK_DEPENDENCY_CYCLE'', ''TEAM_TASK_HAS_DEPENDENTS'', ''TEAM_MESSAGE_LIMIT'', ''TEAM_MESSAGE_TOO_LARGE'',
      ''TEAM_PROTOCOL_REQUIRED'', ''TEAM_PROTOCOL_PERMISSION_DENIED'', ''TEAM_PROTOCOL_TARGET_DENIED'',
      ''TEAM_EXPERT_MESSAGE_BUDGET_EXHAUSTED'', ''TEAM_CHALLENGE_INVALID'', ''TEAM_CHALLENGE_ROUND_LIMIT'',
      ''TEAM_ARTIFACT_LIMIT'', ''TEAM_ARTIFACT_NOT_FOUND'', ''TEAM_ARTIFACT_TOO_LARGE'', ''TEAM_ARTIFACT_UNAUTHORIZED'',
      ''TEAM_DECISION_NOT_FOUND'', ''TEAM_QUALITY_GATE_NOT_FOUND'', ''TEAM_CONTROL_INVALID_ACTION'']"

text \<open>
  \<open>failure\<close>: the fields of the failure are typed, so of its shape only the code, the number of
  details and the lengths of their keys are left to check (a modelled number is finite).
\<close>

definition normal_failure :: "team_failure \<Rightarrow> (service_error, team_failure) result" where
  "normal_failure f =
     refuse (\<not> List.member error_codes (fl_code f)) ''TEAM_INVALID_ARGUMENT''
     (refuse (64 < length (fl_details f) \<or> list_ex (\<lambda>(k, v). k = [] \<or> 128 < length k) (fl_details f)) ''TEAM_INVALID_ARGUMENT''
     (bindR (team (required_text (fl_message f) 4096)) (\<lambda>text. Inr (f\<lparr>fl_message := text\<rparr>))))"

definition plan_terminate ::
    "team_state \<Rightarrow> int \<Rightarrow> run_phase \<Rightarrow> team_failure \<Rightarrow> (service_error, team_body list) result" where
  "plan_terminate st expected terminal raw =
     assert_run_revision st expected
     (bindR (snap st) (\<lambda>sn.
      bindR (normal_failure raw) (\<lambda>failure.
      let formation = in_phase st [Profiling, Planning, Provisioning];
          allowed = (if terminal = FormationFailed then formation \<and> ec_active (sn_counts sn) < cr_planned (sn_created sn)
            else if terminal = FailedPhase then in_phase st [ActivePhase, Completing]
            else \<not> in_phase st [CompletedPhase, FormationFailed, FailedPhase, CancelledPhase]);
          correct = (if terminal = FormationFailed then fl_code failure = ''FORMATION_FAILED''
            else if terminal = CancelledPhase then fl_code failure = ''TEAM_CANCELLED''
            else fl_code failure \<noteq> ''FORMATION_FAILED'' \<and> fl_code failure \<noteq> ''TEAM_CANCELLED'')
      in refuse (\<not> allowed \<or> \<not> correct) ''TEAM_INVALID_TRANSITION'' (Inr [BPhase terminal (Some failure)]))))"

subsection \<open>Protocol and experts\<close>

definition normal_rule :: "expert_rule \<Rightarrow> (service_error, expert_rule) result" where
  "normal_rule r =
     bindR (team (required_text (ru_slot r) 100)) (\<lambda>slot.
     bindR (team (expert_name (ru_name r))) (\<lambda>name. Inr (r\<lparr>ru_slot := slot, ru_name := name\<rparr>)))"

definition validate_protocol :: "team_state \<Rightarrow> team_protocol \<Rightarrow> (service_error, team_protocol) result" where
  "validate_protocol st rq =
     refuse (ts_protocol st = None \<and> \<not> in_phase st [Planning, Provisioning]) ''TEAM_INVALID_TRANSITION''
     (refuse (\<not> is_safe (pt_max_rounds rq) \<or> pt_max_rounds rq < 1 \<or> \<not> is_safe (pt_max_messages rq) \<or>
         pt_max_messages rq < 1 \<or> Some (int (length (pt_experts rq))) \<noteq> map_option cr_planned (ts_created st))
       ''TEAM_INVALID_ARGUMENT''
     (bindR (mapR normal_rule (pt_experts rq)) (\<lambda>experts.
      refuse (\<not> distinct (map ru_slot experts) \<or> \<not> distinct (map ru_initial experts) \<or> \<not> distinct (map ru_name experts) \<or>
          list_ex (\<lambda>r. \<not> distinct (ru_targets r) \<or> List.member (ru_targets r) (ru_slot r) \<or>
            list_ex (\<lambda>slot. \<not> List.member (map ru_slot experts) slot) (ru_targets r)) experts)
        ''TEAM_INVALID_ARGUMENT'' (Inr (rq\<lparr>pt_experts := experts\<rparr>)))))"

text \<open>A protocol that is already in place must be the requested one; then nothing is written.\<close>

definition plan_protocol :: "team_state \<Rightarrow> int \<Rightarrow> team_protocol \<Rightarrow> (service_error, team_body list) result" where
  "plan_protocol st expected rq =
     bindR (validate_protocol st rq) (\<lambda>pt.
     case ts_protocol st of
       Some current \<Rightarrow> refuse (current \<noteq> pt) ''TEAM_PROTOCOL_REQUIRED'' (Inr [])
     | None \<Rightarrow> assert_run_revision st expected (Inr [BProtocol pt]))"

record begin_request =
  bq_expected :: int
  bq_member :: string
  bq_session :: string
  bq_attempt :: string
  bq_name :: string
  bq_role :: string
  bq_slot :: "string option"

definition assert_unique_attempt :: "team_state \<Rightarrow> team_member \<Rightarrow> (service_error, 'a) result \<Rightarrow> (service_error, 'a) result" where
  "assert_unique_attempt st m k =
     refuse (map_has (ts_by_name st) (mb_name m)) ''TEAM_MEMBER_NAME_TAKEN''
     (refuse (map_has (ts_members st) (mb_id m)) ''TEAM_MEMBER_ID_TAKEN''
     (refuse (map_has (ts_by_attempt st) (mb_attempt m)) ''TEAM_ATTEMPT_ID_TAKEN''
     (refuse (map_has (ts_by_session st) (mb_session m)) ''TEAM_SESSION_ID_TAKEN'' k)))"

definition assert_slot_free :: "team_state \<Rightarrow> begin_request \<Rightarrow> (service_error, 'a) result \<Rightarrow> (service_error, 'a) result" where
  "assert_slot_free st rq k =
     (case ts_protocol st of
        None \<Rightarrow> refuse (bq_slot rq \<noteq> None) ''TEAM_PROTOCOL_REQUIRED'' k
      | Some pt \<Rightarrow>
          (case Option.bind (bq_slot rq) (protocol_rule pt) of
             None \<Rightarrow> Inl (Refused ''TEAM_PROTOCOL_REQUIRED'')
           | Some rule \<Rightarrow>
               (let attempts = slot_attempts st (ru_slot rule) in
                refuse ((attempts = [] \<and> bq_member rq \<noteq> ru_initial rule) \<or>
                    list_ex (\<lambda>c. mb_phase c \<noteq> MemberFailed) attempts) ''TEAM_PROTOCOL_REQUIRED'' k)))"

definition plan_begin_expert :: "team_state \<Rightarrow> begin_request \<Rightarrow> (service_error, team_body list) result" where
  "plan_begin_expert st rq =
     assert_run_revision st (bq_expected rq)
     (refuse (\<not> in_phase st [Provisioning, ActivePhase]) ''TEAM_INVALID_TRANSITION''
     (bindR (snap st) (\<lambda>sn.
      refuse (po_max_attempts (cr_policy (sn_created sn)) \<le> ec_attempts (sn_counts sn)) ''TEAM_PROVISION_ATTEMPT_LIMIT''
     (refuse (po_max_active (cr_policy (sn_created sn)) \<le> ec_active (sn_counts sn) + ec_provisioning (sn_counts sn) \<or>
         cr_planned (sn_created sn) \<le> ec_active (sn_counts sn) + ec_provisioning (sn_counts sn)) ''TEAM_MEMBER_LIMIT''
     (assert_slot_free st rq
     (bindR (team (expert_name (bq_name rq))) (\<lambda>name.
      bindR (team (required_text (bq_role rq) 200)) (\<lambda>role.
      let m = \<lparr>mb_id = bq_member rq, mb_session = bq_session rq, mb_name = name, mb_role = role, mb_slot = bq_slot rq,
                mb_attempt = bq_attempt rq, mb_number = int (length (ts_members st)) + 1,
                mb_phase = MemberProvisioning, mb_failure = None\<rparr>
      in assert_unique_attempt st m (Inr [BMember m])))))))))"

definition plan_settle_expert ::
    "team_state \<Rightarrow> int \<Rightarrow> string \<Rightarrow> team_failure option \<Rightarrow> (service_error, team_body list) result" where
  "plan_settle_expert st expected attempt failure =
     assert_run_revision st expected
     (case Option.bind (map_get (ts_by_attempt st) attempt) (map_get (ts_members st)) of
        None \<Rightarrow> Inl (Refused ''TEAM_MEMBER_NOT_FOUND'')
      | Some current \<Rightarrow>
          (let provider = (in_phase st [Provisioning, ActivePhase] \<and> mb_phase current = MemberProvisioning);
               runtime = (failure \<noteq> None \<and> in_phase st [Provisioning, ActivePhase, Completing] \<and> mb_phase current = MemberActive)
           in refuse (\<not> provider \<and> \<not> runtime) ''TEAM_INVALID_TRANSITION''
             (case failure of
                None \<Rightarrow> Inr [BMember (current\<lparr>mb_phase := MemberActive\<rparr>)]
              | Some f \<Rightarrow> bindR (normal_failure f) (\<lambda>g.
                  Inr [BMember (current\<lparr>mb_phase := MemberFailed, mb_failure := Some g\<rparr>)]))))"

subsection \<open>Public messages\<close>

record publish_request =
  pq_kind :: message_kind
  pq_thread :: string
  pq_targets :: "string list"
  pq_refs :: message_refs
  pq_content :: string

definition resolve_targets :: "team_state \<Rightarrow> string list \<Rightarrow> (service_error, actor_ref list) result" where
  "resolve_targets st names = team (mapR (resolve_by_name st) names)"

text \<open>The budget, the permissions and the topology of an expert author.\<close>

definition admit_expert ::
    "team_state \<Rightarrow> team_protocol \<Rightarrow> string \<Rightarrow> actor_ref \<Rightarrow> message_kind \<Rightarrow> actor_ref list \<Rightarrow> (service_error, unit) result" where
  "admit_expert st pt i lead kind targets =
     (case Option.bind (Option.bind (map_get (ts_members st) i) mb_slot) (protocol_rule pt) of
        None \<Rightarrow> Inl (Refused ''TEAM_PROTOCOL_REQUIRED'')
      | Some rule \<Rightarrow>
          refuse (pt_max_messages pt \<le> int (length (authored_by st i))) ''TEAM_EXPERT_MESSAGE_BUDGET_EXHAUSTED''
          (refuse (\<not> (case kind of KChallenge \<Rightarrow> pr_challenge (ru_permissions rule) | KReview \<Rightarrow> pr_review (ru_permissions rule)
               | KRequestHelp \<Rightarrow> pr_request_help (ru_permissions rule) | _ \<Rightarrow> True)) ''TEAM_PROTOCOL_PERMISSION_DENIED''
          (let allowed = actor_key lead # List.map_filter (\<lambda>slot. case array_last (slot_attempts st slot) of
                   Some t \<Rightarrow> if mb_phase t = MemberActive then Some (''expert:'' @ mb_id t) else None
                 | None \<Rightarrow> None) (ru_targets rule);
               addressed = (if targets \<noteq> [] then targets
                 else lead # map member_actor (filter (\<lambda>c. mb_phase c = MemberActive \<and> mb_id c \<noteq> i) (members st)))
           in refuse (list_ex (\<lambda>t. \<not> List.member allowed (actor_key t)) addressed) ''TEAM_PROTOCOL_TARGET_DENIED'' (Inr ()))))"

definition admit_challenge ::
    "team_state \<Rightarrow> team_protocol \<Rightarrow> actor_ref \<Rightarrow> string \<Rightarrow> string \<Rightarrow> actor_ref \<Rightarrow> (service_error, unit) result" where
  "admit_challenge st pt author thread i target =
     refuse (case array_last (challenges_in st thread) of None \<Rightarrow> False
         | Some prior \<Rightarrow> \<not> has_response st (rf_challenge (sm_refs prior))) ''TEAM_CHALLENGE_INVALID''
     (refuse (pt_max_rounds pt < int (length (challenges_in st thread)) + 1) ''TEAM_CHALLENGE_ROUND_LIMIT''
     (refuse (challenge_named st i \<noteq> None \<or> actor_key author = actor_key target) ''TEAM_CHALLENGE_INVALID'' (Inr ())))"

definition admit_response ::
    "team_state \<Rightarrow> actor_ref \<Rightarrow> string \<Rightarrow> string \<Rightarrow> actor_ref \<Rightarrow> (service_error, unit) result" where
  "admit_response st author thread i target =
     (case challenge_named st i of
        None \<Rightarrow> Inl (Refused ''TEAM_CHALLENGE_INVALID'')
      | Some challenge \<Rightarrow>
          refuse (sm_thread challenge \<noteq> thread \<or> has_response st (Some i)) ''TEAM_CHALLENGE_INVALID''
          (case sm_targets challenge of
             [] \<Rightarrow> Inl (Refused ''TEAM_CHALLENGE_INVALID'')
           | challenged # _ \<Rightarrow>
               refuse (actor_key author \<noteq> actor_key challenged \<or> actor_key target \<noteq> actor_key (sm_author challenge))
                 ''TEAM_CHALLENGE_INVALID'' (Inr ())))"

definition protocol_admission ::
    "team_state \<Rightarrow> actor_ref \<Rightarrow> message_kind \<Rightarrow> string \<Rightarrow> message_refs \<Rightarrow> actor_ref list \<Rightarrow> (service_error, unit) result" where
  "protocol_admission st author kind thread refs targets =
     (case ts_protocol st of
        None \<Rightarrow> Inr ()
      | Some pt \<Rightarrow>
          bindR (snap st) (\<lambda>sn.
          bindR (case author_member author of None \<Rightarrow> Inr () | Some i \<Rightarrow> admit_expert st pt i (sn_lead sn) kind targets) (\<lambda>_.
          if kind \<noteq> KChallenge \<and> kind \<noteq> KResponse
          then refuse (rf_challenge refs \<noteq> None) ''TEAM_CHALLENGE_INVALID'' (Inr ())
          else
            (case (rf_challenge refs, targets) of
               (Some i, [target]) \<Rightarrow>
                 if kind = KChallenge then admit_challenge st pt author thread i target
                 else admit_response st author thread i target
             | _ \<Rightarrow> Inl (Refused ''TEAM_CHALLENGE_INVALID'')))))"

definition message_admission ::
    "team_state \<Rightarrow> actor_ref \<Rightarrow> publish_request \<Rightarrow> actor_ref list \<Rightarrow> (service_error, unit) result" where
  "message_admission st author rq targets =
     bindR (snap st) (\<lambda>sn.
     refuse (po_max_messages (cr_policy (sn_created sn)) \<le> int (length (sn_messages sn))) ''TEAM_MESSAGE_LIMIT''
     (bindR (team (required_text (pq_content rq) max_safe)) (\<lambda>content.
      refuse (po_max_message_bytes (cr_policy (sn_created sn)) < int (byte_length content)) ''TEAM_MESSAGE_TOO_LARGE''
     (refuse ((pq_kind rq \<noteq> KStatus \<and> \<not> in_phase st [ActivePhase, Completing]) \<or>
         in_phase st [CompletedPhase, FormationFailed, FailedPhase, CancelledPhase]) ''TEAM_INVALID_TRANSITION''
     (refuse (pq_kind rq = KFinalDelivery \<and> (\<not> is_lead author \<or> ts_phase st \<noteq> Some Completing)) ''TEAM_LEAD_REQUIRED''
     (refuse (\<not> is_lead author \<and> List.member [KDecision, KArtifact, KFinalDelivery] (pq_kind rq)) ''TEAM_LEAD_REQUIRED''
     (refuse (List.member [KDecision, KArtifact, KFinalDelivery] (pq_kind rq)) ''TEAM_INVALID_ARGUMENT''
     (refuse (pq_kind rq \<noteq> KStatus \<and> length targets \<noteq> 1) ''TEAM_PROTOCOL_TARGET_DENIED''
     (refuse (list_ex (\<lambda>t. actor_key t = actor_key author) targets) ''TEAM_PROTOCOL_TARGET_DENIED''
     (bindR (protocol_admission st author (pq_kind rq) (pq_thread rq) (pq_refs rq) targets) (\<lambda>_.
      refuse (case rf_task (pq_refs rq) of None \<Rightarrow> False | Some i \<Rightarrow> \<not> current_task st i) ''TEAM_TASK_NOT_FOUND''
        (Inr ()))))))))))))"

definition plan_message ::
    "fresh_ids \<Rightarrow> nat \<Rightarrow> team_state \<Rightarrow> actor_ref \<Rightarrow> publish_request \<Rightarrow> (service_error, team_body) result" where
  "plan_message fresh k st author rq =
     bindR (resolve_targets st (pq_targets rq)) (\<lambda>targets.
     bindR (message_admission st author rq targets) (\<lambda>_.
     bindR (team (required_text (pq_content rq) max_safe)) (\<lambda>content.
     Inr (BMessage \<lparr>sm_id = ''collaboration-message-'' @ fr_message fresh k, sm_thread = pq_thread rq, sm_kind = pq_kind rq,
       sm_author = author, sm_targets = targets, sm_refs = pq_refs rq, sm_content = content\<rparr>))))"

text \<open>The payload a command writes as its \<open>k\<close>-th event.\<close>

definition payload :: "fresh_ids \<Rightarrow> string \<Rightarrow> int \<Rightarrow> nat \<Rightarrow> team_body \<Rightarrow> team_payload" where
  "payload fresh run revision k body =
     \<lparr>tp_run = run, tp_event = ''collaboration-event-'' @ fr_event fresh k, tp_revision = revision, tp_body = body\<rparr>"

text \<open>A batch admits every message against the state staged by the messages before it.\<close>

definition stage_message ::
    "fresh_ids \<Rightarrow> (nat \<Rightarrow> int) \<Rightarrow> nat \<Rightarrow> actor_ref \<Rightarrow> team_state \<times> team_body list \<Rightarrow> publish_request
      \<Rightarrow> (service_error, team_state \<times> team_body list) result" where
  "stage_message fresh staged_time base author acc rq =
     (case acc of (st, bodies) \<Rightarrow>
        let k = length bodies in
        bindR (plan_message fresh k st author rq) (\<lambda>body.
        bindR (mapError Failed (apply_team_event st \<lparr>te_seq = int (base + k), te_time = staged_time k,
            te_content = Payload (payload fresh (ts_id st) (ts_revision st + 1) k body)\<rparr>)) (\<lambda>st'.
        Inr (st', bodies @ [body]))))"

definition plan_messages ::
    "fresh_ids \<Rightarrow> (nat \<Rightarrow> int) \<Rightarrow> nat \<Rightarrow> team_state \<Rightarrow> actor_ref \<Rightarrow> publish_request list \<Rightarrow> (service_error, team_body list) result" where
  "plan_messages fresh staged_time base st author rqs =
     refuse (rqs = []) ''TEAM_INVALID_ARGUMENT''
     (bindR (foldR (stage_message fresh staged_time base author) (st, []) rqs) (\<lambda>(_, bodies). Inr bodies))"

subsection \<open>Ledgers\<close>

definition record_tasks :: "team_state \<Rightarrow> string list \<Rightarrow> (service_error, string list) result" where
  "record_tasks st values =
     refuse (\<not> distinct values) ''TEAM_INVALID_ARGUMENT''
     (refuse (list_ex (\<lambda>i. \<not> current_task st i) values) ''TEAM_TASK_NOT_FOUND'' (Inr values))"

definition record_artifacts :: "team_state \<Rightarrow> string list \<Rightarrow> (service_error, string list) result" where
  "record_artifacts st values =
     refuse (\<not> distinct values) ''TEAM_INVALID_ARGUMENT''
     (refuse (list_ex (\<lambda>i. \<not> map_has (ts_artifacts st) i) values) ''TEAM_ARTIFACT_NOT_FOUND'' (Inr values))"

definition message_capacity :: "team_state \<Rightarrow> (service_error, 'a) result \<Rightarrow> (service_error, 'a) result" where
  "message_capacity st k =
     bindR (snap st) (\<lambda>sn. refuse (po_max_messages (cr_policy (sn_created sn)) \<le> int (length (sn_messages sn))) ''TEAM_MESSAGE_LIMIT'' k)"

definition ledger_message ::
    "fresh_ids \<Rightarrow> team_state \<Rightarrow> actor_ref \<Rightarrow> message_kind \<Rightarrow> message_refs \<Rightarrow> string \<Rightarrow> actor_ref list
      \<Rightarrow> (service_error, team_body) result" where
  "ledger_message fresh st author kind refs raw targets =
     bindR (team (required_text raw max_safe)) (\<lambda>content.
     refuse (list_ex (\<lambda>t. actor_key t = actor_key author) targets) ''TEAM_PROTOCOL_TARGET_DENIED''
     (bindR (snap st) (\<lambda>sn.
      refuse (po_max_message_bytes (cr_policy (sn_created sn)) < int (byte_length content)) ''TEAM_MESSAGE_TOO_LARGE''
      (Inr (BMessage \<lparr>sm_id = ''collaboration-message-'' @ fr_message fresh 0, sm_thread = main_thread, sm_kind = kind,
         sm_author = author, sm_targets = targets, sm_refs = refs, sm_content = content\<rparr>)))))"

fun artifact_status_name :: "artifact_status \<Rightarrow> string" where
  "artifact_status_name ArtifactDraft = ''draft''"
| "artifact_status_name ArtifactReview = ''review''"
| "artifact_status_name ArtifactAccepted = ''accepted''"
| "artifact_status_name ArtifactSuperseded = ''superseded''"

record artifact_request =
  aq_id :: "string option"
  aq_expected :: int
  aq_kind :: string
  aq_title :: string
  aq_body :: string
  aq_media :: string
  aq_tasks :: "string list"
  aq_status :: artifact_status

definition plan_artifact ::
    "fresh_ids \<Rightarrow> team_state \<Rightarrow> actor_ref \<Rightarrow> artifact_request \<Rightarrow> (service_error, team_body list) result" where
  "plan_artifact fresh st author rq =
     refuse (\<not> in_phase st [ActivePhase, Completing]) ''TEAM_INVALID_TRANSITION''
     (let i = or_default (aq_id rq) (''artifact-'' @ fr_artifact fresh);
          prior = map_get (ts_artifacts st) i;
          version = (case prior of None \<Rightarrow> 0 | Some p \<Rightarrow> ar_version p) in
      assert_ledger_version (aq_expected rq) version
     (bindR (snap st) (\<lambda>sn.
      let policy = cr_policy (sn_created sn) in
      refuse (prior = None \<and> po_max_artifacts policy \<le> int (length (ts_artifacts st))) ''TEAM_ARTIFACT_LIMIT''
     (refuse (case prior of None \<Rightarrow> False | Some p \<Rightarrow> \<not> is_lead author \<and> ar_author p \<noteq> author) ''TEAM_ARTIFACT_UNAUTHORIZED''
     (refuse (List.member [ArtifactAccepted, ArtifactSuperseded] (aq_status rq) \<and> \<not> is_lead author) ''TEAM_LEAD_REQUIRED''
     (bindR (team (required_text (aq_body rq) max_safe)) (\<lambda>body.
      refuse (po_max_artifact_bytes policy < int (byte_length body)) ''TEAM_ARTIFACT_TOO_LARGE''
     (bindR (record_tasks st (aq_tasks rq)) (\<lambda>tasks.
      message_capacity st
     (bindR (team (required_text (aq_title rq) 200)) (\<lambda>title.
      bindR (team (required_text (aq_media rq) 200)) (\<lambda>media.
      let a = \<lparr>ar_id = i, ar_version = version + 1, ar_kind = aq_kind rq, ar_title = title, ar_status = aq_status rq,
                ar_author = (case prior of None \<Rightarrow> author | Some p \<Rightarrow> ar_author p), ar_tasks = tasks, ar_media = media,
                ar_body = body\<rparr>;
          content = ''Artifact '' @ quoted title @ '' is '' @ artifact_status_name (aq_status rq) @ '' at version '' @
            show_int (version + 1) @ ''.'';
          refs = no_refs\<lparr>rf_artifact := Some i, rf_task := (case tasks of [] \<Rightarrow> None | t # _ \<Rightarrow> Some t)\<rparr>;
          targets = (if \<not> is_lead author then [sn_lead sn] else if \<not> is_lead (ar_author a) then [ar_author a] else [])
      in bindR (protocol_admission st author KArtifact main_thread refs targets) (\<lambda>_.
         bindR (ledger_message fresh st author KArtifact refs content targets) (\<lambda>receipt.
         Inr [BArtifact a, receipt]))))))))))))))"

record decision_request =
  dq_id :: "string option"
  dq_expected :: int
  dq_subject :: string
  dq_outcome :: decision_outcome
  dq_summary :: string
  dq_rationale :: string
  dq_tasks :: "string list"
  dq_artifacts :: "string list"

text \<open>Under a protocol an acceptance needs evidence: every task has an accepted artifact among those cited.\<close>

definition acceptance_evidence :: "team_state \<Rightarrow> string list \<Rightarrow> string list \<Rightarrow> (service_error, 'a) result \<Rightarrow> (service_error, 'a) result" where
  "acceptance_evidence st tasks artifacts k =
     refuse (tasks = [] \<or> artifacts = []) ''DELIVERY_FAILED''
     (let cited = List.map_filter (map_get (ts_artifacts st)) artifacts in
      refuse (list_ex (\<lambda>a. ar_status a \<noteq> ArtifactAccepted) cited) ''DELIVERY_FAILED''
      (refuse (list_ex (\<lambda>t. \<not> list_ex (\<lambda>a. List.member (ar_tasks a) t) cited) tasks) ''DELIVERY_FAILED'' k))"

definition plan_decision ::
    "fresh_ids \<Rightarrow> team_state \<Rightarrow> actor_ref \<Rightarrow> string \<Rightarrow> decision_request \<Rightarrow> (service_error, team_body list) result" where
  "plan_decision fresh st lead session rq =
     refuse (\<not> in_phase st [ActivePhase, Completing]) ''TEAM_INVALID_TRANSITION''
     (let i = or_default (dq_id rq) (''decision-'' @ fr_decision fresh);
          version = (case map_get (ts_decisions st) i of None \<Rightarrow> 0 | Some p \<Rightarrow> dc_version p) in
      assert_ledger_version (dq_expected rq) version
     (bindR (record_tasks st (dq_tasks rq)) (\<lambda>tasks.
      bindR (record_artifacts st (dq_artifacts rq)) (\<lambda>artifacts.
      (if ts_protocol st \<noteq> None \<and> dq_outcome rq = OutAccepted then acceptance_evidence st tasks artifacts else (\<lambda>k. k))
     (message_capacity st
     (bindR (team (required_text (dq_subject rq) 200)) (\<lambda>subject.
      bindR (team (required_text (dq_summary rq) 4096)) (\<lambda>summary.
      bindR (team (required_text (dq_rationale rq) 4096)) (\<lambda>rationale.
      let d = \<lparr>dc_id = i, dc_version = version + 1, dc_subject = subject, dc_outcome = dq_outcome rq, dc_summary = summary,
                dc_rationale = rationale, dc_tasks = tasks, dc_artifacts = artifacts, dc_lead = session\<rparr>;
          refs = no_refs\<lparr>rf_decision := Some i, rf_task := (case tasks of [] \<Rightarrow> None | t # _ \<Rightarrow> Some t),
            rf_artifact := (case artifacts of [] \<Rightarrow> None | a # _ \<Rightarrow> Some a)\<rparr>
      in bindR (ledger_message fresh st lead KDecision refs (subject @ '': '' @ summary) []) (\<lambda>note.
         Inr [BDecision d, note]))))))))))"

subsection \<open>Quality gates\<close>

definition plan_create_gate :: "team_state \<Rightarrow> string \<Rightarrow> (service_error, team_body list) result" where
  "plan_create_gate st raw =
     bindR (team (required_text raw 200)) (\<lambda>name.
     Inr [BGate \<lparr>qg_id = ''quality-gate-'' @ show_int (ts_next_gate st), qg_version = 1, qg_name = name,
       qg_status = GatePending, qg_reviewer = None, qg_task = None, qg_artifact = None, qg_summary = []\<rparr>])"

record gate_request =
  gq_id :: string
  gq_expected :: int
  gq_passed :: bool
  gq_summary :: string
  gq_task :: "string option"
  gq_artifact :: "string option"

definition option_list :: "'a option \<Rightarrow> 'a list" where
  "option_list x = (case x of None \<Rightarrow> [] | Some y \<Rightarrow> [y])"

definition list_option :: "'a list \<Rightarrow> 'a option" where
  "list_option xs = (case xs of [] \<Rightarrow> None | x # _ \<Rightarrow> Some x)"

definition gate_evidence :: "team_state \<Rightarrow> gate_request \<Rightarrow> (service_error, 'a) result \<Rightarrow> (service_error, 'a) result" where
  "gate_evidence st rq k =
     (case (Option.bind (gq_task rq) (map_get (ts_tasks st)), Option.bind (gq_artifact rq) (map_get (ts_artifacts st))) of
        (Some t, Some a) \<Rightarrow>
          refuse (tk_status t \<noteq> TaskCompleted \<or> ar_status a \<noteq> ArtifactAccepted \<or> \<not> List.member (ar_tasks a) (tk_id t))
            ''DELIVERY_FAILED'' k
      | _ \<Rightarrow> Inl (Refused ''DELIVERY_FAILED''))"

definition plan_update_gate ::
    "fresh_ids \<Rightarrow> team_state \<Rightarrow> actor_ref \<Rightarrow> gate_request \<Rightarrow> (service_error, team_body list) result" where
  "plan_update_gate fresh st lead rq =
     (case map_get (ts_gates st) (gq_id rq) of
        None \<Rightarrow> Inl (Refused ''TEAM_QUALITY_GATE_NOT_FOUND'')
      | Some prior \<Rightarrow>
          assert_ledger_version (gq_expected rq) (qg_version prior)
          (bindR (record_tasks st (option_list (gq_task rq))) (\<lambda>tasks.
           bindR (record_artifacts st (option_list (gq_artifact rq))) (\<lambda>artifacts.
           (if ts_protocol st \<noteq> None \<and> gq_passed rq then gate_evidence st rq else (\<lambda>k. k))
          (message_capacity st
          (bindR (team (required_text (gq_summary rq) 4096)) (\<lambda>summary.
           let g = \<lparr>qg_id = qg_id prior, qg_version = qg_version prior + 1, qg_name = qg_name prior,
                     qg_status = (if gq_passed rq then GatePassed else GateFailed), qg_reviewer = Some lead,
                     qg_task = list_option tasks, qg_artifact = list_option artifacts, qg_summary = summary\<rparr>;
               refs = no_refs\<lparr>rf_task := list_option tasks, rf_artifact := list_option artifacts\<rparr>;
               content = ''Quality gate '' @ quoted (qg_name prior) @ '' '' @
                 (if gq_passed rq then ''passed'' else ''failed'') @ '': '' @ summary
           in bindR (ledger_message fresh st lead KReview refs content []) (\<lambda>note. Inr [BGate g, note]))))))))"

subsection \<open>Corrections by the Lead\<close>

datatype control_action = ControlReassign "string option" | ControlRework | ControlReplan "string option"

fun control_name :: "control_action \<Rightarrow> string" where
  "control_name (ControlReassign _) = ''reassign''"
| "control_name ControlRework = ''rework''"
| "control_name (ControlReplan _) = ''replan''"

fun control_outcome :: "control_action \<Rightarrow> decision_outcome" where
  "control_outcome (ControlReassign _) = OutReassign"
| "control_outcome ControlRework = OutRework"
| "control_outcome (ControlReplan _) = OutReplan"

definition plain_update :: "string \<Rightarrow> int \<Rightarrow> task_action \<Rightarrow> update_task_request" where
  "plain_update i expected act = \<lparr>ut_task = i, ut_expected = expected, ut_action = act, ut_subject = None,
     ut_description = None, ut_blocked_by = None, ut_scopes = None, ut_owner = None\<rparr>"

fun control_update :: "string \<Rightarrow> int \<Rightarrow> control_action \<Rightarrow> (service_error, update_task_request) result" where
  "control_update i expected (ControlReassign owner) = Inr ((plain_update i expected ActReassign)\<lparr>ut_owner := owner\<rparr>)"
| "control_update i expected ControlRework = Inr (plain_update i expected ActReopen)"
| "control_update i expected (ControlReplan None) = Inl (Refused ''TEAM_CONTROL_INVALID_ACTION'')"
| "control_update i expected (ControlReplan (Some text)) = Inr ((plain_update i expected ActEdit)\<lparr>ut_description := Some text\<rparr>)"

record control_request =
  oq_expected :: int
  oq_task :: string
  oq_task_revision :: int
  oq_action :: control_action
  oq_rationale :: string

definition plan_control ::
    "fresh_ids \<Rightarrow> team_state \<Rightarrow> actor_ref \<Rightarrow> string \<Rightarrow> control_request \<Rightarrow> (service_error, team_body list) result" where
  "plan_control fresh st lead session rq =
     assert_run_revision st (oq_expected rq)
     (bindR (control_update (oq_task rq) (oq_task_revision rq) (oq_action rq)) (\<lambda>update.
      bindR (team (plan_update st lead update)) (\<lambda>t.
      message_capacity st
     (bindR (team (required_text (oq_rationale rq) 4096)) (\<lambda>rationale.
      let i = ''decision-'' @ fr_decision fresh;
          summary = ''Lead Controller applied '' @ control_name (oq_action rq) @ '' to '' @ quoted (tk_subject t) @ ''.'';
          d = \<lparr>dc_id = i, dc_version = 1, dc_subject = control_name (oq_action rq) @ '' task '' @ tk_id t,
               dc_outcome = control_outcome (oq_action rq), dc_summary = summary, dc_rationale = rationale,
               dc_tasks = [tk_id t], dc_artifacts = [], dc_lead = session\<rparr>
      in bindR (ledger_message fresh st lead KDecision (no_refs\<lparr>rf_task := Some (tk_id t), rf_decision := Some i\<rparr>)
           (summary @ '' '' @ rationale) []) (\<lambda>note.
         Inr [BTask t, BDecision d, note]))))))"

subsection \<open>Completion\<close>

definition open_challenge :: "protocol_view \<Rightarrow> bool" where
  "open_challenge p = (case p of LegacyProtocol \<Rightarrow> False | EnforcedProtocol _ _ _ _ qs \<Rightarrow> list_ex (\<lambda>q. \<not> ch_responded q) qs)"

definition silent_experts :: "team_snapshot \<Rightarrow> team_member list" where
  "silent_experts sn = filter (\<lambda>m. mb_phase m = MemberActive \<and>
     \<not> list_ex (\<lambda>p. author_member (sm_author p) = Some (mb_id m)) (sn_messages sn)) (sn_members sn)"

text \<open>The evidence of the tasks: of their owners under a protocol, of every expert without one.\<close>

definition work_evidence :: "team_state \<Rightarrow> team_snapshot \<Rightarrow> (service_error, 'a) result \<Rightarrow> (service_error, 'a) result" where
  "work_evidence st sn k =
     (if ts_protocol st \<noteq> None
      then refuse (experts_missing_contribution st \<noteq> []) ''DELIVERY_FAILED''
        (refuse (sn_tasks sn = [] \<or> tasks_missing_evidence st \<noteq> []) ''DELIVERY_FAILED'' k)
      else refuse (silent_experts sn \<noteq> []) ''DELIVERY_FAILED''
        (refuse (sn_tasks sn = [] \<or> list_ex (\<lambda>t. tk_status t \<noteq> TaskCompleted) (sn_tasks sn)) ''DELIVERY_FAILED'' k))"

definition accepted_in :: "team_snapshot \<Rightarrow> string \<Rightarrow> bool" where
  "accepted_in sn i \<longleftrightarrow> list_ex (\<lambda>a. ar_status a = ArtifactAccepted \<and> List.member (ar_tasks a) i) (sn_artifacts sn)"

definition decided_in :: "team_snapshot \<Rightarrow> string \<Rightarrow> bool" where
  "decided_in sn i \<longleftrightarrow>
     list_ex (\<lambda>d. dc_outcome d = OutAccepted \<and> List.member (dc_tasks d) i \<and>
       list_ex (\<lambda>artifact. list_ex (\<lambda>a. ar_id a = artifact \<and> ar_status a = ArtifactAccepted \<and>
         List.member (ar_tasks a) i) (sn_artifacts sn)) (dc_artifacts d)) (sn_decisions sn)"

definition review_evidence :: "team_state \<Rightarrow> team_snapshot \<Rightarrow> bool" where
  "review_evidence st sn \<longleftrightarrow>
     (if ts_protocol st \<noteq> None then has_verified_review st
      else list_ex (\<lambda>m. sm_kind m = KCompletionRequest) (sn_messages sn) \<and> list_ex (\<lambda>m. sm_kind m = KReview) (sn_messages sn))"

record complete_request =
  eq_thread :: string
  eq_refs :: message_refs
  eq_content :: string

definition plan_complete_run ::
    "fresh_ids \<Rightarrow> team_state \<Rightarrow> actor_ref \<Rightarrow> complete_request \<Rightarrow> (service_error, team_body list) result" where
  "plan_complete_run fresh st lead rq =
     bindR (snap st) (\<lambda>sn.
     refuse (ts_phase st \<noteq> Some ActivePhase) ''TEAM_INVALID_TRANSITION''
     (refuse (open_challenge (sn_protocol sn)) ''DELIVERY_FAILED''
     (work_evidence st sn
     (refuse (list_ex (\<lambda>t. \<not> accepted_in sn (tk_id t)) (sn_tasks sn)) ''DELIVERY_FAILED''
     (refuse (\<not> review_evidence st sn) ''DELIVERY_FAILED''
     (refuse (sn_gates sn = [] \<or> list_ex (\<lambda>g. qg_status g \<noteq> GatePassed) (sn_gates sn)) ''DELIVERY_FAILED''
     (refuse (list_ex (\<lambda>t. \<not> decided_in sn (tk_id t)) (sn_tasks sn)) ''DELIVERY_FAILED''
     (refuse (po_max_messages (cr_policy (sn_created sn)) \<le> int (length (sn_messages sn))) ''TEAM_MESSAGE_LIMIT''
     (bindR (team (required_text (eq_content rq) max_safe)) (\<lambda>content.
      refuse (po_max_message_bytes (cr_policy (sn_created sn)) < int (byte_length content)) ''TEAM_MESSAGE_TOO_LARGE''
      (Inr [BPhase Completing None,
        BMessage \<lparr>sm_id = ''collaboration-message-'' @ fr_message fresh 0, sm_thread = eq_thread rq,
          sm_kind = KFinalDelivery, sm_author = lead, sm_targets = [], sm_refs = eq_refs rq, sm_content = content\<rparr>,
        BPhase CompletedPhase None])))))))))))"

end
