(* ===== verification/TeamStaging.thy ===== *)
theory TeamStaging
  imports TeamCommands
begin

text \<open>
  The journal of \<open>packages/collaboration/agent-team/src/journal.ts\<close> validates its events with
  one clock reading and appends them with another. Whether the replay accepts an event does not
  depend on its time: erasing every time of a state commutes with the replay.
\<close>

subsection \<open>Erasing times\<close>

definition map_vals :: "('v \<Rightarrow> 'w) \<Rightarrow> ('k, 'v) jsmap \<Rightarrow> ('k, 'w) jsmap" where
  "map_vals f m = map (\<lambda>(k, v). (k, f v)) m"

lemma map_vals_get [simp]: "map_get (map_vals f m) k = map_option f (map_get m k)"
  by (induction m) (auto simp: map_vals_def)

lemma map_vals_values [simp]: "map_values (map_vals f m) = map f (map_values m)"
  by (simp add: map_vals_def case_prod_beta comp_def)

lemma map_vals_length [simp]: "length (map_vals f m) = length m"
  by (simp add: map_vals_def)

lemma map_vals_set [simp]: "map_vals f (map_set k v m) = map_set k (f v) (map_vals f m)"
  by (induction m) (auto simp: map_vals_def)

definition undated_message :: "public_message \<Rightarrow> public_message" where
  "undated_message m = m\<lparr>pm_created_at := 0\<rparr>"

definition undated_artifact :: "team_artifact \<Rightarrow> team_artifact" where
  "undated_artifact a = a\<lparr>ar_updated_at := 0\<rparr>"

definition undated_decision :: "team_decision \<Rightarrow> team_decision" where
  "undated_decision d = d\<lparr>dc_created_at := 0\<rparr>"

definition undated_gate :: "quality_gate \<Rightarrow> quality_gate" where
  "undated_gate g = g\<lparr>qg_updated_at := 0\<rparr>"

definition undated :: "team_state \<Rightarrow> team_state" where
  "undated st = st\<lparr>ts_messages := map_vals undated_message (ts_messages st),
     ts_artifacts := map_vals undated_artifact (ts_artifacts st),
     ts_decisions := map_vals undated_decision (ts_decisions st),
     ts_gates := map_vals undated_gate (ts_gates st), ts_activity_times := [], ts_last_progress := 0\<rparr>"

named_theorems undated_simps \<open>erasing times commutes\<close>

lemma undated_fields [simp]:
  "ts_id (undated st) = ts_id st" "ts_created (undated st) = ts_created st" "ts_phase (undated st) = ts_phase st"
  "ts_failure (undated st) = ts_failure st" "ts_revision (undated st) = ts_revision st" "ts_cursor (undated st) = ts_cursor st"
  "ts_members (undated st) = ts_members st" "ts_by_name (undated st) = ts_by_name st"
  "ts_by_attempt (undated st) = ts_by_attempt st" "ts_by_session (undated st) = ts_by_session st"
  "ts_tasks (undated st) = ts_tasks st" "ts_protocol (undated st) = ts_protocol st"
  "ts_messages (undated st) = map_vals undated_message (ts_messages st)"
  "ts_artifacts (undated st) = map_vals undated_artifact (ts_artifacts st)"
  "ts_decisions (undated st) = map_vals undated_decision (ts_decisions st)"
  "ts_gates (undated st) = map_vals undated_gate (ts_gates st)"
  "ts_signatures (undated st) = ts_signatures st" "ts_next_task (undated st) = ts_next_task st"
  "ts_next_gate (undated st) = ts_next_gate st" "ts_activity_cursors (undated st) = ts_activity_cursors st"
  by (simp_all add: undated_def)

lemma undated_message_fields [simp]:
  "sm_id (undated_message m) = sm_id m" "sm_thread (undated_message m) = sm_thread m" "sm_kind (undated_message m) = sm_kind m"
  "sm_author (undated_message m) = sm_author m" "sm_targets (undated_message m) = sm_targets m"
  "sm_refs (undated_message m) = sm_refs m" "pm_sequence (undated_message m) = pm_sequence m"
  by (simp_all add: undated_message_def)

lemma undated_ledger_fields [simp]:
  "ar_version (undated_artifact a) = ar_version a" "ar_author (undated_artifact a) = ar_author a"
  "dc_version (undated_decision d) = dc_version d" "qg_version (undated_gate g) = qg_version g"
  "qg_name (undated_gate g) = qg_name g"
  by (simp_all add: undated_artifact_def undated_decision_def undated_gate_def)

lemma undated_extend [simp]:
  "undated_message (stored_message.extend m (public_message.fields e s r t)) = stored_message.extend m (public_message.fields e s r 0)"
  "undated_artifact (stored_artifact.extend a (team_artifact.fields t)) = stored_artifact.extend a (team_artifact.fields 0)"
  "undated_decision (stored_decision.extend d (team_decision.fields t)) = stored_decision.extend d (team_decision.fields 0)"
  "undated_gate (stored_gate.extend g (quality_gate.fields t)) = stored_gate.extend g (quality_gate.fields 0)"
  by (simp_all add: undated_message_def undated_artifact_def undated_decision_def undated_gate_def
      stored_message.defs public_message.defs stored_artifact.defs team_artifact.defs stored_decision.defs team_decision.defs
      stored_gate.defs quality_gate.defs)

subsection \<open>Guards do not see times\<close>

lemma undated_queries [undated_simps]:
  "count_phase (undated st) ph = count_phase st ph" "require_created (undated st) = require_created st"
  "phase_terminal (undated st) = phase_terminal st" "assert_actor (undated st) a = assert_actor st a"
  "slot_attempts (undated st) s = slot_attempts st s" "current_task (undated st) i = current_task st i"
  unfolding count_phase_def require_created_def phase_terminal_def assert_actor_def slot_attempts_def current_task_def
    undated_fields by (rule refl)+

lemma undated_ready [undated_simps]:
  "exact_team_ready (undated st) c = exact_team_ready st c" "member_for_slot (undated st) s = member_for_slot st s"
  by (simp_all add: exact_team_ready_def member_for_slot_def undated_simps)

lemma undated_guards [undated_simps]:
  "assert_member_slot (undated st) m = assert_member_slot st m" "phase_allowed (undated st) c p q = phase_allowed st c p q"
  unfolding assert_member_slot_def phase_allowed_def undated_simps undated_fields by (rule refl)+

lemma undated_talk [undated_simps]:
  "authored_by (undated st) i = map undated_message (authored_by st i)"
  "challenges_in (undated st) t = map undated_message (challenges_in st t)"
  "has_response (undated st) q = has_response st q"
  by (simp_all add: authored_by_def challenges_in_def has_response_def filter_map comp_def list_ex_iff)

lemma find_map: "find p (map f xs) = map_option f (find (\<lambda>x. p (f x)) xs)"
  by (induction xs) auto

lemma array_last_map [simp]: "array_last (map f xs) = map_option f (array_last xs)"
  by (simp add: array_last_def last_map)

lemma undated_challenge [undated_simps]:
  "challenge_named (undated st) i = map_option undated_message (challenge_named st i)"
  unfolding challenge_named_def undated_fields map_vals_values find_map [of _ undated_message] undated_message_fields
  by (rule refl)

lemma undated_expert_author [undated_simps]: "assert_expert_author (undated st) pt i m = assert_expert_author st pt i m"
  unfolding assert_expert_author_def undated_simps undated_fields length_map by (rule refl)

lemma undated_assert_challenge [undated_simps]: "assert_challenge (undated st) pt m i t = assert_challenge st pt m i t"
  unfolding assert_challenge_def undated_simps undated_fields length_map array_last_map option.map_disc_iff
  by (cases "array_last (challenges_in st (sm_thread m))") simp_all

lemma undated_assert_response [undated_simps]: "assert_response (undated st) m i t = assert_response st m i t"
  unfolding assert_response_def undated_simps by (cases "challenge_named st i") (simp_all split: list.split)

lemma undated_protocol_message [undated_simps]: "assert_protocol_message (undated st) m = assert_protocol_message st m"
  unfolding assert_protocol_message_def undated_simps undated_fields by (rule refl)

subsection \<open>The replay commutes\<close>

definition undate :: "(js_error, team_state) result \<Rightarrow> (js_error, team_state) result" where
  "undate r = (case r of Inl e \<Rightarrow> Inl e | Inr st \<Rightarrow> Inr (undated st))"

named_theorems undate_push \<open>erasing times under the combinators of the replay\<close>

lemma undate_bindR [undate_push]: "undate (bindR r f) = bindR r (\<lambda>x. undate (f x))"
  by (cases r) (simp_all add: undate_def)

lemma undate_check [undate_push]: "undate (check b w k) = check b w (undate k)"
  by (cases b) (simp_all add: undate_def check_def)

lemma undate_text [undate_push]: "undate (normal_text s n k) = normal_text s n (undate k)"
  by (simp add: normal_text_def undate_push)

lemma undate_base [undate_push]:
  "undate (fold_error w) = fold_error w" "undate (Inr st) = Inr (undated st)" "undate (Inl e) = Inl e"
  by (simp_all add: undate_def fold_error_def)

lemma undate_case_option [undate_push]:
  "undate (case x of None \<Rightarrow> a | Some y \<Rightarrow> b y) = (case x of None \<Rightarrow> undate a | Some y \<Rightarrow> undate (b y))"
  by (cases x) simp_all

lemma undated_update [undate_push]:
  "undated (st\<lparr>ts_phase := a\<rparr>) = (undated st)\<lparr>ts_phase := a\<rparr>" "undated (st\<lparr>ts_failure := b\<rparr>) = (undated st)\<lparr>ts_failure := b\<rparr>"
  "undated (st\<lparr>ts_members := c\<rparr>) = (undated st)\<lparr>ts_members := c\<rparr>" "undated (st\<lparr>ts_by_name := d\<rparr>) = (undated st)\<lparr>ts_by_name := d\<rparr>"
  "undated (st\<lparr>ts_by_attempt := d\<rparr>) = (undated st)\<lparr>ts_by_attempt := d\<rparr>"
  "undated (st\<lparr>ts_by_session := d\<rparr>) = (undated st)\<lparr>ts_by_session := d\<rparr>"
  "undated (st\<lparr>ts_tasks := t\<rparr>) = (undated st)\<lparr>ts_tasks := t\<rparr>" "undated (st\<lparr>ts_next_task := n\<rparr>) = (undated st)\<lparr>ts_next_task := n\<rparr>"
  "undated (st\<lparr>ts_protocol := p\<rparr>) = (undated st)\<lparr>ts_protocol := p\<rparr>" "undated (st\<lparr>ts_next_gate := n\<rparr>) = (undated st)\<lparr>ts_next_gate := n\<rparr>"
  "undated (st\<lparr>ts_created := k\<rparr>) = (undated st)\<lparr>ts_created := k\<rparr>" "undated (st\<lparr>ts_cursor := n\<rparr>) = (undated st)\<lparr>ts_cursor := n\<rparr>"
  "undated (st\<lparr>ts_messages := m\<rparr>) = (undated st)\<lparr>ts_messages := map_vals undated_message m\<rparr>"
  "undated (st\<lparr>ts_artifacts := ar\<rparr>) = (undated st)\<lparr>ts_artifacts := map_vals undated_artifact ar\<rparr>"
  "undated (st\<lparr>ts_decisions := ds\<rparr>) = (undated st)\<lparr>ts_decisions := map_vals undated_decision ds\<rparr>"
  "undated (st\<lparr>ts_gates := gs\<rparr>) = (undated st)\<lparr>ts_gates := map_vals undated_gate gs\<rparr>"
  by (simp_all add: undated_def)

lemma undated_member: "apply_member (undated st) m = undate (apply_member st m)"
  unfolding apply_member_def begin_member_def settle_member_def Let_def undate_push undated_simps undated_fields
  by (rule refl)

lemma undated_phase: "apply_phase (undated st) ph f = undate (apply_phase st ph f)"
  unfolding apply_phase_def undate_push undated_simps undated_fields by (rule refl)

lemma undated_task: "apply_task (undated st) t = undate (apply_task st t)"
  unfolding apply_task_def undate_push undated_simps undated_fields by (rule refl)

lemma undated_protocol: "apply_protocol (undated st) pt = undate (apply_protocol st pt)"
  unfolding apply_protocol_def undate_push undated_simps undated_fields by (rule refl)

lemma undated_created: "apply_created (undated st) p c = undate (apply_created st p c)"
  unfolding apply_created_def undate_push undated_simps undated_fields by (rule refl)

lemma undated_apply_message:
  "apply_message (undated st) (e\<lparr>te_time := 0\<rparr>) i m = undate (apply_message st e i m)"
  unfolding apply_message_def undate_push undated_simps undated_fields map_vals_set undated_extend map_vals_length
  by simp

lemma undated_gone [simp]: "dc_created_at (undated_decision d) = 0"
  by (simp add: undated_decision_def)

lemma undated_apply_artifact:
  "apply_artifact (undated st) (e\<lparr>te_time := 0\<rparr>) a = undate (apply_artifact st e a)"
  by (cases "map_get (ts_artifacts st) (ar_id a)")
    (simp_all add: apply_artifact_def undate_push undated_simps Let_def)

lemma undated_apply_decision:
  "apply_decision (undated st) (e\<lparr>te_time := 0\<rparr>) d = undate (apply_decision st e d)"
  by (cases "map_get (ts_decisions st) (dc_id d)")
    (simp_all add: apply_decision_def undate_push undated_simps Let_def)

lemma check_bindR: "bindR (check b w k) f = check b w (bindR k f)"
  by (simp add: check_def throw_if_def)

lemma undated_apply_gate: "apply_gate (undated st) (e\<lparr>te_time := 0\<rparr>) g = undate (apply_gate st e g)"
  by (cases "map_get (ts_gates st) (qg_id g)")
    (simp_all add: apply_gate_def undate_push undated_simps Let_def check_bindR cong: option.case_cong)

lemma undated_body: "apply_body (undated st) (e\<lparr>te_time := 0\<rparr>) p = undate (apply_body st e p)"
  by (cases "tp_body p")
    (simp_all add: apply_body_def undate_push undated_created undated_phase undated_member undated_task undated_protocol
      undated_apply_message undated_apply_artifact undated_apply_decision undated_apply_gate)

lemma map_vals_twice [simp]: "map_vals f (map_vals g m) = map_vals (\<lambda>v. f (g v)) m"
  by (simp add: map_vals_def case_prod_beta comp_def)

lemma undated_twice [simp]:
  "undated_message (undated_message m) = undated_message m" "undated_artifact (undated_artifact a) = undated_artifact a"
  "undated_decision (undated_decision d) = undated_decision d" "undated_gate (undated_gate g) = undated_gate g"
  by (simp_all add: undated_message_def undated_artifact_def undated_decision_def undated_gate_def)

lemma undated_undated [simp]: "undated (undated st) = undated st"
  by (simp add: undated_def)

lemma undated_record:
  "undated (record_payload (undated st) (e\<lparr>te_time := 0\<rparr>) p) = undated (record_payload st e p)"
  by (simp add: record_payload_def mark_activity_def undated_def Let_def)

lemma undated_record_bind:
  "undate (bindR (undate r) (\<lambda>s. Inr (record_payload s (e\<lparr>te_time := 0\<rparr>) p))) = undate (bindR r (\<lambda>s. Inr (record_payload s e p)))"
  by (cases r) (simp_all add: undate_push undated_record)

lemma undated_event:
  "undate (apply_team_event (undated st) (e\<lparr>te_time := 0\<rparr>)) = undate (apply_team_event st e)"
proof (cases "te_content e")
  case (Payload p)
  have cursor: "(undated st)\<lparr>ts_cursor := te_seq e\<rparr> = undated (st\<lparr>ts_cursor := te_seq e\<rparr>)" by (simp add: undated_update)
  show ?thesis
    using Payload undated_record_bind [of "apply_body (st\<lparr>ts_cursor := te_seq e\<rparr>) e p" e p]
    by (cases "map_get (ts_signatures st) (tp_event p)")
      (simp_all add: apply_team_event_def Let_def cursor undated_body undate_check undate_base)
qed (simp_all add: apply_team_event_def undate_push)

text \<open>Logs that differ only in their times are accepted alike.\<close>

lemma undated_fold:
  "map (te_time_update (\<lambda>_. 0)) es = map (te_time_update (\<lambda>_. 0)) fs \<Longrightarrow> undated st = undated st' \<Longrightarrow>
     undate (foldR apply_team_event st es) = undate (foldR apply_team_event st' fs)"
proof (induction es arbitrary: fs st st')
  case (Cons e es)
  then obtain f fs' where fs: "fs = f # fs'" and ef: "e\<lparr>te_time := 0\<rparr> = f\<lparr>te_time := 0\<rparr>"
      and rest: "map (te_time_update (\<lambda>_. 0)) es = map (te_time_update (\<lambda>_. 0)) fs'" by (cases fs) auto
  have same: "undate (apply_team_event st e) = undate (apply_team_event st' f)"
    using undated_event [of st e] undated_event [of st' f] Cons.prems(2) ef by simp
  show ?case
  proof (cases "apply_team_event st e")
    case (Inl x)
    with same show ?thesis by (cases "apply_team_event st' f") (simp_all add: fs undate_push)
  next
    case (Inr u)
    with same obtain u' where "apply_team_event st' f = Inr u'" "undated u = undated u'"
      by (cases "apply_team_event st' f") (auto simp: undate_push)
    with Inr Cons.IH [OF rest] show ?thesis by (simp add: fs)
  qed
qed (simp add: undate_push)

lemma undate_is_ok: "is_ok (undate r) \<longleftrightarrow> is_ok r"
  by (cases r) (simp_all add: undate_push)

end
