(* ===== verification/TeamService.thy ===== *)
theory TeamService
  imports TeamStaging
begin

text \<open>
  The TeamRun service (\<open>packages/collaboration/agent-team/src/index.ts\<close>) over the journal of one
  Lead (\<open>journal.ts\<close>): authority of a caller, the commands as transactions of the Lead's queue,
  and their interleaving with each other and with everything else the Lead's Session logs.
\<close>

subsection \<open>The journal\<close>

text \<open>
  The environment of a command: its fresh identities, the clock readings of the validation and
  of the appends, and whether the flush succeeds.
\<close>

record command_env = fresh_ids +
  en_staged :: "nat \<Rightarrow> int"
  en_clock :: "nat \<Rightarrow> int"
  en_flush :: bool

definition stamp :: "nat \<Rightarrow> (nat \<Rightarrow> int) \<Rightarrow> team_payload list \<Rightarrow> team_event list" where
  "stamp base clock ps =
     map2 (\<lambda>k p. \<lparr>te_seq = int (base + k), te_time = clock k, te_content = Payload p\<rparr>) [0..<length ps] ps"

definition payloads :: "command_env \<Rightarrow> team_state \<Rightarrow> team_body list \<Rightarrow> team_payload list" where
  "payloads env st bodies =
     map2 (\<lambda>k body. payload (fresh_ids.truncate env) (ts_id st) (ts_revision st + 1 + int k) k body) [0..<length bodies] bodies"

text \<open>Every event is validated on the staged state before the first is appended.\<close>

definition team_commit ::
    "command_env \<Rightarrow> team_event list \<Rightarrow> team_state \<Rightarrow> team_body list \<Rightarrow> team_event list \<times> (service_error, unit) result" where
  "team_commit env events st bodies =
     (if bodies = [] then (events, Inr ())
      else
        (let ps = payloads env st bodies in
         case foldR apply_team_event st (stamp (length events) (en_staged env) ps) of
           Inl e \<Rightarrow> (events, Inl (Failed e))
         | Inr _ \<Rightarrow> (events @ stamp (length events) (en_clock env) ps, if en_flush env then Inr () else Inl FlushFailed)))"

subsection \<open>Commands\<close>

datatype team_command =
    CChangePhase int run_phase
  | CProtocol int team_protocol
  | CBegin begin_request
  | CSucceed int string
  | CFail int string team_failure
  | CTerminate int run_phase team_failure
  | CCreateTask create_task_request
  | CUpdateTask update_task_request
  | CPublish publish_request
  | CPublishMany "publish_request list"
  | CArtifact artifact_request
  | CDecision decision_request
  | CCreateGate string
  | CUpdateGate gate_request
  | CControl control_request
  | CComplete complete_request

text \<open>The commands that go through \<open>requireLead\<close>.\<close>

fun lead_only :: "team_command \<Rightarrow> bool" where
  "lead_only (CCreateTask _) = False"
| "lead_only (CUpdateTask _) = False"
| "lead_only (CPublish _) = False"
| "lead_only (CPublishMany _) = False"
| "lead_only (CArtifact _) = False"
| "lead_only _ = True"

fun actor_session :: "actor_ref \<Rightarrow> string" where
  "actor_session (LeadActor s) = s"
| "actor_session (ExpertActor _ s _) = s"

definition plan_command ::
    "command_env \<Rightarrow> nat \<Rightarrow> team_state \<Rightarrow> actor_ref \<Rightarrow> team_command \<Rightarrow> (service_error, team_body list) result" where
  "plan_command env base st actor cmd =
     (let fresh = fresh_ids.truncate env in
      case cmd of
        CChangePhase expected phase \<Rightarrow> plan_change_phase st expected phase
      | CProtocol expected pt \<Rightarrow> plan_protocol st expected pt
      | CBegin rq \<Rightarrow> plan_begin_expert st rq
      | CSucceed expected attempt \<Rightarrow> plan_settle_expert st expected attempt None
      | CFail expected attempt failure \<Rightarrow> plan_settle_expert st expected attempt (Some failure)
      | CTerminate expected phase failure \<Rightarrow> plan_terminate st expected phase failure
      | CCreateTask rq \<Rightarrow> bindR (team (plan_create st rq)) (\<lambda>t. Inr [BTask t])
      | CUpdateTask rq \<Rightarrow> bindR (team (plan_update st actor rq)) (\<lambda>t. Inr [BTask t])
      | CPublish rq \<Rightarrow> bindR (plan_message fresh 0 st actor rq) (\<lambda>m. Inr [m])
      | CPublishMany rqs \<Rightarrow> plan_messages fresh (en_staged env) base st actor rqs
      | CArtifact rq \<Rightarrow> plan_artifact fresh st actor rq
      | CDecision rq \<Rightarrow> plan_decision fresh st actor (actor_session actor) rq
      | CCreateGate name \<Rightarrow> plan_create_gate st name
      | CUpdateGate rq \<Rightarrow> plan_update_gate fresh st actor rq
      | CControl rq \<Rightarrow> plan_control fresh st actor (actor_session actor) rq
      | CComplete rq \<Rightarrow> plan_complete_run fresh st actor rq)"

text \<open>One transaction: replay, decide, validate and append.\<close>

definition run_command ::
    "string \<Rightarrow> command_env \<Rightarrow> team_event list \<Rightarrow> actor_ref \<Rightarrow> team_command \<Rightarrow> team_event list \<times> (service_error, unit) result" where
  "run_command lead env events actor cmd =
     (case fold_team_run lead events of
        Inl e \<Rightarrow> (events, Inl (Failed e))
      | Inr st \<Rightarrow>
          (case plan_command env (length events) st actor cmd of
             Inl e \<Rightarrow> (events, Inl e)
           | Inr bodies \<Rightarrow> team_commit env events st bodies))"

definition run_create ::
    "run_policy \<Rightarrow> string \<Rightarrow> command_env \<Rightarrow> team_event list \<Rightarrow> create_run_request \<Rightarrow> team_event list \<times> (service_error, unit) result" where
  "run_create policy lead env events rq =
     (case fold_team_run lead events of
        Inl e \<Rightarrow> (events, Inl (Failed e))
      | Inr st \<Rightarrow>
          (case plan_create_run policy lead st rq of
             Inl e \<Rightarrow> (events, Inl e)
           | Inr bodies \<Rightarrow> team_commit env events st bodies))"

subsection \<open>Authority\<close>

text \<open>A live Agent: the object that holds its id, its parent Session and the log of its own Session.\<close>

record live_agent =
  la_object :: nat
  la_parent :: "string option"
  la_events :: "team_event list"

definition journal_state :: "string \<Rightarrow> team_event list \<Rightarrow> (service_error, team_state) result" where
  "journal_state i events = mapError Failed (fold_team_run i events)"

text \<open>The Lead whose run the caller belongs to, and the caller's role in it.\<close>

definition authority :: "(string, live_agent) jsmap \<Rightarrow> string \<Rightarrow> nat \<Rightarrow> (service_error, string \<times> actor_ref) result" where
  "authority agents i object =
     (case map_get agents i of
        None \<Rightarrow> Inl (Refused ''TEAM_NOT_MEMBER'')
      | Some a \<Rightarrow>
          refuse (la_object a \<noteq> object) ''TEAM_NOT_MEMBER''
          (bindR (journal_state i (la_events a)) (\<lambda>own.
           if ts_created own \<noteq> None
           then bindR (team (resolve_membership own i)) (\<lambda>actor. Inr (i, actor))
           else
             (case Option.bind (la_parent a) (\<lambda>p. map_option (Pair p) (map_get agents p)) of
                None \<Rightarrow> Inl (Refused ''TEAM_NOT_FOUND'')
              | Some (p, lead) \<Rightarrow>
                  bindR (journal_state p (la_events lead)) (\<lambda>st.
                  bindR (team (resolve_membership st i)) (\<lambda>actor. Inr (p, actor)))))))"

definition require_lead :: "(string, live_agent) jsmap \<Rightarrow> string \<Rightarrow> nat \<Rightarrow> (service_error, string \<times> actor_ref) result" where
  "require_lead agents i object =
     bindR (authority agents i object) (\<lambda>(lead, actor). refuse (\<not> is_lead actor) ''TEAM_LEAD_REQUIRED'' (Inr (lead, actor)))"

definition try_membership :: "(string, live_agent) jsmap \<Rightarrow> string \<Rightarrow> nat \<Rightarrow> actor_ref option" where
  "try_membership agents i object = (case authority agents i object of Inl _ \<Rightarrow> None | Inr (_, actor) \<Rightarrow> Some actor)"

text \<open>Who may create a run: a live Agent that is not an expert of another run.\<close>

definition create_authority :: "(string, live_agent) jsmap \<Rightarrow> string \<Rightarrow> nat \<Rightarrow> (service_error, unit) result" where
  "create_authority agents i object =
     refuse (\<not> (case map_get agents i of None \<Rightarrow> False | Some a \<Rightarrow> la_object a = object)) ''TEAM_NOT_MEMBER''
     (refuse (case try_membership agents i object of None \<Rightarrow> False | Some actor \<Rightarrow> \<not> is_lead actor) ''TEAM_LEAD_REQUIRED''
     (Inr ()))"

text \<open>The reads of a member: the current snapshot, one task, the live tasks and one artifact.\<close>

definition get_run :: "(string, live_agent) jsmap \<Rightarrow> string \<Rightarrow> nat \<Rightarrow> (service_error, team_snapshot) result" where
  "get_run agents i object =
     bindR (authority agents i object) (\<lambda>(lead, actor).
     bindR (journal_state lead (case map_get agents lead of None \<Rightarrow> [] | Some a \<Rightarrow> la_events a)) snap)"

definition get_task :: "team_state \<Rightarrow> string \<Rightarrow> (service_error, task_view) result" where
  "get_task st i =
     (case map_get (ts_tasks st) i of
        None \<Rightarrow> Inl (Refused ''TEAM_TASK_NOT_FOUND'')
      | Some t \<Rightarrow> Inr (project_task st t))"

definition list_tasks :: "team_state \<Rightarrow> task_view list" where
  "list_tasks st = map (project_task st) (current_tasks st)"

definition read_artifact :: "team_state \<Rightarrow> string \<Rightarrow> (service_error, team_artifact) result" where
  "read_artifact st i =
     (case map_get (ts_artifacts st) i of None \<Rightarrow> Inl (Refused ''TEAM_ARTIFACT_NOT_FOUND'') | Some a \<Rightarrow> Inr a)"

subsection \<open>Interleaving\<close>

text \<open>
  One Lead: the log of its Session and the commands queued by \<open>transact\<close>. A caller's authority is
  resolved when it calls; the command runs when the queue reaches it, on the log of that moment.
  Between commands the Session logs whatever else happens: events of other kinds and of other runs.
\<close>

record team_world =
  tw_events :: "team_event list"
  tw_queue :: "(actor_ref \<times> team_command) list"

definition foreign_event :: "string \<Rightarrow> team_event \<Rightarrow> bool" where
  "foreign_event lead e \<longleftrightarrow>
     (case te_content e of
        NotTeam \<Rightarrow> True
      | OtherVersion run _ \<Rightarrow> run \<noteq> lead
      | Payload p \<Rightarrow> tp_run p \<noteq> lead
      | _ \<Rightarrow> False)"

inductive world_step :: "run_policy \<Rightarrow> string \<Rightarrow> team_world \<Rightarrow> team_world \<Rightarrow> bool" for policy lead where
  call: "fold_team_run lead (tw_events w) = Inr st \<Longrightarrow> resolve_membership st session = Inr actor \<Longrightarrow>
    (lead_only cmd \<longrightarrow> is_lead actor) \<Longrightarrow>
    world_step policy lead w (w\<lparr>tw_queue := tw_queue w @ [(actor, cmd)]\<rparr>)"
| create: "run_create policy lead env (tw_events w) rq = (es, r) \<Longrightarrow> world_step policy lead w (w\<lparr>tw_events := es\<rparr>)"
| run: "tw_queue w = (actor, cmd) # queue \<Longrightarrow> run_command lead env (tw_events w) actor cmd = (es, r) \<Longrightarrow>
    world_step policy lead w (w\<lparr>tw_events := es, tw_queue := queue\<rparr>)"
| other: "foreign_event lead e \<Longrightarrow> te_seq e = int (length (tw_events w)) \<Longrightarrow>
    world_step policy lead w (w\<lparr>tw_events := tw_events w @ [e]\<rparr>)"

inductive team_reach :: "run_policy \<Rightarrow> string \<Rightarrow> team_world \<Rightarrow> bool" for policy lead where
  start: "team_reach policy lead \<lparr>tw_events = [], tw_queue = []\<rparr>"
| step: "team_reach policy lead w \<Longrightarrow> world_step policy lead w w' \<Longrightarrow> team_reach policy lead w'"

definition replayable :: "string \<Rightarrow> team_event list \<Rightarrow> bool" where
  "replayable lead es \<longleftrightarrow> is_ok (fold_team_run lead es) \<and> map te_seq es = map int [0..<length es]"

lemma stamp_length [simp]: "length (stamp base clock ps) = length ps"
  by (simp add: stamp_def)

lemma stamp_seqs: "map te_seq (stamp base clock ps) = map int [base..<base + length ps]"
  by (rule nth_equalityI) (simp_all add: stamp_def)

lemma stamp_undated: "map (te_time_update (\<lambda>_. 0)) (stamp base clock ps) = map (te_time_update (\<lambda>_. 0)) (stamp base clock' ps)"
  by (rule nth_equalityI) (simp_all add: stamp_def)

lemma replayable_append:
  assumes "replayable lead es" and "map te_seq fs = map int [length es..<length es + length fs]"
    and "fold_team_run lead es = Inr st" and "is_ok (foldR apply_team_event st fs)"
  shows "replayable lead (es @ fs)"
  using assms by (simp add: replayable_def fold_team_run_def foldR_append upt_add_eq_append [of 0])

lemma commit_replayable:
  assumes ok: "replayable lead es" and st: "fold_team_run lead es = Inr st"
    and commit: "team_commit env es st bodies = (es', r)"
  shows "replayable lead es' \<and> (\<forall>e. r = Inl e \<and> e \<noteq> FlushFailed \<longrightarrow> es' = es)"
proof (cases "bodies = []")
  case True
  with ok commit show ?thesis by (simp add: team_commit_def)
next
  case False
  define ps where "ps = payloads env st bodies"
  show ?thesis
  proof (cases "foldR apply_team_event st (stamp (length es) (en_staged env) ps)")
    case (Inl e)
    with False ok commit show ?thesis by (auto simp: team_commit_def ps_def)
  next
    case (Inr st')
    have "is_ok (foldR apply_team_event st (stamp (length es) (en_clock env) ps))"
      using undated_fold [OF stamp_undated, of st st "length es" "en_staged env" ps "en_clock env"] Inr undate_is_ok by (metis is_ok_simps(1))
    moreover have "map te_seq (stamp (length es) (en_clock env) ps) = map int [length es..<length es + length (stamp (length es) (en_clock env) ps)]"
      by (simp add: stamp_seqs)
    ultimately have "replayable lead (es @ stamp (length es) (en_clock env) ps)"
      by (intro replayable_append [OF ok _ st])
    with False Inr commit show ?thesis by (auto simp: team_commit_def ps_def Let_def split: if_splits)
  qed
qed

lemma command_replayable:
  assumes "replayable lead es" and "run_command lead env es actor cmd = (es', r)"
  shows "replayable lead es' \<and> (\<forall>e. r = Inl e \<and> e \<noteq> FlushFailed \<longrightarrow> es' = es)"
  using assms commit_replayable [OF assms(1)]
  by (fastforce simp: run_command_def replayable_def is_ok_iff split: sum.splits)

lemma create_replayable:
  assumes "replayable lead es" and "run_create policy lead env es rq = (es', r)"
  shows "replayable lead es'"
  using assms commit_replayable [OF assms(1)]
  by (fastforce simp: run_create_def replayable_def is_ok_iff split: sum.splits)

lemma foreign_ignored: "foreign_event (ts_id st) e \<Longrightarrow> apply_team_event st e = Inr st"
  by (auto simp: foreign_event_def apply_team_event_def split: team_content.splits)

lemma reach_replayable: "team_reach policy lead w \<Longrightarrow> replayable lead (tw_events w)"
proof (induction rule: team_reach.induct)
  case start
  show ?case by (simp add: replayable_def fold_team_run_def)
next
  case (step w w')
  from step.hyps(2) show ?case
  proof (cases rule: world_step.cases)
    case (call st session actor cmd)
    with step.IH show ?thesis by simp
  next
    case (create env rq es r)
    with create_replayable [OF step.IH] show ?thesis by simp
  next
    case (run actor cmd queue env es r)
    with command_replayable [OF step.IH] show ?thesis by simp
  next
    case (other e)
    from step.IH obtain st where st: "fold_team_run lead (tw_events w) = Inr st" by (auto simp: replayable_def is_ok_iff)
    have "ts_id st = lead" using fold_team_run_invariants(4) [OF st] by (simp add: identity_ok_def)
    with other have "apply_team_event st e = Inr st" by (simp add: foreign_ignored)
    with other step.IH st show ?thesis by (simp add: replayable_append)
  qed
qed

subsection \<open>What a snapshot shows the commands\<close>

lemma refuse_Inr [result_simps]: "refuse bad code k = Inr x \<longleftrightarrow> \<not> bad \<and> k = Inr x"
  by (simp add: refuse_def result_simps)

lemma team_Inr [result_simps]: "team r = Inr x \<longleftrightarrow> r = Inr x"
  by (simp add: team_def mapError_Inr)

lemma fold_challenges_ok: "fold_team_run i es = Inr st \<Longrightarrow> challenges_ok st"
  unfolding fold_team_run_def by (rule challenge_log.hist_fold)

lemma replayed_created:
  assumes "fold_team_run i es = Inr st" and "ts_created st = Some c"
  shows "require_created st = Inr c"
  using fold_team_run_invariants(1) [OF assms(1)] assms(2) by (simp add: roster_ok_def require_created_Inr)

lemma snap_replayed:
  assumes "fold_team_run i es = Inr st" and "ts_created st = Some c"
  obtains sn where "snap st = Inr sn" and "sn_created sn = c" and "sn_lead sn = LeadActor (cr_lead c)"
    and "sn_messages sn = messages st" and "sn_members sn = members st" and "sn_gates sn = gates st"
    and "sn_decisions sn = decisions st" and "sn_tasks sn = map (project_task st) (current_tasks st)"
    and "sn_artifacts sn = map (\<lambda>a. a\<lparr>ar_body := []\<rparr>) (artifact_values st)"
    and "protocol_snapshot st = Inr (sn_protocol sn)"
proof -
  have "is_ok (snapshot st)" using assms by (simp add: snapshot_is_ok replayed_created fold_challenges_ok)
  then obtain sn where sn: "snapshot st = Inr sn" by (auto simp: is_ok_iff)
  with replayed_created [OF assms] show thesis
    by (intro that [of sn]) (auto simp: snapshot_def snap_def result_simps split: option.splits)
qed

lemma project_task_fields [simp]: "tk_id (project_task st t) = tk_id t" "tk_status (project_task st t) = tk_status t"
  by (simp_all add: project_task_def team_task.defs task_view.defs)

lemma bodiless_fields [simp]:
  "ar_id (a\<lparr>ar_body := b\<rparr>) = ar_id a" "ar_status (a\<lparr>ar_body := b\<rparr>) = ar_status a" "ar_tasks (a\<lparr>ar_body := b\<rparr>) = ar_tasks a"
  by simp_all

subsection \<open>The guards of messages agree with the replay\<close>

lemma admit_expert_exact:
  assumes "require_created st = Inr c" and "sm_kind m \<notin> {KDecision, KFinalDelivery}"
  shows "admit_expert st pt i (LeadActor (cr_lead c)) (sm_kind m) (sm_targets m) = Inr () \<longleftrightarrow> assert_expert_author st pt i m = Inr ()"
proof (cases "Option.bind (Option.bind (map_get (ts_members st) i) mb_slot) (protocol_rule pt)")
  case None
  then show ?thesis by (simp add: admit_expert_def assert_expert_author_def)
next
  case (Some rule)
  have kinds: "(\<not> (case sm_kind m of KChallenge \<Rightarrow> pr_challenge (ru_permissions rule) | KReview \<Rightarrow> pr_review (ru_permissions rule)
       | KRequestHelp \<Rightarrow> pr_request_help (ru_permissions rule) | _ \<Rightarrow> True)) \<longleftrightarrow>
     (sm_kind m = KChallenge \<and> \<not> pr_challenge (ru_permissions rule)) \<or> (sm_kind m = KReview \<and> \<not> pr_review (ru_permissions rule)) \<or>
     (sm_kind m = KRequestHelp \<and> \<not> pr_request_help (ru_permissions rule))"
    by (cases "sm_kind m") simp_all
  show ?thesis
    unfolding admit_expert_def assert_expert_author_def Some option.case kinds member_for_slot_def actor_key.simps Let_def
    using assms by (auto simp: result_simps)
qed

lemma admit_challenge_exact:
  "admit_challenge st pt (sm_author m) (sm_thread m) i t = Inr () \<longleftrightarrow> assert_challenge st pt m i t = Inr ()"
  by (auto simp: admit_challenge_def assert_challenge_def result_simps)

lemma admit_response_exact:
  "admit_response st (sm_author m) (sm_thread m) i t = Inr () \<longleftrightarrow> assert_response st m i t = Inr ()"
  by (auto simp: admit_response_def assert_response_def result_simps split: option.splits list.splits)

text \<open>The protocol rules, on their own: the two copies of them agree.\<close>

lemma protocol_admission_exact:
  assumes replayed: "fold_team_run i es = Inr st" and created: "ts_created st = Some c"
    and kind: "is_lead (sm_author m) \<or> sm_kind m \<notin> {KDecision, KFinalDelivery}"
  shows "protocol_admission st (sm_author m) (sm_kind m) (sm_thread m) (sm_refs m) (sm_targets m) = Inr () \<longleftrightarrow>
    assert_protocol_message st m = Inr ()"
proof (cases "ts_protocol st")
  case None
  then show ?thesis by (simp add: protocol_admission_def assert_protocol_message_def)
next
  case (Some pt)
  from snap_replayed [OF replayed created] obtain sn where sn: "snap st = Inr sn" "sn_lead sn = LeadActor (cr_lead c)" by metis
  have author: "(case author_member (sm_author m) of None \<Rightarrow> Inr ()
        | Some k \<Rightarrow> admit_expert st pt k (sn_lead sn) (sm_kind m) (sm_targets m)) = Inr () \<longleftrightarrow>
      (case author_member (sm_author m) of None \<Rightarrow> Inr () | Some k \<Rightarrow> assert_expert_author st pt k m) = Inr ()"
    using kind admit_expert_exact [OF replayed_created [OF replayed created]] by (cases "sm_author m") (simp_all add: sn)
  show ?thesis
    using author unfolding protocol_admission_def assert_protocol_message_def Some option.case sn(1) bindR_simps
    by (auto simp: result_simps admit_challenge_exact admit_response_exact split: option.splits list.splits)
qed

text \<open>A name resolves to an actor the replay accepts; the replay wants each target once.\<close>

lemma resolved_actor:
  assumes replayed: "fold_team_run i es = Inr st" and created: "ts_created st = Some c"
    and name: "resolve_by_name st name = Inr t"
  shows "assert_actor st t = Inr ()"
proof (cases "trim name = ''lead''")
  case True
  with name created replayed_created [OF replayed created] show ?thesis
    by (auto simp: resolve_by_name_def lead_actor_def assert_actor_def result_simps)
next
  case False
  with name obtain m where m: "active_member st (ts_by_name st) (trim name) = Some m" "t = member_actor m"
    by (auto simp: resolve_by_name_def Let_def split: option.splits)
  then obtain k where k: "map_get (ts_members st) k = Some m" "mb_phase m = MemberActive"
    by (auto simp: active_member_def split: option.splits bind_splits if_splits)
  from fold_team_run_invariants(1) [OF replayed] have "member_indexed st k m"
    using map_of_SomeD [OF k(1)] by (auto simp: roster_ok_def)
  with k m replayed_created [OF replayed created] show ?thesis
    by (simp add: assert_actor_def member_actor_def member_indexed_def check_def result_simps)
qed

lemma resolved_targets:
  assumes "fold_team_run i es = Inr st" and "ts_created st = Some c"
    and "resolve_targets st names = Inr targets" and "t \<in> set targets"
  shows "assert_actor st t = Inr ()"
proof -
  from assms(3) have "mapR (resolve_by_name st) names = Inr targets" by (simp add: resolve_targets_def result_simps)
  with assms(4) obtain name where "resolve_by_name st name = Inr t"
    by (induction names arbitrary: targets) (auto simp: result_simps)
  then show ?thesis by (rule resolved_actor [OF assms(1,2)])
qed

lemma targets_checked:
  "is_ok (foldR (\<lambda>keys t. bindR (assert_actor st t) (\<lambda>_.
       check (List.member keys (actor_key t)) why (Inr (keys @ [actor_key t])))) ks ts) \<longleftrightarrow>
   (\<forall>t \<in> set ts. assert_actor st t = Inr ()) \<and> distinct (map actor_key ts) \<and> set ks \<inter> set (map actor_key ts) = {}"
proof (induction ts arbitrary: ks)
  case (Cons t ts)
  then show ?case by (auto simp: check_def throw_if_def result_simps is_ok_iff)
qed simp

lemma is_ok_bind_const: "is_ok (bindR r (\<lambda>_. k)) \<longleftrightarrow> is_ok r \<and> is_ok k"
  by (cases r) simp_all

lemma is_ok_unit: "is_ok (r :: ('e, unit) result) \<longleftrightarrow> r = Inr ()"
  by (simp add: is_ok_iff)

lemma apply_message_ok:
  assumes "require_created st = Inr c"
  shows "is_ok (apply_message st e event_id m) \<longleftrightarrow>
    \<not> phase_terminal st \<and> (sm_kind m = KStatus \<or> in_phase st [ActivePhase, Completing]) \<and>
    int (length (ts_messages st)) < po_max_messages (cr_policy c) \<and> \<not> map_has (ts_messages st) (sm_id m) \<and>
    int (byte_length (sm_content m)) \<le> po_max_message_bytes (cr_policy c) \<and>
    (trim (sm_content m) = sm_content m \<and> sm_content m \<noteq> [] \<and> int (length (sm_content m)) \<le> max_safe) \<and>
    (\<forall>i. rf_task (sm_refs m) = Some i \<longrightarrow> current_task st i) \<and> assert_actor st (sm_author m) = Inr () \<and>
    ((\<forall>t \<in> set (sm_targets m). assert_actor st t = Inr ()) \<and> distinct (map actor_key (sm_targets m))) \<and>
    assert_protocol_message st m = Inr () \<and>
    (sm_kind m = KFinalDelivery \<longrightarrow> is_lead (sm_author m) \<and> ts_phase st = Some Completing)"
proof -
  have fin: "is_ok (Inr x :: (js_error, team_state) result)" for x by simp
  have none: "set [] \<inter> A = {}" for A :: "string set" by simp
  have tail: "\<not> (k \<noteq> KStatus \<and> \<not> p) \<longleftrightarrow> k = KStatus \<or> p" "\<not> (k = KFinalDelivery \<and> (\<not> a \<or> b)) \<longleftrightarrow> (k = KFinalDelivery \<longrightarrow> a \<and> \<not> b)"
    for k p a b by blast+
  have task: "\<not> (case t of None \<Rightarrow> False | Some i \<Rightarrow> \<not> current_task st i) \<longleftrightarrow> (\<forall>i. t = Some i \<longrightarrow> current_task st i)" for t
    by (cases t) simp_all
  show ?thesis
    unfolding apply_message_def assms bindR_simps is_ok_check is_ok_normal_text is_ok_bind_const targets_checked none
      is_ok_unit tail task not_le not_less not_not
    by (simp only: fin simp_thms conj_assoc)
qed

text \<open>What publishing asks of a request beyond the replay of its message.\<close>

definition public_rules :: "publish_request \<Rightarrow> actor_ref \<Rightarrow> actor_ref list \<Rightarrow> bool" where
  "public_rules rq author targets \<longleftrightarrow>
     pq_kind rq \<notin> {KDecision, KArtifact, KFinalDelivery} \<and>
     (pq_kind rq \<noteq> KStatus \<longrightarrow> length targets = 1) \<and>
     (\<forall>t \<in> set targets. actor_key t \<noteq> actor_key author)"

subsection \<open>Completion\<close>

definition artifacts_keyed :: "team_state \<Rightarrow> bool" where
  "artifacts_keyed st \<longleftrightarrow> map_ok (ts_artifacts st) \<and> (\<forall>k a. (k, a) \<in> set (ts_artifacts st) \<longrightarrow> ar_id a = k)"

lemma artifacts_keyed_body:
  assumes "artifacts_keyed st" and "apply_body st e p = Inr st'"
  shows "artifacts_keyed st'"
  using assms(2)
proof (cases rule: apply_body_cases)
  case (artifact a)
  from apply_artifact_Inr [OF artifact]
  have st': "ts_artifacts st' = map_set (ar_id a) (stored_artifact.extend a (team_artifact.fields (te_time e))) (ts_artifacts st)"
    by auto
  have id: "ar_id (stored_artifact.extend a x) = ar_id a" for x by (simp add: stored_artifact.defs)
  have "ar_id b = k" if "(k, b) \<in> set (ts_artifacts st')" for k b
    using subsetD [OF set_map_set_subset that [unfolded st']] assms(1) id by (auto simp: artifacts_keyed_def)
  moreover have "map_ok (ts_artifacts st')" using assms(1) by (simp add: artifacts_keyed_def st')
  ultimately show ?thesis by (simp add: artifacts_keyed_def)
qed (use assms(1) in \<open>auto simp: artifacts_keyed_def dest!: apply_created_Inr apply_phase_Inr begin_member_Inr settle_member_Inr
    apply_task_Inr apply_message_Inr apply_protocol_Inr apply_decision_Inr apply_gate_Inr\<close>)

lemma artifacts_keyed_cong: "artifacts_keyed st \<Longrightarrow> ts_artifacts st' = ts_artifacts st \<Longrightarrow> artifacts_keyed st'"
  by (simp add: artifacts_keyed_def)

lemma artifacts_keyed_event: "artifacts_keyed st \<Longrightarrow> apply_team_event st e = Inr st' \<Longrightarrow> artifacts_keyed st'"
  by (erule (1) team_event_keeps [of artifacts_keyed]) (auto intro: artifacts_keyed_cong artifacts_keyed_body)

interpretation artifact_log: replay apply_team_event "empty_team_state i" "\<lambda>_. artifacts_keyed" for i
  by unfold_locales (simp add: artifacts_keyed_def empty_team_state_def, rule artifacts_keyed_event)

lemma accepted_in_snapshot:
  assumes "sn_artifacts sn = map (\<lambda>a. a\<lparr>ar_body := []\<rparr>) (artifact_values st)"
  shows "accepted_in sn (tk_id t) \<longleftrightarrow> has_accepted_artifact st t"
  unfolding accepted_in_def has_accepted_artifact_def accepted_for_def assms by (simp add: list_ex_iff)

lemma decided_in_snapshot:
  assumes "sn_artifacts sn = map (\<lambda>a. a\<lparr>ar_body := []\<rparr>) (artifact_values st)" and "sn_decisions sn = decisions st"
    and keyed: "artifacts_keyed st"
  shows "decided_in sn (tk_id t) \<longleftrightarrow> decision_covers st t"
proof -
  have "(\<exists>a \<in> set (artifact_values st). ar_id a = i \<and> accepted_for a t) \<longleftrightarrow>
      (case map_get (ts_artifacts st) i of None \<Rightarrow> False | Some a \<Rightarrow> accepted_for a t)" for i
  proof (cases "map_get (ts_artifacts st) i")
    case None
    then have "ar_id a \<noteq> i" if "a \<in> set (artifact_values st)" for a
      using that keyed by (force simp: artifacts_keyed_def map_of_eq_None_iff)
    with None show ?thesis by auto
  next
    case (Some a)
    have uniq: "b = a" if "b \<in> set (artifact_values st)" "ar_id b = i" for b
    proof -
      from that(1) obtain k where k: "(k, b) \<in> set (ts_artifacts st)" by auto
      with that(2) keyed have "map_get (ts_artifacts st) i = Some b" by (auto simp: artifacts_keyed_def intro: map_values_get)
      with Some show ?thesis by simp
    qed
    have "a \<in> set (artifact_values st)" "ar_id a = i"
      using map_of_SomeD [OF Some] map_get_values [OF Some] keyed by (simp_all add: artifacts_keyed_def)
    with uniq have "(\<exists>b \<in> set (artifact_values st). ar_id b = i \<and> accepted_for b t) \<longleftrightarrow> accepted_for a t" by metis
    with Some show ?thesis by simp
  qed
  then show ?thesis
    unfolding decided_in_def decision_covers_def assms(1,2) accepted_for_def by (simp add: list_ex_iff)
qed

definition all_answered :: "team_state \<Rightarrow> bool" where
  "all_answered st \<longleftrightarrow> (ts_protocol st = None \<or>
     (\<forall>q \<in> set (messages st). sm_kind q = KChallenge \<longrightarrow> has_response st (rf_challenge (sm_refs q))))"

lemma find_some: "(\<exists>x. find P xs = Some x) \<longleftrightarrow> list_ex P xs"
  by (induction xs) auto

lemma challenge_view_responded:
  "challenge_view st q = Inr v \<Longrightarrow> ch_responded v \<longleftrightarrow> has_response st (rf_challenge (sm_refs q))"
  by (auto simp: challenge_view_def has_response_def find_some Let_def split: option.splits list.splits)

lemma mapR_list_ex:
  "mapR f xs = Inr ys \<Longrightarrow> (\<And>x y. f x = Inr y \<Longrightarrow> P y = Q x) \<Longrightarrow> list_ex P ys = list_ex Q xs"
  by (induction xs arbitrary: ys) (auto simp: result_simps)

lemma open_challenge_snapshot:
  assumes "protocol_snapshot st = Inr p"
  shows "open_challenge p \<longleftrightarrow> \<not> all_answered st"
proof (cases "ts_protocol st")
  case None
  with assms show ?thesis by (auto simp: protocol_snapshot_def open_challenge_def all_answered_def)
next
  case (Some pt)
  with assms obtain qs where qs: "mapR (challenge_view st) (filter (\<lambda>m. sm_kind m = KChallenge) (messages st)) = Inr qs"
      and "open_challenge p \<longleftrightarrow> list_ex (\<lambda>q. \<not> ch_responded q) qs"
    by (auto simp: protocol_snapshot_def open_challenge_def result_simps)
  moreover have "list_ex (\<lambda>q. \<not> ch_responded q) qs \<longleftrightarrow>
      list_ex (\<lambda>q. \<not> has_response st (rf_challenge (sm_refs q))) (filter (\<lambda>m. sm_kind m = KChallenge) (messages st))"
    by (rule mapR_list_ex [OF qs]) (simp add: challenge_view_responded)
  ultimately show ?thesis using Some by (auto simp: all_answered_def list_ex_iff)
qed

text \<open>Without a protocol every active expert must have spoken.\<close>

definition all_spoke :: "team_state \<Rightarrow> bool" where
  "all_spoke st \<longleftrightarrow> (ts_protocol st \<noteq> None \<or>
     (\<forall>m \<in> set (members st). mb_phase m = MemberActive \<longrightarrow> authored_by st (mb_id m) \<noteq> []))"

text \<open>
  \<open>completeRun\<close> evaluates on the snapshot, guard by guard, what the controller calls ready.
\<close>

lemma complete_exact:
  assumes replayed: "fold_team_run i es = Inr st" and created: "ts_created st = Some c"
  shows "plan_complete_run fresh st lead rq = Inr bodies \<longleftrightarrow>
    ts_phase st = Some ActivePhase \<and> delivery_ready st \<and> all_answered st \<and> all_spoke st \<and>
    int (length (messages st)) < po_max_messages (cr_policy c) \<and>
    (\<exists>content. required_text (eq_content rq) max_safe = Inr content \<and>
      int (byte_length content) \<le> po_max_message_bytes (cr_policy c) \<and>
      bodies = [BPhase Completing None,
        BMessage \<lparr>sm_id = ''collaboration-message-'' @ fr_message fresh 0, sm_thread = eq_thread rq, sm_kind = KFinalDelivery,
          sm_author = lead, sm_targets = [], sm_refs = eq_refs rq, sm_content = content\<rparr>,
        BPhase CompletedPhase None])"
proof -
  from snap_replayed [OF assms] obtain sn where sn: "snap st = Inr sn" "sn_created sn = c" "sn_messages sn = messages st"
      "sn_members sn = members st" "sn_gates sn = gates st" "sn_decisions sn = decisions st"
      "sn_tasks sn = map (project_task st) (current_tasks st)"
      "sn_artifacts sn = map (\<lambda>a. a\<lparr>ar_body := []\<rparr>) (artifact_values st)" "protocol_snapshot st = Inr (sn_protocol sn)" by metis
  have keyed: "artifacts_keyed st" using replayed unfolding fold_team_run_def by (rule artifact_log.hist_fold)
  have spoke: "silent_experts sn = [] \<longleftrightarrow> (\<forall>m \<in> set (members st). mb_phase m = MemberActive \<longrightarrow> authored_by st (mb_id m) \<noteq> [])"
    by (auto simp: silent_experts_def sn authored_by_def filter_empty_conv list_ex_iff)
  have work: "work_evidence st sn k = Inr x \<and> review_evidence st sn \<longleftrightarrow>
      current_tasks st \<noteq> [] \<and> collaboration_evidence st \<and> all_spoke st \<and> k = Inr x" for k and x :: "team_body list"
    by (cases "ts_protocol st")
      (auto simp: work_evidence_def review_evidence_def collaboration_evidence_def all_spoke_def spoke sn has_kind_def
        result_simps list_ex_iff list_all_iff)
  have accepted: "\<not> list_ex (\<lambda>t. \<not> accepted_in sn (tk_id t)) (sn_tasks sn) \<longleftrightarrow> list_all (has_accepted_artifact st) (current_tasks st)"
    by (simp add: sn(7) list_ex_iff list_all_iff accepted_in_snapshot [OF sn(8)])
  have decided: "\<not> list_ex (\<lambda>t. \<not> decided_in sn (tk_id t)) (sn_tasks sn) \<longleftrightarrow> list_all (decision_covers st) (current_tasks st)"
    by (simp add: sn(7) list_ex_iff list_all_iff decided_in_snapshot [OF sn(8,6) keyed])
  have passed: "\<not> (sn_gates sn = [] \<or> list_ex (\<lambda>g. qg_status g \<noteq> GatePassed) (sn_gates sn)) \<longleftrightarrow>
      gates st \<noteq> [] \<and> list_all (\<lambda>g. qg_status g = GatePassed) (gates st)"
    by (simp add: sn list_ex_iff list_all_iff)
  have work_only: "work_evidence st sn k = Inr x \<longleftrightarrow> work_evidence st sn (Inr x) = Inr x \<and> k = Inr x" for k and x :: "team_body list"
    by (auto simp: work_evidence_def result_simps)
  show ?thesis
    unfolding plan_complete_run_def sn(1) bindR_simps refuse_Inr work_only [where k = "refuse b w k" for b w k] bindR_Inr team_Inr
    using work [of "Inr bodies" bodies] accepted decided passed open_challenge_snapshot [OF sn(9)]
    by (auto simp: delivery_ready_def sn not_le not_less)
qed

subsection \<open>A written command\<close>

text \<open>Fresh event identities, as \<open>randomUUID\<close> provides them: none is in the log, no two are the same.\<close>

definition fresh_events :: "command_env \<Rightarrow> team_state \<Rightarrow> nat \<Rightarrow> bool" where
  "fresh_events env st n \<longleftrightarrow> inj_on (fr_event env) {..<n} \<and>
     (\<forall>k < n. map_get (ts_signatures st) (''collaboration-event-'' @ fr_event env k) = None)"

lemma team_commit_Inr:
  assumes ok: "replayable lead es" and st: "fold_team_run lead es = Inr st" and commit: "team_commit env es st bodies = (es', Inr ())"
    and "bodies \<noteq> []"
  obtains st' where "fold_team_run lead es' = Inr st'"
    and "foldR apply_team_event st (stamp (length es) (en_clock env) (payloads env st bodies)) = Inr st'"
proof -
  have es': "es' = es @ stamp (length es) (en_clock env) (payloads env st bodies)"
    using commit assms(4) by (auto simp: team_commit_def Let_def split: sum.splits if_splits)
  have "is_ok (fold_team_run lead es')" using commit_replayable [OF ok st commit] by (simp add: replayable_def)
  then obtain st' where st': "fold_team_run lead es' = Inr st'" by (auto simp: is_ok_iff)
  moreover from st' have "foldR apply_team_event st (stamp (length es) (en_clock env) (payloads env st bodies)) = Inr st'"
    using st by (simp add: fold_team_run_def foldR_append es')
  ultimately show thesis by (rule that)
qed

lemma fresh_event_applied:
  assumes "apply_team_event st e = Inr st'" and "te_content e = Payload p"
    and "tp_run p = ts_id st" and "map_get (ts_signatures st) (tp_event p) = None"
  obtains st1 where "apply_body (st\<lparr>ts_cursor := te_seq e\<rparr>) e p = Inr st1" and "st' = record_payload st1 e p"
  using assms by (auto simp: apply_team_event_def Let_def result_simps)

definition follows :: "team_state \<Rightarrow> team_payload \<Rightarrow> team_state \<Rightarrow> bool" where
  "follows st p st' \<longleftrightarrow> ts_id st' = ts_id st \<and> ts_signatures st' = map_set (tp_event p) p (ts_signatures st)"

lemma phase_allowed_cursor [simp]: "phase_allowed (st\<lparr>ts_cursor := n\<rparr>) c p q = phase_allowed st c p q"
  by (cases q) (simp_all add: phase_allowed_def exact_team_ready_def count_phase_def)

lemma fresh_phase_event:
  assumes "apply_team_event st e = Inr st'" and "te_content e = Payload p"
    and "tp_run p = ts_id st" and "map_get (ts_signatures st) (tp_event p) = None" and body: "tp_body p = BPhase phase failure"
  shows "follows st p st' \<and> messages st' = messages st \<and> ts_phase st' = Some phase \<and>
    (\<exists>c current. ts_created st = Some c \<and> phase_allowed st c current phase)"
proof -
  from fresh_event_applied [OF assms(1-4)] obtain st1 where
      "apply_body (st\<lparr>ts_cursor := te_seq e\<rparr>) e p = Inr st1" and st': "st' = record_payload st1 e p" by blast
  with body have "apply_phase (st\<lparr>ts_cursor := te_seq e\<rparr>) phase failure = Inr st1" by (simp add: apply_body_def result_simps)
  from apply_phase_Inr [OF this] show ?thesis
    by (auto simp: st' follows_def)
qed

lemma fresh_message_event:
  assumes "apply_team_event st e = Inr st'" and "te_content e = Payload p"
    and "tp_run p = ts_id st" and "map_get (ts_signatures st) (tp_event p) = None" and body: "tp_body p = BMessage m"
  shows "follows st p st' \<and> (\<exists>pm. messages st' = messages st @ [pm] \<and> stored_as m pm)"
proof -
  from fresh_event_applied [OF assms(1-4)] obtain st1 where
      "apply_body (st\<lparr>ts_cursor := te_seq e\<rparr>) e p = Inr st1" and st': "st' = record_payload st1 e p" by blast
  with body have "apply_message (st\<lparr>ts_cursor := te_seq e\<rparr>) e (tp_event p) m = Inr st1" by (simp add: apply_body_def result_simps)
  from message_appended [OF this] show ?thesis by (auto simp: st' follows_def)
qed

lemma completion_batch:
  assumes batch: "foldR apply_team_event st (stamp base clock (payloads env st
      [BPhase Completing None, BMessage m, BPhase CompletedPhase None])) = Inr st'"
    and fresh: "fresh_events env st 3" and c: "ts_created st = Some c"
  shows "ts_phase st' = Some CompletedPhase \<and> exact_team_ready st c \<and>
    (\<exists>pm. messages st' = messages st @ [pm] \<and> stored_as m pm)"
proof -
  define p where "p = (\<lambda>k b. payload (fresh_ids.truncate env) (ts_id st) (ts_revision st + 1 + int k) k b)"
  define e where "e = (\<lambda>k b. \<lparr>te_seq = int (base + k), te_time = clock k, te_content = Payload (p k b)\<rparr>)"
  have stamped: "stamp base clock (payloads env st [b0, b1, b2]) = [e 0 b0, e 1 b1, e 2 b2]" for b0 b1 b2
    by (simp add: stamp_def payloads_def p_def e_def upt_rec eval_nat_numeral)
  have p: "tp_run (p k b) = ts_id st" "tp_event (p k b) = ''collaboration-event-'' @ fr_event env k" "tp_body (p k b) = b"
    and content: "te_content (e k b) = Payload (p k b)" for k b
    by (simp_all add: p_def payload_def fresh_ids.defs e_def)
  have unused: "map_get (ts_signatures st) (tp_event (p k b)) = None" if "k < 3" for k b
    using fresh that by (simp add: p fresh_events_def)
  have differ: "tp_event (p k b) \<noteq> tp_event (p l d)" if "k < 3" "l < 3" "k \<noteq> l" for k l b d
    using fresh that by (auto simp: p fresh_events_def inj_on_def)
  from batch obtain s1 s2 where s1: "apply_team_event st (e 0 (BPhase Completing None)) = Inr s1"
      and s2: "apply_team_event s1 (e 1 (BMessage m)) = Inr s2"
      and s3: "apply_team_event s2 (e 2 (BPhase CompletedPhase None)) = Inr st'"
    unfolding stamped by (auto simp: result_simps)
  have k1: "follows st (p 0 (BPhase Completing None)) s1" "messages s1 = messages st" "exact_team_ready st c"
    using fresh_phase_event [OF s1 content p(1) unused p(3)] c by (auto simp: phase_allowed_def)
  then have "map_get (ts_signatures s1) (tp_event (p 1 (BMessage m))) = None" "tp_run (p 1 (BMessage m)) = ts_id s1"
    using unused [of 1] differ [of 1 0] by (simp_all add: follows_def p(1))
  from fresh_message_event [OF s2 content this(2,1) p(3)] k1 obtain pm where
      k2: "follows s1 (p 1 (BMessage m)) s2" "messages s2 = messages st @ [pm]" "stored_as m pm" by auto
  with k1 have "map_get (ts_signatures s2) (tp_event (p 2 (BPhase CompletedPhase None))) = None"
      "tp_run (p 2 (BPhase CompletedPhase None)) = ts_id s2"
    using unused [of 2] differ [of 2 0] differ [of 2 1] by (simp_all add: follows_def p(1))
  from fresh_phase_event [OF s3 content this(2,1) p(3)] k1(3) k2 show ?thesis by simp
qed

subsection \<open>Properties\<close>

text \<open>
  C27. The log of a run can always be replayed. However calls, queued commands, creations and
  foreign events interleave, and whatever clock readings the appends get, the log of the Lead's
  Session is accepted by the strict replay and its sequence numbers are contiguous; and a
  command that is refused, by its own guards or by the replay, has written nothing.
\<close>

theorem team_service_replayable:
  assumes "team_reach policy lead w"
  shows "(\<exists>st. fold_team_run lead (tw_events w) = Inr st) \<and>
    map te_seq (tw_events w) = map int [0..<length (tw_events w)] \<and>
    (run_command lead env (tw_events w) actor cmd = (es, Inl e) \<and> e \<noteq> FlushFailed \<longrightarrow> es = tw_events w)"
  using reach_replayable [OF assms] command_replayable [OF reach_replayable [OF assms], of env actor cmd es "Inl e"]
  by (auto simp: replayable_def is_ok_iff)

text \<open>
  C28. What a member may publish is what the replay accepts, less what only public publishing
  refuses. On a replayed run, a request whose targets resolve is admitted by the service, from a
  current member of the team and without a repeated target, exactly when the replay accepts the
  planned message - in all its rules: message budget, size and text, phase, task reference, actors
  and the protocol (permissions, topology, challenge rounds, response participants) - and the
  request obeys the rules of public publishing: not a kind of the ledgers, exactly one recipient
  unless a status, and never the author itself.
\<close>

theorem message_admission_exact:
  assumes replayed: "fold_team_run i es = Inr st" and created: "ts_created st = Some c"
    and targets: "resolve_targets st (pq_targets rq) = Inr targets"
    and m: "m = \<lparr>sm_id = ''collaboration-message-'' @ fr_message fresh k, sm_thread = pq_thread rq, sm_kind = pq_kind rq,
      sm_author = author, sm_targets = targets, sm_refs = pq_refs rq, sm_content = trim (pq_content rq)\<rparr>"
    and unused: "\<not> map_has (ts_messages st) (sm_id m)"
  shows "plan_message fresh k st author rq = Inr (BMessage m) \<and> assert_actor st author = Inr () \<and>
      distinct (map actor_key targets) \<longleftrightarrow>
    public_rules rq author targets \<and> is_ok (apply_message st e event_id m)"
proof -
  from snap_replayed [OF replayed created] obtain sn where sn: "snap st = Inr sn" "sn_created sn = c" "sn_messages sn = messages st"
    by metis
  have req: "require_created st = Inr c" by (rule replayed_created [OF replayed created])
  then have phase: "ts_phase st \<noteq> None" by (auto simp: require_created_Inr)
  have terminal: "phase_terminal st \<longleftrightarrow> in_phase st [CompletedPhase, FormationFailed, FailedPhase, CancelledPhase]"
    using phase by (auto simp: phase_terminal_def is_terminal_def)
  define text_good where "text_good \<longleftrightarrow> trim (pq_content rq) \<noteq> [] \<and> int (length (trim (pq_content rq))) \<le> max_safe"
  define common where "common \<longleftrightarrow>
      int (length (ts_messages st)) < po_max_messages (cr_policy c) \<and> text_good \<and>
      int (byte_length (trim (pq_content rq))) \<le> po_max_message_bytes (cr_policy c) \<and>
      \<not> phase_terminal st \<and> (pq_kind rq = KStatus \<or> in_phase st [ActivePhase, Completing]) \<and>
      (case rf_task (pq_refs rq) of None \<Rightarrow> True | Some i \<Rightarrow> current_task st i)"
  have service: "plan_message fresh k st author rq = Inr (BMessage m) \<longleftrightarrow> common \<and> public_rules rq author targets \<and>
      protocol_admission st author (pq_kind rq) (pq_thread rq) (pq_refs rq) targets = Inr ()"
    unfolding plan_message_def message_admission_def common_def text_good_def public_rules_def terminal
    using targets phase
    by (auto simp: m sn result_simps required_text_Inr not_le not_less list_ex_iff split: option.splits)
  have replay: "is_ok (apply_message st e event_id m) \<longleftrightarrow> common \<and> assert_actor st author = Inr () \<and>
      distinct (map actor_key targets) \<and> assert_protocol_message st m = Inr ()"
    if "pq_kind rq \<noteq> KFinalDelivery"
    using that unused resolved_targets [OF replayed created targets]
    unfolding apply_message_ok [OF req] common_def text_good_def
    by (auto simp: m split: option.splits)
  have "public_rules rq author targets \<Longrightarrow>
      protocol_admission st author (pq_kind rq) (pq_thread rq) (pq_refs rq) targets = Inr () \<longleftrightarrow> assert_protocol_message st m = Inr ()"
    using protocol_admission_exact [OF replayed created, of m] by (auto simp: m public_rules_def)
  with service replay show ?thesis by (auto simp: public_rules_def)
qed

text \<open>
  C29. Delivery needs its evidence: when \<open>completeRun\<close> returns, the run is completed with the final
  delivery as its last message, and at that moment the controller called it ready (work and
  review evidence, an accepted artifact and an accepting decision for every task, every quality
  gate passed), every challenge had its response, and exactly the planned experts were active.
\<close>

theorem complete_run_delivers:
  assumes ok: "replayable lead es" and st: "fold_team_run lead es = Inr st" and c: "ts_created st = Some c"
    and returns: "run_command lead env es actor (CComplete rq) = (es', Inr ())" and fresh: "fresh_events env st 3"
  shows "\<exists>st'. fold_team_run lead es' = Inr st' \<and> ts_phase st' = Some CompletedPhase \<and>
    delivery_ready st \<and> all_answered st \<and> all_spoke st \<and> exact_team_ready st c \<and>
    (\<exists>m. messages st' = messages st @ [m] \<and> sm_kind m = KFinalDelivery \<and> sm_author m = actor)"
proof -
  from returns st obtain bodies where plan: "plan_complete_run (fresh_ids.truncate env) st actor rq = Inr bodies"
      and commit: "team_commit env es st bodies = (es', Inr ())"
    by (auto simp: run_command_def plan_command_def split: sum.splits)
  from complete_exact [OF st c, THEN iffD1, OF plan] obtain m where ready: "delivery_ready st" "all_answered st" "all_spoke st"
      and bodies: "bodies = [BPhase Completing None, BMessage m, BPhase CompletedPhase None]"
      and m: "sm_kind m = KFinalDelivery" "sm_author m = actor" by auto
  from team_commit_Inr [OF ok st commit] obtain st' where st': "fold_team_run lead es' = Inr st'"
      and batch: "foldR apply_team_event st (stamp (length es) (en_clock env) (payloads env st bodies)) = Inr st'"
    by (auto simp: bodies)
  from completion_batch [OF batch [unfolded bodies] fresh c] ready st' m show ?thesis by (auto simp: stored_as_def)
qed

subsection \<open>Witnesses\<close>

definition sample_env :: command_env where
  "sample_env = \<lparr>fr_event = (\<lambda>k. ''e'' @ show_nat k), fr_message = (\<lambda>k. ''m'' @ show_nat k), fr_artifact = ''a'', fr_decision = ''d'',
     en_staged = (\<lambda>k. 500), en_clock = (\<lambda>k. 700 + int k), en_flush = True\<rparr>"

definition sample_create_run :: create_run_request where
  "sample_create_run = \<lparr>rr_objective = '' ship '', rr_complexity = SimpleRun, rr_planned = 1\<rparr>"

lemma team_service_replayable_witness:
  "case run_create sample_policy ''L'' sample_env [] sample_create_run of
     (es, r) \<Rightarrow> r = Inr () \<and> (\<exists>st. fold_team_run ''L'' es = Inr st) \<and>
       run_command ''L'' sample_env es (LeadActor ''L'') (CChangePhase 7 Planning) = (es, Inl (Refused ''STALE_REVISION''))"
proof -
  obtain es r where run: "run_create sample_policy ''L'' sample_env [] sample_create_run = (es, r)" by (cases "run_create sample_policy ''L'' sample_env [] sample_create_run")
  have "world_step sample_policy ''L'' \<lparr>tw_events = [], tw_queue = []\<rparr> (\<lparr>tw_events = [], tw_queue = []\<rparr>\<lparr>tw_events := es\<rparr>)"
    by (rule world_step.create [where env = sample_env and rq = sample_create_run and r = r]) (simp add: run)
  with team_reach.start have "team_reach sample_policy ''L'' (\<lparr>tw_events = [], tw_queue = []\<rparr>\<lparr>tw_events := es\<rparr>)"
    by (rule team_reach.step)
  note reach = team_service_replayable [OF this]
  have "case run_create sample_policy ''L'' sample_env [] sample_create_run of (es, r) \<Rightarrow> r = Inr () \<and>
      snd (run_command ''L'' sample_env es (LeadActor ''L'') (CChangePhase 7 Planning)) = Inl (Refused ''STALE_REVISION'')"
    by code_simp
  then show ?thesis
    using reach [of sample_env "LeadActor ''L''" "CChangePhase 7 Planning" _ "Refused ''STALE_REVISION''"]
    by (cases "run_command ''L'' sample_env es (LeadActor ''L'') (CChangePhase 7 Planning)") (auto simp: run)
qed

definition sample_publish :: publish_request where
  "sample_publish = \<lparr>pq_kind = KResponse, pq_thread = ''main'', pq_targets = ['' ada ''], pq_refs = sm_refs sample_challenge,
     pq_content = '' because ''\<rparr>"

definition sample_answer :: stored_message where
  "sample_answer = sample_challenge\<lparr>sm_id := ''collaboration-message-m0'', sm_kind := KResponse, sm_author := LeadActor ''L'',
     sm_targets := [ExpertActor ''m1'' ''s1'' ''ada''], sm_content := ''because''\<rparr>"

lemma message_admission_exact_witness:
  "plan_message (fresh_ids.truncate sample_env) 0 sample_run (LeadActor ''L'') sample_publish = Inr (BMessage sample_answer)"
proof -
  have created: "ts_created sample_run = Some sample_created_run" by code_simp
  have targets: "resolve_targets sample_run (pq_targets sample_publish) = Inr [ExpertActor ''m1'' ''s1'' ''ada'']" by code_simp
  have m: "sample_answer = \<lparr>sm_id = ''collaboration-message-'' @ fr_message (fresh_ids.truncate sample_env) 0,
      sm_thread = pq_thread sample_publish, sm_kind = pq_kind sample_publish, sm_author = LeadActor ''L'',
      sm_targets = [ExpertActor ''m1'' ''s1'' ''ada''], sm_refs = pq_refs sample_publish,
      sm_content = trim (pq_content sample_publish)\<rparr>" by code_simp
  have unused: "\<not> map_has (ts_messages sample_run) (sm_id sample_answer)" by code_simp
  have "public_rules sample_publish (LeadActor ''L'') [ExpertActor ''m1'' ''s1'' ''ada'']"
    by (simp add: public_rules_def sample_publish_def)
  moreover have "is_ok (apply_message sample_run \<lparr>te_seq = 9, te_time = 109, te_content = NotTeam\<rparr> ''9'' sample_answer)" by code_simp
  ultimately show ?thesis
    using message_admission_exact [OF sample_run_fold created targets m unused] by blast
qed

definition sample_deliverable :: "team_body list" where
  "sample_deliverable =
     (let expert = ExpertActor ''m1'' ''s1'' ''ada''; refs = no_refs\<lparr>rf_task := Some ''task-1'', rf_artifact := Some ''a1''\<rparr>;
          member = (\<lambda>ph. (sample_member ph)\<lparr>mb_slot := None\<rparr>);
          task = (\<lambda>n s. (sample_task ''task-1'' [])\<lparr>tk_revision := n, tk_status := s, tk_owner := Some expert\<rparr>);
          gate = \<lparr>qg_id = ''quality-gate-1'', qg_version = 1, qg_name = ''g'', qg_status = GatePending, qg_reviewer = None,
            qg_task = None, qg_artifact = None, qg_summary = []\<rparr>;
          message = (\<lambda>i k a t. \<lparr>sm_id = i, sm_thread = ''main'', sm_kind = k, sm_author = a, sm_targets = [t], sm_refs = refs,
            sm_content = ''ok''\<rparr>)
      in [BCreated sample_created_run, BPhase Planning None, BGate gate, BPhase Provisioning None,
          BMember (member MemberProvisioning), BMember (member MemberActive), BPhase ActivePhase None,
          BTask (sample_task ''task-1'' []), BTask (task 2 TaskInProgress), BTask (task 3 TaskCompleted),
          BArtifact \<lparr>ar_id = ''a1'', ar_version = 1, ar_kind = ''document'', ar_title = ''t'', ar_status = ArtifactAccepted,
            ar_author = expert, ar_tasks = [''task-1''], ar_media = ''text'', ar_body = ''b''\<rparr>,
          BMessage (message ''q1'' KCompletionRequest (LeadActor ''L'') expert),
          BMessage (message ''q2'' KReview expert (LeadActor ''L'')),
          BDecision \<lparr>dc_id = ''d1'', dc_version = 1, dc_subject = ''s'', dc_outcome = OutAccepted, dc_summary = ''s'',
            dc_rationale = ''r'', dc_tasks = [''task-1''], dc_artifacts = [''a1''], dc_lead = ''L''\<rparr>,
          BGate (gate\<lparr>qg_version := 2, qg_status := GatePassed, qg_reviewer := Some (LeadActor ''L''), qg_summary := ''fine''\<rparr>)])"

definition sample_delivery :: complete_request where
  "sample_delivery = \<lparr>eq_thread = ''main'', eq_refs = no_refs, eq_content = ''done''\<rparr>"

lemma sample_delivery_runs:
  "case fold_team_run ''L'' (team_log sample_deliverable) of
     Inl _ \<Rightarrow> False
   | Inr st \<Rightarrow> ts_created st = Some sample_created_run \<and> list_all (\<lambda>k. \<not> map_has (ts_signatures st) (''collaboration-event-e'' @ show_nat k)) [0, 1, 2]"
  by code_simp

lemma sample_delivery_returns:
  "snd (run_command ''L'' sample_env (team_log sample_deliverable) (LeadActor ''L'') (CComplete sample_delivery)) = Inr ()"
  by code_simp

lemma team_log_seqs: "map te_seq (team_log bs) = map int [0..<length (team_log bs)]"
  by (rule nth_equalityI) (simp_all add: team_log_def)

lemma complete_run_delivers_witness:
  "\<exists>st'. fold_team_run ''L'' (fst (run_command ''L'' sample_env (team_log sample_deliverable) (LeadActor ''L'') (CComplete sample_delivery))) = Inr st' \<and>
     ts_phase st' = Some CompletedPhase"
proof -
  define es where "es = team_log sample_deliverable"
  from sample_delivery_runs obtain st where st: "fold_team_run ''L'' es = Inr st" and c: "ts_created st = Some sample_created_run"
      and unused: "list_all (\<lambda>k. \<not> map_has (ts_signatures st) (''collaboration-event-e'' @ show_nat k)) [0, 1, 2]"
    by (auto simp: es_def split: sum.splits)
  have ok: "replayable ''L'' es" using st team_log_seqs by (simp add: replayable_def es_def)
  have "fresh_events sample_env st 3"
    using unused show_nat_inj by (auto simp: fresh_events_def sample_env_def inj_on_def eval_nat_numeral less_Suc_eq)
  moreover obtain es' where "run_command ''L'' sample_env es (LeadActor ''L'') (CComplete sample_delivery) = (es', Inr ())"
    using sample_delivery_returns by (metis es_def prod.collapse)
  ultimately show ?thesis using complete_run_delivers [OF ok st c] by (fastforce simp: es_def)
qed

end
