(* ===== verification/ScheduleTime.thy ===== *)
theory ScheduleTime
  imports JsText
begin

text \<open>
  The calendar of reminders (\<open>packages/schedule/schedule/src/domain.ts\<close>): UTC instants and their
  text, strict parsing of offset and local times, and the choice of an instant for a local time
  in a time zone. The calendar of \<open>Date\<close> is written as ECMAScript defines it; the time zone
  database behind \<open>Intl.DateTimeFormat\<close> is a parameter.
\<close>

subsection \<open>The calendar of Date\<close>

definition day_ms :: int where
  "day_ms = 86400000"

record calendar_parts =
  cp_year :: int
  cp_month :: int
  cp_day :: int
  cp_hour :: int
  cp_minute :: int
  cp_second :: int
  cp_ms :: int

text \<open>\<open>DayFromYear\<close>, and the year of a day: the last year that starts on or before it.\<close>

definition day_from_year :: "int \<Rightarrow> int" where
  "day_from_year y = 365 * (y - 1970) + (y - 1969) div 4 - (y - 1901) div 100 + (y - 1601) div 400"

definition is_leap :: "int \<Rightarrow> bool" where
  "is_leap y \<longleftrightarrow> y mod 4 = 0 \<and> (y mod 100 \<noteq> 0 \<or> y mod 400 = 0)"

definition year_of_day :: "int \<Rightarrow> int" where
  "year_of_day d =
     (let y = 1970 + (400 * d) div 146097 in
      if day_from_year (y + 1) \<le> d then y + 1 else if d < day_from_year y then y - 1 else y)"

text \<open>Days before a month, counted from 1, and the month of a day of the year.\<close>

definition month_start :: "bool \<Rightarrow> int \<Rightarrow> int" where
  "month_start leap m =
     (let n = (if leap then 1 else 0) in
      if m \<le> 1 then 0 else if m = 2 then 31 else if m = 3 then 59 + n else if m = 4 then 90 + n
      else if m = 5 then 120 + n else if m = 6 then 151 + n else if m = 7 then 181 + n
      else if m = 8 then 212 + n else if m = 9 then 243 + n else if m = 10 then 273 + n
      else if m = 11 then 304 + n else 334 + n)"

definition month_of :: "bool \<Rightarrow> int \<Rightarrow> int" where
  "month_of leap d =
     (if d < 31 then 1 else if d < month_start leap 3 then 2 else if d < month_start leap 4 then 3
      else if d < month_start leap 5 then 4 else if d < month_start leap 6 then 5
      else if d < month_start leap 7 then 6 else if d < month_start leap 8 then 7
      else if d < month_start leap 9 then 8 else if d < month_start leap 10 then 9
      else if d < month_start leap 11 then 10 else if d < month_start leap 12 then 11 else 12)"

text \<open>\<open>MakeDay\<close> with a month from 0, which carries a month out of range into the year.\<close>

definition make_day :: "int \<Rightarrow> int \<Rightarrow> int \<Rightarrow> int" where
  "make_day y m d =
     (let ym = y + m div 12 in day_from_year ym + month_start (is_leap ym) (m mod 12 + 1) + d - 1)"

text \<open>The UTC getters of an epoch, and the epoch of fields.\<close>

definition fields_of :: "int \<Rightarrow> calendar_parts" where
  "fields_of t =
     (let d = t div day_ms; r = t mod day_ms; y = year_of_day d; doy = d - day_from_year y;
          m = month_of (is_leap y) doy
      in \<lparr>cp_year = y, cp_month = m, cp_day = doy - month_start (is_leap y) m + 1,
          cp_hour = r div 3600000, cp_minute = r div 60000 mod 60, cp_second = r div 1000 mod 60, cp_ms = r mod 1000\<rparr>)"

definition epoch_of :: "calendar_parts \<Rightarrow> int" where
  "epoch_of p =
     make_day (cp_year p) (cp_month p - 1) (cp_day p) * day_ms +
     cp_hour p * 3600000 + cp_minute p * 60000 + cp_second p * 1000 + cp_ms p"

subsection \<open>Laws of the calendar\<close>

lemma div_bounds:
  fixes a k :: int
  assumes "0 < k"
  shows "k * (a div k) \<le> a" and "a < k * (a div k) + k"
proof -
  have "a = k * (a div k) + a mod k" by simp
  moreover have "0 \<le> a mod k" "a mod k < k" using assms by simp_all
  ultimately show "k * (a div k) \<le> a" and "a < k * (a div k) + k" by linarith+
qed

lemma day_from_year_bounds:
  shows "146097 * (y - 1970) - 600 \<le> 400 * day_from_year y"
    and "400 * day_from_year y \<le> 146097 * (y - 1970) + 700"
proof -
  note b = div_bounds [of 4 "y - 1969"] div_bounds [of 100 "y - 1901"] div_bounds [of 400 "y - 1601"]
  show "146097 * (y - 1970) - 600 \<le> 400 * day_from_year y" using b unfolding day_from_year_def by simp
  show "400 * day_from_year y \<le> 146097 * (y - 1970) + 700" using b unfolding day_from_year_def by simp
qed

lemma day_from_year_mono:
  assumes "x < y"
  shows "day_from_year x < day_from_year y"
proof -
  have "146097 * (x - 1970) + 146097 \<le> 146097 * (y - 1970)" using assms by simp
  then show ?thesis using day_from_year_bounds(2) [of x] day_from_year_bounds(1) [of y] by linarith
qed

lemma div_step:
  fixes a k :: int
  assumes "0 < k"
  shows "(a + 1) div k = a div k + (if (a + 1) mod k = 0 then 1 else 0)"
proof (cases "(a + 1) mod k = 0")
  case True
  then obtain q where q: "a + 1 = k * q" by fastforce
  then have "a = k * (q - 1) + (k - 1)" by (simp add: algebra_simps)
  then have "a div k = q - 1" by (rule int_div_pos_eq) (use assms in simp_all)
  with q True assms show ?thesis by simp
next
  case False
  have "a + 1 = k * ((a + 1) div k) + (a + 1) mod k" by simp
  then have "a = k * ((a + 1) div k) + ((a + 1) mod k - 1)" by linarith
  moreover have "0 \<le> (a + 1) mod k - 1" "(a + 1) mod k - 1 < k"
    using assms False pos_mod_sign [of k "a + 1"] pos_mod_bound [of k "a + 1"] by linarith+
  ultimately have "a div k = (a + 1) div k" by (rule int_div_pos_eq)
  with False show ?thesis by simp
qed

lemma leap_nested:
  fixes y :: int
  shows "y mod 400 = 0 \<longrightarrow> y mod 100 = 0" and "y mod 100 = 0 \<longrightarrow> y mod 4 = 0"
  unfolding mod_eq_0_iff_dvd by (auto elim: dvd_trans [rotated])

lemma year_length: "day_from_year (y + 1) - day_from_year y = (if is_leap y then 366 else 365)"
proof -
  define a b c :: int where "a = (if y mod 4 = 0 then 1 else 0)" and "b = (if y mod 100 = 0 then 1 else 0)"
    and "c = (if y mod 400 = 0 then 1 else 0)"
  have m: "(y - 1968) mod 4 = 0 \<longleftrightarrow> y mod 4 = 0" "(y - 1900) mod 100 = 0 \<longleftrightarrow> y mod 100 = 0"
      "(y - 1600) mod 400 = 0 \<longleftrightarrow> y mod 400 = 0" by presburger+
  have e: "y - 1969 + 1 = y - 1968" "y - 1901 + 1 = y - 1900" "y - 1601 + 1 = y - 1600"
      "y + 1 - 1969 = y - 1968" "y + 1 - 1901 = y - 1900" "y + 1 - 1601 = y - 1600" "y + 1 - 1970 = y - 1970 + 1" by linarith+
  have sum: "365 * (z + 1) + A' - B' + C' - (365 * z + A - B + C) = 365 + a - b + c"
    if "A' = A + a" "B' = B + b" "C' = C + c" for z A A' B B' C C' :: int using that by simp
  have "(y - 1968) div 4 = (y - 1969) div 4 + a"
    unfolding a_def by (rule div_step [of 4 "y - 1969", OF zero_less_numeral, unfolded e m])
  moreover have "(y - 1900) div 100 = (y - 1901) div 100 + b"
    unfolding b_def by (rule div_step [of 100 "y - 1901", OF zero_less_numeral, unfolded e m])
  moreover have "(y - 1600) div 400 = (y - 1601) div 400 + c"
    unfolding c_def by (rule div_step [of 400 "y - 1601", OF zero_less_numeral, unfolded e m])
  ultimately have "day_from_year (y + 1) - day_from_year y = 365 + a - b + c"
    unfolding day_from_year_def e by (rule sum)
  also have "\<dots> = (if is_leap y then 366 else 365)"
  proof -
    have count: "365 + (if p then 1 else 0) - (if q then 1 else 0) + (if r then 1 else 0) =
        (if p \<and> (\<not> q \<or> r) then 366 else 365 :: int)" if "r \<longrightarrow> q" "q \<longrightarrow> p" for p q r
      using that by (cases p; cases q; cases r; simp only: if_True if_False simp_thms)
    show ?thesis unfolding a_def b_def c_def is_leap_def by (rule count [OF leap_nested])
  qed
  finally show ?thesis .
qed

lemma year_of_day:
  shows "day_from_year (year_of_day d) \<le> d" and "d < day_from_year (year_of_day d + 1)"
proof -
  define y where "y = 1970 + (400 * d) div 146097"
  have "146097 * (y - 1970) \<le> 400 * d" "400 * d < 146097 * (y - 1970) + 146097"
    using div_bounds [of 146097 "400 * d"] by (simp_all add: y_def)
  with day_from_year_bounds(2) [of "y - 1"] day_from_year_bounds(1) [of "y + 2"]
  have "day_from_year (y - 1) \<le> d" "d < day_from_year (y + 1 + 1)" by (simp_all add: algebra_simps)
  then show "day_from_year (year_of_day d) \<le> d" and "d < day_from_year (year_of_day d + 1)"
    by (simp_all add: year_of_day_def Let_def flip: y_def)
qed

lemma year_of_day_unique:
  assumes "day_from_year y \<le> d" and "d < day_from_year (y + 1)"
  shows "year_of_day d = y"
proof -
  have "\<not> y + 1 \<le> year_of_day d"
    using year_of_day(1) [of d] assms(2) day_from_year_mono [of "y + 1" "year_of_day d"] by (cases "y + 1 = year_of_day d") auto
  moreover have "\<not> year_of_day d + 1 \<le> y"
    using year_of_day(2) [of d] assms(1) day_from_year_mono [of "year_of_day d + 1" y] by (cases "year_of_day d + 1 = y") auto
  ultimately show ?thesis by simp
qed

lemma year_of_day_mono: "d \<le> e \<Longrightarrow> year_of_day d \<le> year_of_day e"
  using year_of_day [of d] year_of_day [of e] day_from_year_mono [of "year_of_day e + 1" "year_of_day d"]
  by (cases "year_of_day e + 1 = year_of_day d") fastforce+

lemma year_bounds:
  assumes "day_from_year lo \<le> d" and "d < day_from_year (hi + 1)"
  shows "lo \<le> year_of_day d" and "year_of_day d \<le> hi"
proof -
  show "lo \<le> year_of_day d"
    using assms(1) year_of_day(2) [of d] day_from_year_mono [of "year_of_day d + 1" lo]
    by (cases "year_of_day d + 1 = lo") fastforce+
  show "year_of_day d \<le> hi"
    using assms(2) year_of_day(1) [of d] day_from_year_mono [of "hi + 1" "year_of_day d"]
    by (cases "hi + 1 = year_of_day d") fastforce+
qed

text \<open>A day of the year lies in its month, and the month is one of twelve with at most 31 days.\<close>

lemma month_of_day:
  assumes "0 \<le> d" and "d < (if leap then 366 else 365)"
  shows "1 \<le> month_of leap d \<and> month_of leap d \<le> 12 \<and> month_start leap (month_of leap d) \<le> d \<and> d < month_start leap (month_of leap d) + 31"
proof -
  have leaps: "list_all (\<lambda>d. 1 \<le> month_of True d \<and> month_of True d \<le> 12 \<and> month_start True (month_of True d) \<le> d \<and>
      d < month_start True (month_of True d) + 31) [0..365]" by code_simp
  have others: "list_all (\<lambda>d. 1 \<le> month_of False d \<and> month_of False d \<le> 12 \<and> month_start False (month_of False d) \<le> d \<and>
      d < month_start False (month_of False d) + 31) [0..364]" by code_simp
  show ?thesis
  proof (cases leap)
    case True
    with assms have "d \<in> {0..365}" by simp
    with leaps show ?thesis unfolding list_all_iff set_upto by (simp only: True)
  next
    case False
    with assms have "d \<in> {0..364}" by simp
    moreover have "leap = False" using False by simp
    ultimately show ?thesis using others unfolding list_all_iff set_upto by (simp only:)
  qed
qed

lemma fields_bounds:
  shows "0 \<le> cp_hour (fields_of t)" "cp_hour (fields_of t) < 24"
    and "0 \<le> cp_minute (fields_of t)" "cp_minute (fields_of t) < 60"
    and "0 \<le> cp_second (fields_of t)" "cp_second (fields_of t) < 60"
    and "0 \<le> cp_ms (fields_of t)" "cp_ms (fields_of t) < 1000"
    and "1 \<le> cp_month (fields_of t)" "cp_month (fields_of t) \<le> 12"
    and "1 \<le> cp_day (fields_of t)" "cp_day (fields_of t) \<le> 31"
    and "cp_year (fields_of t) = year_of_day (t div day_ms)"
proof -
  define d where "d = t div day_ms"
  define r where "r = t mod day_ms"
  define y where "y = year_of_day d"
  have r: "0 \<le> r" "r < 86400000" by (simp_all add: r_def day_ms_def)
  have f: "fields_of t = \<lparr>cp_year = y, cp_month = month_of (is_leap y) (d - day_from_year y),
      cp_day = d - day_from_year y - month_start (is_leap y) (month_of (is_leap y) (d - day_from_year y)) + 1,
      cp_hour = r div 3600000, cp_minute = r div 60000 mod 60, cp_second = r div 1000 mod 60, cp_ms = r mod 1000\<rparr>"
    by (simp add: fields_of_def Let_def d_def r_def y_def)
  have "0 \<le> d - day_from_year y" "d - day_from_year y < (if is_leap y then 366 else 365)"
    using year_of_day [of d] year_length [of y] by (simp_all add: y_def)
  note m = month_of_day [OF this]
  show "1 \<le> cp_month (fields_of t)" "cp_month (fields_of t) \<le> 12" "1 \<le> cp_day (fields_of t)" "cp_day (fields_of t) \<le> 31"
    using m by (simp_all add: f)
  show "cp_year (fields_of t) = year_of_day (t div day_ms)" by (simp add: f y_def d_def)
  show "0 \<le> cp_hour (fields_of t)" using r by (simp add: f)
  show "cp_hour (fields_of t) < 24" using r div_bounds(1) [of 3600000 r] by (simp add: f)
qed (simp_all add: fields_of_def Let_def)

lemma clock_sum:
  fixes r :: int
  shows "r div 3600000 * 3600000 + r div 60000 mod 60 * 60000 + r div 1000 mod 60 * 1000 + r mod 1000 = r"
proof -
  have "r div 1000 div 60 = r div 60000" "r div 60000 div 60 = r div 3600000" by (simp_all add: zdiv_zmult2_eq [symmetric])
  moreover have "r = r div 1000 * 1000 + r mod 1000" by simp
  moreover have "r div 1000 = r div 1000 div 60 * 60 + r div 1000 mod 60" by simp
  moreover have "r div 60000 = r div 60000 div 60 * 60 + r div 60000 mod 60" by simp
  ultimately show ?thesis by linarith
qed

theorem epoch_of_fields: "epoch_of (fields_of t) = t"
proof -
  define d where "d = t div day_ms"
  define r where "r = t mod day_ms"
  define y where "y = year_of_day d"
  define m where "m = month_of (is_leap y) (d - day_from_year y)"
  have "1 \<le> m" "m \<le> 12" using fields_bounds(9,10) [of t] by (simp_all add: fields_of_def Let_def d_def y_def m_def)
  then have "(m - 1) div 12 = 0" "(m - 1) mod 12 = m - 1" by simp_all
  then have "make_day y (m - 1) (d - day_from_year y - month_start (is_leap y) m + 1) = d"
    by (simp add: make_day_def)
  then have "epoch_of (fields_of t) = d * day_ms + r div 3600000 * 3600000 + r div 60000 mod 60 * 60000 + r div 1000 mod 60 * 1000 + r mod 1000"
    by (simp add: epoch_of_def fields_of_def Let_def flip: d_def r_def y_def m_def)
  also have "\<dots> = d * day_ms + r" using clock_sum [of r] by linarith
  also have "\<dots> = t" by (simp add: d_def r_def)
  finally show ?thesis .
qed

lemma fields_of_inj: "fields_of s = fields_of t \<longleftrightarrow> s = t"
  by (metis epoch_of_fields)

subsection \<open>Text of an instant\<close>

definition min_instant :: int where
  "min_instant = -62135596800000"

definition max_instant :: int where
  "max_instant = 253402300799999"

fun pad :: "nat \<Rightarrow> nat \<Rightarrow> string" where
  "pad 0 n = []"
| "pad (Suc k) n = pad k (n div 10) @ [char_of (48 + n mod 10)]"

text \<open>\<open>toISOString\<close> for the years 0 to 9999.\<close>

definition iso_text :: "int \<Rightarrow> string" where
  "iso_text t =
     (let p = fields_of t in
      pad 4 (nat (cp_year p)) @ ''-'' @ pad 2 (nat (cp_month p)) @ ''-'' @ pad 2 (nat (cp_day p)) @ ''T'' @
      pad 2 (nat (cp_hour p)) @ '':'' @ pad 2 (nat (cp_minute p)) @ '':'' @ pad 2 (nat (cp_second p)) @ ''.'' @
      pad 3 (nat (cp_ms p)) @ ''Z'')"

text \<open>A fixed layout: a digit or a given character at each place.\<close>

fun matches :: "char option list \<Rightarrow> string \<Rightarrow> bool" where
  "matches [] s \<longleftrightarrow> s = []"
| "matches (q # qs) [] \<longleftrightarrow> False"
| "matches (q # qs) (c # cs) \<longleftrightarrow> (case q of None \<Rightarrow> is_digit c | Some d \<Rightarrow> c = d) \<and> matches qs cs"

definition places :: "nat \<Rightarrow> char option list" where
  "places n = replicate n None"

definition date_layout :: "char option list" where
  "date_layout = places 4 @ [Some (CHR ''-'')] @ places 2 @ [Some (CHR ''-'')] @ places 2"

definition clock_layout :: "char option list" where
  "clock_layout = places 2 @ [Some (CHR '':'')] @ places 2 @ [Some (CHR '':'')] @ places 2"

definition number_at :: "string \<Rightarrow> nat \<Rightarrow> nat \<Rightarrow> int" where
  "number_at s i n = int (read_nat 0 (take n (drop i s)))"

text \<open>The fields of the date and time written at the start of \<open>s\<close>.\<close>

definition written_parts :: "string \<Rightarrow> int \<Rightarrow> calendar_parts" where
  "written_parts s ms =
     \<lparr>cp_year = number_at s 0 4, cp_month = number_at s 5 2, cp_day = number_at s 8 2, cp_hour = number_at s 11 2,
      cp_minute = number_at s 14 2, cp_second = number_at s 17 2, cp_ms = ms\<rparr>"

text \<open>The expression \<open>UTC_INSTANT\<close>, and \<open>Date.parse\<close> of a string that matches it.\<close>

definition utc_layout :: "char option list" where
  "utc_layout = date_layout @ [Some (CHR ''T'')] @ clock_layout @ [Some (CHR ''.'')] @ places 3 @ [Some (CHR ''Z'')]"

definition utc_instant :: "string \<Rightarrow> bool" where
  "utc_instant s \<longleftrightarrow> matches utc_layout s \<and> number_at s 0 4 \<noteq> 0 \<and>
     1 \<le> number_at s 5 2 \<and> number_at s 5 2 \<le> 12 \<and> 1 \<le> number_at s 8 2 \<and> number_at s 8 2 \<le> 31 \<and>
     number_at s 11 2 \<le> 23 \<and> number_at s 14 2 \<le> 59 \<and> number_at s 17 2 \<le> 59"

definition parse_instant :: "string \<Rightarrow> int" where
  "parse_instant s = epoch_of (written_parts s (number_at s 20 3))"

subsection \<open>Laws of the text\<close>

lemma length_pad [simp]: "length (pad k n) = k"
  by (induction k arbitrary: n) simp_all

lemma read_pad: "n < 10 ^ k \<Longrightarrow> read_nat 0 (pad k n) = n"
proof (induction k arbitrary: n)
  case (Suc k)
  then have "n div 10 < 10 ^ k" by (simp add: less_mult_imp_div_less mult.commute)
  with Suc.IH show ?case by (simp add: read_nat_snoc of_char_digit)
qed simp

lemma digit_char [simp]: "is_digit (char_of (48 + n mod 10 :: nat))"
  by (simp add: is_digit_def Let_def of_char_digit)

lemma matches_append: "length qs = length s \<Longrightarrow> matches (qs @ rs) (s @ t) \<longleftrightarrow> matches qs s \<and> matches rs t"
  by (induction qs s rule: list_induct2) simp_all

lemma matches_split:
  "matches (qs @ rs) s \<longleftrightarrow> matches qs (take (length qs) s) \<and> matches rs (drop (length qs) s)"
proof (induction qs arbitrary: s)
  case (Cons q qs)
  then show ?case by (cases s) simp_all
qed simp

lemma matches_length: "matches qs s \<Longrightarrow> length s = length qs"
  by (induction qs s rule: matches.induct) simp_all

lemma matches_places: "matches (places n) s \<longleftrightarrow> length s = n \<and> list_all is_digit s"
proof (induction n arbitrary: s)
  case (Suc n)
  then show ?case by (cases s) (auto simp: places_def)
qed (auto simp: places_def)

lemma length_places [simp]: "length (places n) = n"
  by (simp add: places_def)

lemma pad_digits: "list_all is_digit (pad k n)"
  by (induction k arbitrary: n) simp_all

lemma matches_pad [simp]: "matches (places k) (pad k n)"
  by (simp add: matches_places pad_digits)

lemma in_range_fields:
  assumes "min_instant \<le> t" and "t \<le> max_instant"
  shows "1 \<le> cp_year (fields_of t)" and "cp_year (fields_of t) \<le> 9999"
proof -
  have "day_from_year 1 \<le> t div day_ms" using zdiv_mono1 [OF assms(1), of day_ms]
    by (simp add: min_instant_def day_ms_def day_from_year_def)
  moreover have "t div day_ms < day_from_year (9999 + 1)" using zdiv_mono1 [OF assms(2), of day_ms]
    by (simp add: max_instant_def day_ms_def day_from_year_def)
  ultimately show "1 \<le> cp_year (fields_of t)" and "cp_year (fields_of t) \<le> 9999"
    unfolding fields_bounds(13) by (rule year_bounds)+
qed

lemma iso_layout: "matches utc_layout (iso_text t)"
proof -
  have char: "matches (Some c # qs) (c # cs) \<longleftrightarrow> matches qs cs" for c qs cs by simp
  have digits: "matches (places k @ qs) (pad k n @ cs) \<longleftrightarrow> matches qs cs" for k n qs cs
    using matches_append [of "places k" "pad k n" qs cs] by simp
  show ?thesis
    by (simp add: utc_layout_def date_layout_def clock_layout_def iso_text_def Let_def digits del: matches.simps) (simp add: digits char)
qed

lemma iso_written:
  assumes "min_instant \<le> t" and "t \<le> max_instant"
  shows "written_parts (iso_text t) (number_at (iso_text t) 20 3) = fields_of t" and "utc_instant (iso_text t)"
proof -
  note b = fields_bounds [of t] in_range_fields [OF assms]
  have read: "int (read_nat 0 (pad k (nat v))) = v" if "0 \<le> v" "v < 10 ^ k" for k v
    using that by (subst read_pad) (simp_all add: nat_less_iff)
  have at: "number_at (iso_text t) 0 4 = cp_year (fields_of t)" "number_at (iso_text t) 5 2 = cp_month (fields_of t)"
      "number_at (iso_text t) 8 2 = cp_day (fields_of t)" "number_at (iso_text t) 11 2 = cp_hour (fields_of t)"
      "number_at (iso_text t) 14 2 = cp_minute (fields_of t)" "number_at (iso_text t) 17 2 = cp_second (fields_of t)"
      "number_at (iso_text t) 20 3 = cp_ms (fields_of t)"
    using b by (simp_all add: number_at_def iso_text_def Let_def read del: pad.simps)
  then show "written_parts (iso_text t) (number_at (iso_text t) 20 3) = fields_of t" by (simp add: written_parts_def)
  show "utc_instant (iso_text t)" using b by (simp add: utc_instant_def iso_layout at)
qed

lemma parse_iso: "min_instant \<le> t \<Longrightarrow> t \<le> max_instant \<Longrightarrow> parse_instant (iso_text t) = t"
  by (simp add: parse_instant_def iso_written epoch_of_fields)

lemma iso_inj: "min_instant \<le> s \<Longrightarrow> s \<le> max_instant \<Longrightarrow> min_instant \<le> t \<Longrightarrow> t \<le> max_instant \<Longrightarrow> iso_text s = iso_text t \<longleftrightarrow> s = t"
  by (metis parse_iso)

lemma month_start_bounds: "0 \<le> month_start l m \<and> month_start l m \<le> (if l then 335 else 334)"
  by (simp add: month_start_def Let_def)

text \<open>A string that matches \<open>UTC_INSTANT\<close> is parsed to an instant of the years 1 to 9999.\<close>

lemma parse_in_range:
  assumes "utc_instant s"
  shows "min_instant \<le> parse_instant s" and "parse_instant s \<le> max_instant"
proof -
  define p where "p = written_parts s (number_at s 20 3)"
  define y l where "y = cp_year p" and "l = is_leap y"
  define d where "d = day_from_year y + month_start l (cp_month p) + cp_day p - 1"
  have read: "read_nat acc ds < (acc + 1) * 10 ^ length ds" if "list_all is_digit ds" for acc ds
    using that
  proof (induction ds arbitrary: acc)
    case (Cons c ds)
    then have "(of_char c :: nat) \<le> 57" by (simp add: is_digit_def Let_def)
    then have "of_char c - 48 < (10 :: nat)" by linarith
    moreover have "read_nat (10 * acc + (of_char c - 48)) ds < (10 * acc + (of_char c - 48) + 1) * 10 ^ length ds"
      using Cons by simp
    moreover have "(10 * acc + (of_char c - 48) + 1) * 10 ^ length ds \<le> (10 * acc + 10) * 10 ^ length ds"
      using calculation(1) by (intro mult_right_mono) simp_all
    ultimately show ?case by (simp add: algebra_simps)
  qed simp
  have s: "matches utc_layout s" and len: "length s = 24"
    using assms matches_length [of utc_layout s] by (simp_all add: utc_instant_def utc_layout_def date_layout_def clock_layout_def)
  define front where "front = date_layout @ [Some (CHR ''T'')] @ clock_layout @ [Some (CHR ''.'')]"
  have front: "utc_layout = front @ places 3 @ [Some (CHR ''Z'')]" "length front = 20"
    by (simp_all add: front_def utc_layout_def date_layout_def clock_layout_def)
  have "list_all is_digit (take 3 (drop 20 s))" using s unfolding front(1) matches_split front(2) by (simp add: matches_places)
  moreover have "list_all is_digit (take 4 (drop 0 s))" using s by (simp add: utc_layout_def date_layout_def matches_split matches_places)
  ultimately have digits: "list_all is_digit (take 4 (drop 0 s))" "list_all is_digit (take 3 (drop 20 s))" by blast+
  have y: "1 \<le> y" "y \<le> 9999"
    using assms read [OF digits(1), of 0] by (simp_all add: utc_instant_def y_def p_def written_parts_def number_at_def len)
  have ms: "0 \<le> cp_ms p" "cp_ms p < 1000"
    using read [OF digits(2), of 0] by (simp_all add: p_def written_parts_def number_at_def len)
  have m: "1 \<le> cp_month p" "cp_month p \<le> 12" "1 \<le> cp_day p" "cp_day p \<le> 31"
      and t: "cp_hour p \<le> 23" "cp_minute p \<le> 59" "cp_second p \<le> 59" "0 \<le> cp_hour p" "0 \<le> cp_minute p" "0 \<le> cp_second p"
    using assms by (simp_all add: utc_instant_def p_def written_parts_def number_at_def)
  have "day_from_year y \<le> d" "d < day_from_year (y + 1)"
    using m month_start_bounds [of l "cp_month p"] year_length [of y] by (simp_all add: d_def l_def split: if_splits)
  moreover have "day_from_year 1 \<le> day_from_year y" "day_from_year (y + 1) \<le> day_from_year 10000"
    using y day_from_year_mono [of 1 y] day_from_year_mono [of "y + 1" 10000] by (cases "y = 1"; cases "y = 9999"; simp)+
  ultimately have d: "-719162 \<le> d" "d \<le> 2932896" by (simp_all add: day_from_year_def)
  have "(cp_month p - 1) div 12 = 0" "(cp_month p - 1) mod 12 = cp_month p - 1" using m by simp_all
  then have "parse_instant s = d * day_ms + cp_hour p * 3600000 + cp_minute p * 60000 + cp_second p * 1000 + cp_ms p"
    by (simp add: parse_instant_def epoch_of_def make_day_def Let_def d_def l_def y_def flip: p_def)
  with d t ms show "min_instant \<le> parse_instant s" and "parse_instant s \<le> max_instant"
    by (simp_all add: min_instant_def max_instant_def day_ms_def)
qed

text \<open>What is its own \<open>toISOString\<close> is exactly the text of the instants in range.\<close>

lemma canonical_instant:
  "utc_instant s \<and> iso_text (parse_instant s) = s \<longleftrightarrow> (\<exists>t. min_instant \<le> t \<and> t \<le> max_instant \<and> s = iso_text t)"
  using parse_in_range [of s] by (metis iso_written(2) parse_iso)

subsection \<open>Strict parsing\<close>

text \<open>A \<open>ScheduleInputError\<close> with its code.\<close>

datatype input_error = InputError string

definition calendar_epoch :: "calendar_parts \<Rightarrow> (input_error, int) result" where
  "calendar_epoch p = throw_if (fields_of (epoch_of p) \<noteq> p) (InputError ''invalid_rule'') (Inr (epoch_of p))"

definition milliseconds :: "string \<Rightarrow> int" where
  "milliseconds ds = int (read_nat 0 (ds @ replicate (3 - length ds) (CHR ''0'')))"

text \<open>An optional fraction of one to three digits, and what follows it.\<close>

definition fraction :: "string \<Rightarrow> (int \<times> string) option" where
  "fraction s =
     (case s of
        [] \<Rightarrow> Some (0, [])
      | c # cs \<Rightarrow>
          if c = CHR ''.'' then
            (let ds = takeWhile is_digit cs in
             if 1 \<le> length ds \<and> length ds \<le> 3 then Some (milliseconds ds, dropWhile is_digit cs) else None)
          else Some (0, s))"

definition offset_layout :: "char \<Rightarrow> char option list" where
  "offset_layout sign = [Some sign] @ places 2 @ [Some (CHR '':'')] @ places 2"

definition bad_clock :: "calendar_parts \<Rightarrow> bool" where
  "bad_clock p \<longleftrightarrow> cp_year p = 0 \<or> 23 < cp_hour p \<or> 59 < cp_minute p \<or> 59 < cp_second p"

text \<open>The offset written in a zone of the form plus or minus \<open>HH:mm\<close>, in milliseconds.\<close>

definition written_offset :: "string \<Rightarrow> int" where
  "written_offset zone =
     (if zone = ''Z'' then 0
      else (if hd zone = CHR ''+'' then 1 else -1) * (number_at zone 1 2 * 60 + number_at zone 4 2) * 60000)"

definition parse_offset_instant :: "string \<Rightarrow> (input_error, int) result" where
  "parse_offset_instant s =
     (let bad = Inl (InputError ''invalid_rule'') in
      if \<not> matches (date_layout @ [Some (CHR ''T'')] @ clock_layout) (take 19 s) then bad
      else
        (case fraction (drop 19 s) of
           None \<Rightarrow> bad
         | Some (ms, zone) \<Rightarrow>
             if zone \<noteq> ''Z'' \<and> \<not> matches (offset_layout (CHR ''+'')) zone \<and> \<not> matches (offset_layout (CHR ''-'')) zone then bad
             else
               throw_if (bad_clock (written_parts s ms)) (InputError ''invalid_rule'')
               (bindR (calendar_epoch (written_parts s ms)) (\<lambda>local.
                if zone = ''Z'' then Inr local
                else
                  throw_if (23 < number_at zone 1 2 \<or> 59 < number_at zone 4 2 \<or>
                      (hd zone = CHR ''-'' \<and> number_at zone 1 2 = 0 \<and> number_at zone 4 2 = 0))
                    (InputError ''invalid_rule'')
                  (Inr (local - written_offset zone))))))"

definition parse_local_at :: "string \<Rightarrow> string \<Rightarrow> (input_error, calendar_parts) result" where
  "parse_local_at date time =
     (if \<not> matches date_layout date \<or> \<not> matches clock_layout (take 8 time) then Inl (InputError ''invalid_rule'')
      else
        (case fraction (drop 8 time) of
           Some (ms, []) \<Rightarrow>
             (let p = written_parts (date @ ''T'' @ time) ms in
              throw_if (bad_clock p) (InputError ''invalid_rule'')
              (bindR (calendar_epoch p) (\<lambda>_. Inr p)))
         | _ \<Rightarrow> Inl (InputError ''invalid_rule'')))"

lemma calendar_epoch_Inr [result_simps]: "calendar_epoch p = Inr t \<longleftrightarrow> fields_of t = p"
  by (auto simp: calendar_epoch_def result_simps epoch_of_fields)

text \<open>A local time is of year 1 or later.\<close>

lemma parse_local_year: "parse_local_at date time = Inr p \<Longrightarrow> 1 \<le> cp_year p"
  by (auto simp: parse_local_at_def result_simps bad_clock_def written_parts_def number_at_def Let_def
      split: if_splits option.splits list.splits)

end
