(* ===== verification/ScheduleZone.thy ===== *)
theory ScheduleZone
  imports ScheduleTime
begin

text \<open>
  Local times of reminders (\<open>packages/schedule/schedule/src/domain.ts\<close>): time zone names, the
  projection of an instant into a zone, and the choice of an instant for a local time. What
  \<open>Intl.DateTimeFormat\<close> knows of a zone is the parameter \<open>zone_db\<close>: the canonical name of a zone
  it accepts, and for a zone and an epoch the local calendar fields and the name of the offset
  it formats.
\<close>

record zone_db =
  zd_canonical :: "string \<Rightarrow> string option"
  zd_fields :: "string \<Rightarrow> int \<Rightarrow> calendar_parts"
  zd_name :: "string \<Rightarrow> int \<Rightarrow> string"

subsection \<open>Names\<close>

definition zone_char :: "char \<Rightarrow> bool" where
  "zone_char c \<longleftrightarrow> is_lower c \<or> is_upper c \<or> is_digit c \<or> List.member ''_+.-'' c"

definition iana_zone :: "string \<Rightarrow> bool" where
  "iana_zone s \<longleftrightarrow>
     (case split_on (CHR ''/'') s of
        [] \<Rightarrow> False
      | area # rest \<Rightarrow>
          area \<noteq> [] \<and> (is_lower (hd area) \<or> is_upper (hd area)) \<and> list_all zone_char area \<and>
          rest \<noteq> [] \<and> list_all (\<lambda>p. p \<noteq> [] \<and> list_all zone_char p) rest)"

definition canonicalize_time_zone :: "zone_db \<Rightarrow> string \<Rightarrow> (input_error, string) result" where
  "canonicalize_time_zone db v =
     throw_if (v = [] \<or> trim v \<noteq> v \<or> (v \<noteq> ''UTC'' \<and> \<not> iana_zone v)) (InputError ''invalid_time_zone'')
     (case zd_canonical db v of
        None \<Rightarrow> Inl (InputError ''invalid_time_zone'')
      | Some zone \<Rightarrow> throw_if (zone \<noteq> ''UTC'' \<and> \<not> iana_zone zone) (InputError ''invalid_time_zone'') (Inr zone))"

subsection \<open>Projection\<close>

text \<open>The expression \<open>OFFSET_NAME\<close>: GMT alone, or with hours, minutes and possibly seconds.\<close>

definition offset_of_name :: "string \<Rightarrow> int option" where
  "offset_of_name name =
     (let rest = drop 3 name; sign = (if rest \<noteq> [] \<and> hd rest = CHR ''-'' then -1 else 1);
          minutes = (\<lambda>c. offset_layout c); seconds = (\<lambda>c. offset_layout c @ [Some (CHR '':'')] @ places 2);
          value = (number_at rest 1 2 * 3600 + number_at rest 4 2 * 60) in
      if take 3 name \<noteq> ''GMT'' then None
      else if rest = [] then Some 0
      else if matches (minutes (CHR ''+'')) rest \<or> matches (minutes (CHR ''-'')) rest then Some (sign * value * 1000)
      else if matches (seconds (CHR ''+'')) rest \<or> matches (seconds (CHR ''-'')) rest
           then Some (sign * (value + number_at rest 7 2) * 1000)
      else None)"

definition local_projection :: "zone_db \<Rightarrow> string \<Rightarrow> int \<Rightarrow> (input_error, calendar_parts \<times> int) result" where
  "local_projection db zone t =
     (case offset_of_name (zd_name db zone t) of
        None \<Rightarrow> Inl (InputError ''invalid_time_zone'')
      | Some offset \<Rightarrow> Inr (zd_fields db zone t, offset))"

subsection \<open>Choosing an instant\<close>

definition in_range :: "int \<Rightarrow> bool" where
  "in_range t \<longleftrightarrow> min_instant \<le> t \<and> t \<le> max_instant"

definition sample_times :: "int \<Rightarrow> int list" where
  "sample_times local =
     map (\<lambda>delta. min max_instant (max min_instant (local + delta))) [-172800000, -86400000, 0, 86400000, 172800000]"

text \<open>One candidate: out of range (\<open>None\<close>), or the instants it contributes.\<close>

definition candidate :: "zone_db \<Rightarrow> string \<Rightarrow> calendar_parts \<Rightarrow> int \<Rightarrow> (input_error, int list option) result" where
  "candidate db zone parts t =
     (if \<not> in_range t then Inr None
      else bindR (local_projection db zone t) (\<lambda>(fields, _). Inr (Some (if fields = parts then [t] else []))))"

definition resolve_local_instant :: "zone_db \<Rightarrow> calendar_parts \<Rightarrow> string \<Rightarrow> (input_error, int) result" where
  "resolve_local_instant db parts zone =
     bindR (calendar_epoch parts) (\<lambda>local.
     bindR (mapR (local_projection db zone) (sample_times local)) (\<lambda>samples.
     bindR (mapR (\<lambda>offset. candidate db zone parts (local - offset)) (js_set (map snd samples))) (\<lambda>found.
     case sort (concat (List.map_filter (\<lambda>c. c) found)) of
       t # _ \<Rightarrow> Inr t
     | [] \<Rightarrow> Inl (InputError (if list_ex (\<lambda>c. c = None) found then ''time_out_of_range'' else ''invalid_rule'')))))"

subsection \<open>The chosen instant is the first\<close>

text \<open>
  What the code relies on of \<open>Intl.DateTimeFormat\<close>: in a zone each instant has an offset, the
  formatter shows the name of that offset and the calendar fields of the shifted instant. Of a
  year before 1, which the local clock of a zone behind UTC can show at the lower end of the
  range, it relies on nothing: ECMA-402 shows such a year without its sign, counted from 1
  backwards, and the other fields as they are.
\<close>

definition shows_fields :: "calendar_parts \<Rightarrow> calendar_parts \<Rightarrow> bool" where
  "shows_fields clock shown \<longleftrightarrow>
     (if 1 \<le> cp_year clock then shown = clock else shown\<lparr>cp_year := cp_year clock\<rparr> = clock)"

definition zone_known :: "zone_db \<Rightarrow> string \<Rightarrow> (int \<Rightarrow> int) \<Rightarrow> bool" where
  "zone_known db zone off \<longleftrightarrow>
     (\<forall>t. in_range t \<longrightarrow> shows_fields (fields_of (t + off t)) (zd_fields db zone t) \<and>
        offset_of_name (zd_name db zone t) = Some (off t))"

text \<open>
  Offsets are less than a day, and each offset in use within a day of the wall time is in use
  at one of the sampled instants: the zone does not change its offset and change it again
  between two samples.
\<close>

definition offsets_sampled :: "(int \<Rightarrow> int) \<Rightarrow> int \<Rightarrow> bool" where
  "offsets_sampled off local \<longleftrightarrow>
     (\<forall>t. in_range t \<longrightarrow> \<bar>off t\<bar> < day_ms) \<and>
     (\<forall>t. in_range t \<and> \<bar>t - local\<bar> < day_ms \<longrightarrow> (\<exists>s \<in> set (sample_times local). off t = off s))"

lemma sample_in_range: "s \<in> set (sample_times local) \<Longrightarrow> in_range s"
  by (auto simp: sample_times_def in_range_def min_instant_def max_instant_def)

lemma projection_known:
  "zone_known db zone off \<Longrightarrow> in_range t \<Longrightarrow> local_projection db zone t = Inr (zd_fields db zone t, off t)"
  by (simp add: zone_known_def local_projection_def)

text \<open>
  Around the turn of year 1 the shown fields still tell the instants apart: an instant of an
  earlier year within two days of one of a later year is in December, the other in January.
\<close>

lemma turn_of_year:
  assumes before: "\<not> 1 \<le> cp_year (fields_of u)" and after: "1 \<le> cp_year (fields_of v)"
    and near: "v - u < 2 * day_ms"
  shows "cp_month (fields_of u) = 12" and "cp_month (fields_of v) = 1"
proof -
  define d e where "d = u div day_ms" and "e = v div day_ms"
  have "year_of_day d + 1 \<le> 1" "1 \<le> year_of_day e"
    using before after fields_bounds(13) [of u] fields_bounds(13) [of v] by (simp_all add: d_def e_def)
  with year_of_day(2) [of d] year_of_day(1) [of e] day_from_year_mono [of "year_of_day d + 1" 1]
    day_from_year_mono [of 1 "year_of_day e"]
  have turn: "d < day_from_year 1" "day_from_year 1 \<le> e" by (force simp: le_less)+
  have "d * day_ms \<le> u" "v < e * day_ms + day_ms" "u < d * day_ms + day_ms" "e * day_ms \<le> v"
    using div_bounds [of day_ms u] div_bounds [of day_ms v] by (simp_all add: d_def e_def day_ms_def)
  with near have "e * 86400000 < (d + 3) * 86400000" by (simp add: day_ms_def)
  then have "e < d + 3" by (rule mult_right_less_imp_less) simp
  then have "e \<le> d + 2" by simp
  moreover have "day_from_year 1 = -719162" by code_simp
  ultimately have d: "d = -719164 \<or> d = -719163" and e: "e = -719162 \<or> e = -719161"
    using turn by linarith+
  have month: "cp_month (fields_of t) = (let k = t div day_ms; y = year_of_day k
      in month_of (is_leap y) (k - day_from_year y))" for t
    by (simp add: fields_of_def Let_def)
  have days: "cp_month (fields_of (-719164 * day_ms)) = 12" "cp_month (fields_of (-719163 * day_ms)) = 12"
      "cp_month (fields_of (-719162 * day_ms)) = 1" "cp_month (fields_of (-719161 * day_ms)) = 1"
    by code_simp+
  have same: "cp_month (fields_of t) = cp_month (fields_of (t div day_ms * day_ms))" for t
    unfolding month by (simp add: day_ms_def)
  from d show "cp_month (fields_of u) = 12"
    unfolding same [of u] d_def [symmetric] using days by auto
  from e show "cp_month (fields_of v) = 1"
    unfolding same [of v] e_def [symmetric] using days by auto
qed

lemma shown_fields_tell:
  assumes shown: "shows_fields (fields_of u) shown" and year: "1 \<le> cp_year (fields_of v)"
    and near: "\<bar>u - v\<bar> < 2 * day_ms"
  shows "shown = fields_of v \<longleftrightarrow> u = v"
proof (cases "1 \<le> cp_year (fields_of u)")
  case True
  with shown have "shown = fields_of u" by (simp add: shows_fields_def)
  then show ?thesis by (simp add: fields_of_inj)
next
  case False
  with shown have "cp_month shown = cp_month (fields_of u)"
    unfolding shows_fields_def by (metis calendar_parts.select_convs(2) calendar_parts.surjective calendar_parts.update_convs(1))
  moreover from near have "v - u < 2 * day_ms" by simp
  note turn_of_year [OF False year this]
  ultimately have "shown \<noteq> fields_of v" by auto
  moreover have "u \<noteq> v" using False year by auto
  ultimately show ?thesis by simp
qed

lemma first_sorted:
  fixes xs :: "int list"
  shows "sort xs = t # ts \<Longrightarrow> t \<in> set xs \<and> (\<forall>u \<in> set xs. t \<le> u)"
  by (metis list.set_intros(1) set_ConsD set_sort sorted_simps(2) sorted_sort order_refl)

text \<open>The instants a local time can mean, as the loop over the sampled offsets collects them.\<close>

definition found_instants :: "(int \<Rightarrow> int) \<Rightarrow> int \<Rightarrow> int list" where
  "found_instants off local =
     filter (\<lambda>t. in_range t \<and> t + off t = local) (map (\<lambda>v. local - v) (js_set (map off (sample_times local))))"

lemma candidates_known:
  assumes "zone_known db zone off"
  shows "mapR (\<lambda>v. candidate db zone parts (local - v)) vs =
    Inr (map (\<lambda>v. if in_range (local - v) then Some (if zd_fields db zone (local - v) = parts then [local - v] else [])
      else None) vs)"
  by (rule mapR_id) (simp add: candidate_def projection_known [OF assms])

lemma concat_candidates:
  "concat (List.map_filter (\<lambda>c. c) (map (\<lambda>v. if P v then Some (if Q v then [f v] else []) else None) vs)) =
    map f (filter (\<lambda>v. P v \<and> Q v) vs)"
  by (induction vs) (auto simp: List.map_filter_def)

lemma candidate_means:
  assumes known: "zone_known db zone off" and sampled: "offsets_sampled off local"
    and year: "1 \<le> cp_year (fields_of local)"
    and v: "v \<in> set (js_set (map off (sample_times local)))" and range: "in_range (local - v)"
  shows "zd_fields db zone (local - v) = fields_of local \<longleftrightarrow> local - v + off (local - v) = local"
proof -
  from v obtain s where "s \<in> set (sample_times local)" "v = off s" by auto
  with sampled have "\<bar>v\<bar> < day_ms" by (auto simp: offsets_sampled_def dest: sample_in_range)
  moreover from sampled range have "\<bar>off (local - v)\<bar> < day_ms" by (simp add: offsets_sampled_def)
  ultimately have "\<bar>local - v + off (local - v) - local\<bar> < 2 * day_ms" by linarith
  moreover from known range have "shows_fields (fields_of (local - v + off (local - v))) (zd_fields db zone (local - v))"
    by (simp add: zone_known_def)
  ultimately show ?thesis using year by (intro shown_fields_tell)
qed

lemma resolve_known:
  assumes known: "zone_known db zone off" and sampled: "offsets_sampled off local"
    and parts: "fields_of local = parts" and year: "1 \<le> cp_year parts"
  shows "resolve_local_instant db parts zone =
    (case sort (found_instants off local) of
       t # _ \<Rightarrow> Inr t
     | [] \<Rightarrow> Inl (InputError (if list_ex (\<lambda>v. \<not> in_range (local - off v)) (sample_times local)
         then ''time_out_of_range'' else ''invalid_rule'')))"
proof -
  have samples: "mapR (local_projection db zone) (sample_times local) =
      Inr (map (\<lambda>t. (zd_fields db zone t, off t)) (sample_times local))"
    by (rule mapR_id) (simp add: projection_known [OF known] sample_in_range)
  have epoch: "calendar_epoch parts = Inr local" using parts by (simp add: calendar_epoch_Inr)
  define vs where "vs = js_set (map off (sample_times local))"
  have same: "filter (\<lambda>v. in_range (local - v) \<and> zd_fields db zone (local - v) = parts) vs =
      filter (\<lambda>v. in_range (local - v) \<and> local - v + off (local - v) = local) vs"
    using candidate_means [OF known sampled] year unfolding parts [symmetric] vs_def by (intro filter_cong) auto
  have "map (\<lambda>v. local - v) (filter (\<lambda>v. in_range (local - v) \<and> zd_fields db zone (local - v) = parts) vs) =
      found_instants off local"
    unfolding same by (simp add: found_instants_def vs_def filter_map comp_def)
  moreover have "list_ex (\<lambda>c. c = None) (map (\<lambda>v. if in_range (local - v)
      then Some (if zd_fields db zone (local - v) = parts then [local - v] else []) else None) vs) =
      list_ex (\<lambda>v. \<not> in_range (local - off v)) (sample_times local)"
    by (auto simp: list_ex_iff vs_def)
  moreover have "map snd (map (\<lambda>t. (zd_fields db zone t, off t)) (sample_times local)) = map off (sample_times local)"
    by simp
  ultimately show ?thesis
    unfolding resolve_local_instant_def epoch bindR_simps samples candidates_known [OF known] concat_candidates
    by (simp only: concat_candidates flip: vs_def)
qed

lemma found_exact:
  assumes "offsets_sampled off local"
  shows "t \<in> set (found_instants off local) \<longleftrightarrow> in_range t \<and> t + off t = local"
proof
  assume t: "in_range t \<and> t + off t = local"
  with assms have "\<bar>off t\<bar> < day_ms" by (simp add: offsets_sampled_def)
  with t have "\<bar>t - local\<bar> < day_ms" by auto
  with assms t obtain s where s: "s \<in> set (sample_times local)" "off t = off s" by (auto simp: offsets_sampled_def)
  with t have "t = local - off s" by simp
  with s t show "t \<in> set (found_instants off local)" by (auto simp: found_instants_def)
qed (auto simp: found_instants_def)

text \<open>
  C39. A local time means its first instant: in a zone whose offset does not change twice between
  two samples, the instant chosen for a local date and time (of year 1 or later, as parsing
  guarantees) is the earliest of all instants in range at which the clock of the zone is at
  exactly these fields (the first one when clocks are set back), and none is chosen exactly when
  the clock is never there.
\<close>

theorem local_instant_first:
  assumes known: "zone_known db zone off" and sampled: "offsets_sampled off (epoch_of parts)"
    and year: "1 \<le> cp_year parts"
  shows "(resolve_local_instant db parts zone = Inr t \<longleftrightarrow>
      in_range t \<and> fields_of (t + off t) = parts \<and> (\<forall>u. in_range u \<and> fields_of (u + off u) = parts \<longrightarrow> t \<le> u)) \<and>
    (is_ok (resolve_local_instant db parts zone) \<longleftrightarrow> (\<exists>u. in_range u \<and> fields_of (u + off u) = parts))"
proof (cases "fields_of (epoch_of parts) = parts")
  case True
  define local where "local = epoch_of parts"
  have parts: "fields_of local = parts" using True by (simp add: local_def)
  note resolved = resolve_known [OF known sampled [folded local_def] parts year]
  have means: "fields_of (u + off u) = parts \<longleftrightarrow> u + off u = local" for u
    unfolding parts [symmetric] by (rule fields_of_inj)
  have found: "u \<in> set (found_instants off local) \<longleftrightarrow> in_range u \<and> u + off u = local" for u
    using sampled by (intro found_exact) (simp add: local_def)
  show ?thesis
  proof (cases "sort (found_instants off local)")
    case Nil
    then have "set (found_instants off local) = {}" by (metis set_sort set_empty)
    with found Nil show ?thesis by (auto simp: resolved means)
  next
    case (Cons s ss)
    have s: "in_range s \<and> s + off s = local" "in_range u \<and> u + off u = local \<Longrightarrow> s \<le> u" for u
      using first_sorted [OF Cons] found [of s] found [of u] by simp_all
    have "resolve_local_instant db parts zone = Inr s" unfolding resolved Cons by simp
    moreover have "in_range t \<and> t + off t = local \<and> (\<forall>u. in_range u \<and> u + off u = local \<longrightarrow> t \<le> u) \<longleftrightarrow> s = t"
      using s by (metis order.antisym)
    ultimately show ?thesis unfolding means using s(1) by auto
  qed
next
  case False
  then have "fields_of u \<noteq> parts" for u using epoch_of_fields [of u] by metis
  moreover from False have "calendar_epoch parts = Inl (InputError ''invalid_rule'')" by (simp add: calendar_epoch_def)
  ultimately show ?thesis by (simp add: resolve_local_instant_def)
qed

text \<open>A zone that sets its clocks back by an hour at 01:00 UTC on 27 October 2024: 02:30 comes twice.\<close>

definition sample_offset :: "int \<Rightarrow> int" where
  "sample_offset t = (if t < 1729990800000 then 7200000 else 3600000)"

definition sample_zones :: zone_db where
  "sample_zones = \<lparr>zd_canonical = Some, zd_fields = (\<lambda>_ t. fields_of (t + sample_offset t)),
     zd_name = (\<lambda>_ t. if t < 1729990800000 then ''GMT+02:00'' else ''GMT+01:00'')\<rparr>"

definition sample_parts :: calendar_parts where
  "sample_parts = \<lparr>cp_year = 2024, cp_month = 10, cp_day = 27, cp_hour = 2, cp_minute = 30, cp_second = 0, cp_ms = 0\<rparr>"

text \<open>
  A zone four hours and a half behind UTC, formatted as ECMA-402 has it: before 04:30 UTC on 1
  January of year 1 its clock is in the year before, shown as year 1 again.
\<close>

definition west_zones :: zone_db where
  "west_zones = \<lparr>zd_canonical = Some,
     zd_fields = (\<lambda>_ t. let p = fields_of (t - 16200000) in if 1 \<le> cp_year p then p else p\<lparr>cp_year := 1 - cp_year p\<rparr>),
     zd_name = (\<lambda>_ t. ''GMT-04:30'')\<rparr>"

definition west_parts :: calendar_parts where
  "west_parts = \<lparr>cp_year = 1, cp_month = 1, cp_day = 1, cp_hour = 0, cp_minute = 30, cp_second = 0, cp_ms = 0\<rparr>"

lemma sample_zones_known:
  "zone_known sample_zones ''Europe/Berlin'' sample_offset \<and> offsets_sampled sample_offset (epoch_of sample_parts)"
proof -
  have epoch: "epoch_of sample_parts = 1729996200000" by code_simp
  have "offset_of_name ''GMT+02:00'' = Some 7200000" "offset_of_name ''GMT+01:00'' = Some 3600000" by code_simp+
  then have "zone_known sample_zones ''Europe/Berlin'' sample_offset"
    by (simp add: zone_known_def shows_fields_def sample_zones_def sample_offset_def)
  moreover have "offsets_sampled sample_offset (epoch_of sample_parts)"
    unfolding epoch by (auto simp: offsets_sampled_def sample_offset_def sample_times_def day_ms_def min_instant_def max_instant_def)
  ultimately show ?thesis ..
qed

lemma west_zones_known:
  "zone_known west_zones ''America/Caracas'' (\<lambda>_. -16200000) \<and> offsets_sampled (\<lambda>_. -16200000) (epoch_of west_parts)"
proof -
  have "offset_of_name ''GMT-04:30'' = Some (-16200000)" by code_simp
  then have "zone_known west_zones ''America/Caracas'' (\<lambda>_. -16200000)"
    by (simp add: zone_known_def shows_fields_def west_zones_def Let_def)
  then show ?thesis by (auto simp: offsets_sampled_def sample_times_def day_ms_def)
qed

lemma local_instant_first_witness:
  "resolve_local_instant sample_zones sample_parts ''Europe/Berlin'' = Inr 1729989000000 \<and>
   is_ok (resolve_local_instant west_zones west_parts ''America/Caracas'')"
proof
  have epoch: "epoch_of sample_parts = 1729996200000" by code_simp
  have shown: "in_range 1729989000000" "fields_of (1729989000000 + sample_offset 1729989000000) = sample_parts" by code_simp+
  have "1729989000000 \<le> u" if "fields_of (u + sample_offset u) = sample_parts" for u
  proof -
    from that have "u + sample_offset u = 1729996200000" using epoch epoch_of_fields by metis
    then show ?thesis by (simp add: sample_offset_def split: if_splits)
  qed
  moreover have "1 \<le> cp_year sample_parts" by (simp add: sample_parts_def)
  ultimately show "resolve_local_instant sample_zones sample_parts ''Europe/Berlin'' = Inr 1729989000000"
    using shown local_instant_first [of sample_zones "''Europe/Berlin''" sample_offset sample_parts] sample_zones_known
    by blast
  have west: "in_range (min_instant + 18000000)" "fields_of (min_instant + 18000000 + -16200000) = west_parts" by code_simp+
  have "1 \<le> cp_year west_parts" by (simp add: west_parts_def)
  with west local_instant_first [of west_zones "''America/Caracas''" "\<lambda>_. -16200000" west_parts] west_zones_known
  show "is_ok (resolve_local_instant west_zones west_parts ''America/Caracas'')" by blast
qed

text \<open>An offset time: the instant whose shifted fields are the written ones.\<close>

lemma offset_instant_shows:
  assumes "parse_offset_instant s = Inr t" and "fraction (drop 19 s) = Some (ms, zone)"
  shows "fields_of (t + written_offset zone) = written_parts s ms"
  using assms by (auto simp: parse_offset_instant_def Let_def result_simps written_offset_def split: if_splits)

lemma offset_instant_iso:
  assumes "in_range t"
  shows "parse_offset_instant (iso_text t) = Inr t"
proof -
  have range: "min_instant \<le> t" "t \<le> max_instant" using assms by (simp_all add: in_range_def)
  note b = fields_bounds [of t] in_range_fields [OF range]
  have cut: "take 19 (iso_text t) = pad 4 (nat (cp_year (fields_of t))) @ ''-'' @ pad 2 (nat (cp_month (fields_of t))) @ ''-'' @
      pad 2 (nat (cp_day (fields_of t))) @ ''T'' @ pad 2 (nat (cp_hour (fields_of t))) @ '':'' @
      pad 2 (nat (cp_minute (fields_of t))) @ '':'' @ pad 2 (nat (cp_second (fields_of t)))"
      "drop 19 (iso_text t) = CHR ''.'' # pad 3 (nat (cp_ms (fields_of t))) @ ''Z''"
    by (simp_all add: iso_text_def Let_def del: pad.simps)
  have layout: "matches (date_layout @ [Some (CHR ''T'')] @ clock_layout) (take 19 (iso_text t))"
  proof -
    have "take 19 utc_layout = date_layout @ [Some (CHR ''T'')] @ clock_layout"
      by (simp add: utc_layout_def date_layout_def clock_layout_def)
    moreover have "matches (take n qs) (take n u)" if "matches qs u" for n qs u
      using that matches_split [of "take n qs" "drop n qs" u] matches_length [OF that] by (simp add: min_def split: if_splits)
    ultimately show ?thesis using iso_layout [of t] by metis
  qed
  have digits: "takeWhile is_digit (pad 3 n @ ''Z'') = pad 3 n" "dropWhile is_digit (pad 3 n @ ''Z'') = ''Z''" for n
    using pad_digits [of 3 n] by (simp_all add: takeWhile_append2 dropWhile_append2 list_all_iff is_digit_def del: pad.simps)
  have "milliseconds (pad 3 (nat (cp_ms (fields_of t)))) = cp_ms (fields_of t)"
    using b read_pad [of "nat (cp_ms (fields_of t))" 3] by (simp add: milliseconds_def nat_less_iff del: pad.simps)
  then have frac: "fraction (drop 19 (iso_text t)) = Some (cp_ms (fields_of t), ''Z'')"
    by (simp add: cut fraction_def digits del: pad.simps)
  have "cp_ms (written_parts (iso_text t) (number_at (iso_text t) 20 3)) = cp_ms (fields_of t)"
    by (simp only: iso_written(1) [OF range])
  then have "number_at (iso_text t) 20 3 = cp_ms (fields_of t)" by (simp add: written_parts_def)
  then have "written_parts (iso_text t) (cp_ms (fields_of t)) = fields_of t" using iso_written(1) [OF range] by simp
  moreover have "calendar_epoch (fields_of t) = Inr t" by (simp add: calendar_epoch_Inr)
  ultimately show ?thesis using b layout by (simp add: parse_offset_instant_def Let_def frac bad_clock_def)
qed

end
