(* ===== verification/ScheduleLaws.thy ===== *)
theory ScheduleLaws
  imports ScheduleFold "HOL-Library.Multiset"
begin

text \<open>
  What the reminder domain guarantees: the durable format, fixed-rate decisions, the invariant of
  a folded log, fresh ids and admitted records, and the framing of due reminders.
\<close>

subsection \<open>The durable format\<close>

lemma instant_ok_iff: "instant_ok s \<longleftrightarrow> (\<exists>t. in_range t \<and> s = iso_text t)"
  using iso_ok by (metis instant_ok_def)

text \<open>
  A value is written as another when it has distinct keys and equals it up to the order of its
  fields. For objects that means exactly the same keys, and below each key a value written as
  the other's.
\<close>

definition written_as :: "json \<Rightarrow> json \<Rightarrow> bool" where
  "written_as v w \<longleftrightarrow> json_ok v \<and> deep_equal v w"

lemma deep_equal_fields_all:
  "deep_equal_fields fs gs \<longleftrightarrow> (\<forall>(k, v) \<in> set fs. \<exists>w. map_of gs k = Some w \<and> deep_equal v w)"
  by (induction fs) (auto split: option.splits)

lemma written_as_plain [simp]:
  "written_as v (JStr t) \<longleftrightarrow> v = JStr t" "written_as v (JInt n) \<longleftrightarrow> v = JInt n"
  by (cases v; auto simp: written_as_def)+

lemma exact_keys_mset: "exact_keys fs ks \<longleftrightarrow> mset (map fst fs) = mset ks"
  unfolding exact_keys_def by (metis mset_sort properties_for_sort sorted_sort)

lemma written_as_object:
  assumes gs: "distinct (map fst gs)"
  shows "written_as (JObj fs) (JObj gs) \<longleftrightarrow> exact_keys fs (map fst gs) \<and>
    (\<forall>(k, w) \<in> set gs. \<exists>v. map_of fs k = Some v \<and> written_as v w)"
proof
  assume "written_as (JObj fs) (JObj gs)"
  then have ok: "distinct (map fst fs)" "\<forall>f \<in> set fs. json_ok (snd f)" and len: "length fs = length gs"
      and fields: "\<forall>(k, v) \<in> set fs. \<exists>w. map_of gs k = Some w \<and> deep_equal v w"
    by (auto simp: written_as_def deep_equal_fields_all list_all_iff)
  from fields have "set (map fst fs) \<subseteq> set (map fst gs)" by (force dest: map_of_SomeD)
  moreover have "card (set (map fst fs)) = card (set (map fst gs))"
    using ok(1) gs len by (metis distinct_card length_map)
  ultimately have keys: "set (map fst fs) = set (map fst gs)" by (simp add: card_subset_eq)
  with ok(1) gs have "exact_keys fs (map fst gs)" unfolding exact_keys_mset by (metis set_eq_iff_mset_eq_distinct)
  moreover have "\<exists>v. map_of fs k = Some v \<and> written_as v w" if g: "(k, w) \<in> set gs" for k w
  proof -
    from g keys have "k \<in> fst ` set fs" by (force simp: image_iff)
    then obtain v where v: "(k, v) \<in> set fs" by auto
    with fields g gs have "deep_equal v w" by fastforce
    with v ok show ?thesis by (intro exI [of _ v]) (auto simp: written_as_def)
  qed
  ultimately show "exact_keys fs (map fst gs) \<and> (\<forall>(k, w) \<in> set gs. \<exists>v. map_of fs k = Some v \<and> written_as v w)"
    by blast
next
  assume "exact_keys fs (map fst gs) \<and> (\<forall>(k, w) \<in> set gs. \<exists>v. map_of fs k = Some v \<and> written_as v w)"
  then have m: "mset (map fst fs) = mset (map fst gs)"
      and below: "\<And>k w. (k, w) \<in> set gs \<Longrightarrow> \<exists>v. map_of fs k = Some v \<and> written_as v w"
    by (auto simp: exact_keys_mset)
  have fs: "distinct (map fst fs)" using m gs mset_eq_imp_distinct_iff by blast
  have len: "length fs = length gs" using mset_eq_length [OF m] by simp
  have "\<exists>w. map_of gs k = Some w \<and> written_as v w" if f: "(k, v) \<in> set fs" for k v
  proof -
    from f have "k \<in> set (map fst fs)" by force
    with mset_eq_setD [OF m] obtain w where w: "(k, w) \<in> set gs" by auto
    with below [OF w] f fs gs show ?thesis by (intro exI [of _ w]) auto
  qed
  then show "written_as (JObj fs) (JObj gs)"
    using fs len by (fastforce simp: written_as_def deep_equal_fields_all list_all_iff)
qed

lemma written_as_object_only: "written_as v (JObj gs) \<Longrightarrow> \<exists>fs. v = JObj fs"
  by (cases v) (simp_all add: written_as_def)

lemma record_written:
  "written_as (JObj fs) (schedule_json r) \<longleftrightarrow>
    exact_keys fs ([''id'', ''kind'', ''prompt''] @ map fst (rule_fields (sc_rule r)) @ [''scheduledAt'']) \<and>
    map_of fs ''id'' = Some (JStr (sc_id r)) \<and> map_of fs ''kind'' = Some (JStr (rule_kind (sc_rule r))) \<and>
    map_of fs ''prompt'' = Some (JStr (sc_prompt r)) \<and>
    (\<forall>(k, w) \<in> set (rule_fields (sc_rule r)). map_of fs k = Some w) \<and>
    map_of fs ''scheduledAt'' = Some (JStr (sc_at r))"
  by (cases "sc_rule r") (simp_all add: schedule_json_def written_as_object)

lemma decode_after_exact:
  "decode_after_record fs = Inr r \<longleftrightarrow> record_ok r \<and> (\<exists>n. sc_rule r = RuleAfter n) \<and>
    written_as (JObj fs) (schedule_json r)"
  if "map_of fs ''kind'' = Some (JStr ''after'')"
  using that
  by (cases "sc_rule r")
    (auto simp: decode_after_record_def record_written record_ok_def result_simps split: option.splits)

lemma decode_at_exact:
  "decode_at_record fs = Inr r \<longleftrightarrow> record_ok r \<and> sc_rule r = RuleAt \<and> written_as (JObj fs) (schedule_json r)"
  if "map_of fs ''kind'' = Some (JStr ''at'')"
  using that
  by (cases "sc_rule r") (auto simp: decode_at_record_def record_written record_ok_def result_simps)

lemma decode_every_exact:
  "decode_every_record fs = Inr r \<longleftrightarrow> record_ok r \<and> (\<exists>n. sc_rule r = RuleEvery n) \<and>
    written_as (JObj fs) (schedule_json r)"
  if "map_of fs ''kind'' = Some (JStr ''every'')"
  using that
  by (cases "sc_rule r")
    (auto simp: decode_every_record_def record_written record_ok_def result_simps split: option.splits)

lemma written_kind:
  "written_as (JObj fs) (schedule_json r) \<Longrightarrow> map_of fs ''kind'' = Some (JStr (rule_kind (sc_rule r)))"
  by (simp add: record_written)

lemma decode_record_exact:
  "decode_schedule_record (Some v) = Inr r \<longleftrightarrow> record_ok r \<and> written_as v (schedule_json r)"
proof (cases "\<exists>fs. v = JObj fs")
  case False
  then have "\<not> written_as v (schedule_json r)" unfolding schedule_json_def using written_as_object_only by blast
  with False show ?thesis by (cases v) (simp_all add: decode_schedule_record_def)
next
  case True
  then obtain fs where v: "v = JObj fs" by blast
  have dispatch: "decode_schedule_record (Some (JObj fs)) =
      (if map_of fs ''kind'' = Some (JStr ''after'') then decode_after_record fs
       else if map_of fs ''kind'' = Some (JStr ''at'') then decode_at_record fs
       else if map_of fs ''kind'' = Some (JStr ''every'') then decode_every_record fs
       else Inl (JsError ''schedule kind''))"
    by (simp add: decode_schedule_record_def)
  note kind = written_kind [of fs r]
  show ?thesis
    unfolding v dispatch
    by (cases "sc_rule r")
      (use kind decode_after_exact [of fs r] decode_at_exact [of fs r] decode_every_exact [of fs r] in auto)
qed

lemma change_written:
  "written_as (JObj fs) (change_json c) \<longleftrightarrow> map_of fs ''version'' = Some (JInt 1) \<and>
    (case c of
       ChangeCreate r \<Rightarrow> exact_keys fs [''version'', ''operation'', ''schedule''] \<and>
         map_of fs ''operation'' = Some (JStr ''create'') \<and>
         (\<exists>v. map_of fs ''schedule'' = Some v \<and> written_as v (schedule_json r))
     | ChangeDelete i \<Rightarrow> exact_keys fs [''version'', ''operation'', ''id''] \<and>
         map_of fs ''operation'' = Some (JStr ''delete'') \<and> map_of fs ''id'' = Some (JStr i)
     | ChangeDispatch i None \<Rightarrow> exact_keys fs [''version'', ''operation'', ''id''] \<and>
         map_of fs ''operation'' = Some (JStr ''dispatch'') \<and> map_of fs ''id'' = Some (JStr i)
     | ChangeDispatch i (Some t) \<Rightarrow> exact_keys fs [''version'', ''operation'', ''id'', ''acceptedAt''] \<and>
         map_of fs ''operation'' = Some (JStr ''dispatch'') \<and> map_of fs ''id'' = Some (JStr i) \<and>
         map_of fs ''acceptedAt'' = Some (JStr t))"
  by (cases c rule: change_json.cases) (auto simp: written_as_object)

lemma decode_change_cases:
  "decode_schedule_change (JObj fs) = Inr c \<longleftrightarrow> map_of fs ''version'' = Some (JInt 1) \<and>
    (if map_of fs ''operation'' = Some (JStr ''create'')
     then exact_keys fs [''version'', ''operation'', ''schedule''] \<and>
       (\<exists>r. decode_schedule_record (map_of fs ''schedule'') = Inr r \<and> c = ChangeCreate r)
     else if map_of fs ''operation'' = Some (JStr ''delete'')
     then exact_keys fs [''version'', ''operation'', ''id''] \<and>
       (\<exists>i. map_of fs ''id'' = Some (JStr i) \<and> text_ok i \<and> c = ChangeDelete i)
     else map_of fs ''operation'' = Some (JStr ''dispatch'') \<and> decode_dispatch fs = Inr c)"
  by (auto simp: decode_schedule_change_def result_simps)

lemma decode_dispatch_exact:
  "decode_dispatch fs = Inr c \<longleftrightarrow> (\<exists>i accepted. c = ChangeDispatch i accepted \<and> map_of fs ''id'' = Some (JStr i) \<and>
    text_ok i \<and>
    (case accepted of
       None \<Rightarrow> exact_keys fs [''version'', ''operation'', ''id'']
     | Some t \<Rightarrow> exact_keys fs [''version'', ''operation'', ''id'', ''acceptedAt''] \<and>
         map_of fs ''acceptedAt'' = Some (JStr t) \<and> instant_ok t))"
proof -
  have "exact_keys fs [''version'', ''operation'', ''id''] \<Longrightarrow>
      \<not> exact_keys fs [''version'', ''operation'', ''id'', ''acceptedAt'']"
    by (auto dest!: exact_keys_length)
  then show ?thesis by (auto simp: decode_dispatch_def result_simps split: option.splits)
qed

lemma decode_change_exact:
  "decode_schedule_change v = Inr c \<longleftrightarrow> schedule_change_ok c \<and> written_as v (change_json c)"
proof (cases "\<exists>fs. v = JObj fs")
  case False
  have "\<exists>gs. change_json c = JObj gs" by (cases c rule: change_json.cases) simp_all
  with False have "\<not> written_as v (change_json c)" using written_as_object_only by metis
  with False show ?thesis by (cases v) (simp_all add: decode_schedule_change_def)
next
  case True
  then obtain fs where v: "v = JObj fs" by blast
  have none: "decode_schedule_record None \<noteq> Inr r" for r by (simp add: decode_schedule_record_def)
  show ?thesis
  proof (cases c)
    case (ChangeCreate r)
    then show ?thesis unfolding v decode_change_cases change_written decode_dispatch_exact using none
      by (cases "map_of fs ''schedule''") (auto simp: decode_record_exact)
  next
    case (ChangeDelete i)
    then show ?thesis unfolding v decode_change_cases change_written decode_dispatch_exact by auto
  next
    case (ChangeDispatch i accepted)
    then show ?thesis unfolding v decode_change_cases change_written decode_dispatch_exact by (cases accepted) auto
  qed
qed

text \<open>
  C38. The durable format is exact: a payload decodes to a change exactly when the change is well
  formed and the payload is what is written for it, up to the order of fields - so the version is
  1, and the payload and its record have exactly the keys of their operation and kind; the
  instants accepted are exactly the canonical texts of the milliseconds of the years 1 to 9999,
  each is read back as its millisecond, and as an offset time it means the same.
\<close>

theorem schedule_format_exact:
  "(decode_schedule_change v = Inr c \<longleftrightarrow>
      schedule_change_ok c \<and> json_ok v \<and> deep_equal v (change_json c)) \<and>
   (schedule_change_ok c \<longleftrightarrow> decode_schedule_change (change_json c) = Inr c) \<and>
   {c. \<exists>v. decode_schedule_change v = Inr c} = {c. schedule_change_ok c} \<and>
   {s. is_ok (decode_instant (Some (JStr s)))} = iso_text ` {min_instant..max_instant} \<and>
   {t. in_range t} = {t. in_range t \<and> parse_instant (iso_text t) = t \<and> parse_offset_instant (iso_text t) = Inr t}"
proof (intro conjI)
  show "decode_schedule_change v = Inr c \<longleftrightarrow> schedule_change_ok c \<and> json_ok v \<and> deep_equal v (change_json c)"
    unfolding decode_change_exact written_as_def by simp
  show "schedule_change_ok c \<longleftrightarrow> decode_schedule_change (change_json c) = Inr c"
    using decode_change_json decode_change_ok by blast
  show "{c. \<exists>v. decode_schedule_change v = Inr c} = {c. schedule_change_ok c}"
    using decode_change_json decode_change_ok by blast
  have "is_ok (decode_instant (Some (JStr s))) \<longleftrightarrow> (\<exists>t. in_range t \<and> s = iso_text t)" for s
    unfolding is_ok_iff decode_instant_Inr instant_ok_iff by auto
  then show "{s. is_ok (decode_instant (Some (JStr s)))} = iso_text ` {min_instant..max_instant}"
    by (auto simp: in_range_def)
  show "{t. in_range t} = {t. in_range t \<and> parse_instant (iso_text t) = t \<and> parse_offset_instant (iso_text t) = Inr t}"
    using iso_ok offset_instant_iso by blast
qed

subsection \<open>Fixed-rate decisions\<close>

lemma range_safe: "in_range t \<Longrightarrow> is_safe t"
  by (auto simp: in_range_def is_safe_def min_instant_def max_instant_def max_safe_def)

lemma last_step:
  fixes a k :: int
  assumes "0 < k" and "t \<le> a"
  shows "t \<le> t + (a - t) div k * k" and "t + (a - t) div k * k \<le> a" and "a < t + (a - t) div k * k + k"
  using assms div_bounds [OF assms(1), of "a - t"] pos_imp_zdiv_nonneg_iff [OF assms(1), of "a - t"]
  by (simp_all add: mult.commute)

lemma resolve_every_Inr:
  assumes rule: "rule_ok (RuleEvery n)" and target: "instant_ok s" and accepted: "in_range a" "parse_instant s \<le> a"
  defines "occ \<equiv> parse_instant s + (a - parse_instant s) div (n * 1000) * (n * 1000)"
  shows "resolve_every_occurrence s n a =
      Inr \<lparr>eo_at = iso_text occ, eo_next = (if occ + n * 1000 \<le> max_instant then Some (iso_text (occ + n * 1000)) else None)\<rparr>"
    and "in_range occ" and "parse_instant s \<le> occ" and "occ \<le> a" and "a < occ + n * 1000"
proof -
  have k: "0 < n * 1000" "is_safe (n * 1000)" using rule by (simp_all add: min_every_def)
  note step = last_step [OF k(1) accepted(2), folded occ_def]
  show occ: "parse_instant s \<le> occ" "occ \<le> a" "a < occ + n * 1000" by (fact step)+
  show range: "in_range occ" using step(1,2) target accepted(1) by (auto simp: in_range_def instant_ok_def)
  have "\<not> is_safe (occ + n * 1000) \<or> max_instant < occ + n * 1000 \<longleftrightarrow> \<not> occ + n * 1000 \<le> max_instant"
    using range k(1) by (auto simp: is_safe_def in_range_def min_instant_def max_instant_def max_safe_def)
  moreover have "\<not> (\<not> is_safe a \<or> a < min_instant \<or> max_instant < a)" "\<not> (\<not> is_safe occ \<or> occ < parse_instant s \<or> a < occ)"
    using range_safe [OF accepted(1)] range_safe [OF range] accepted(1) step by (auto simp: in_range_def)
  ultimately show "resolve_every_occurrence s n a =
      Inr \<lparr>eo_at = iso_text occ, eo_next = (if occ + n * 1000 \<le> max_instant then Some (iso_text (occ + n * 1000)) else None)\<rparr>"
    unfolding resolve_every_occurrence_def Let_def using k accepted(2) by (simp add: throw_if_def not_le flip: occ_def)
qed

text \<open>
  C37. A fixed-rate rule skips what it missed: from a well-formed record, a decision at any later
  instant yields the last occurrence on the grid of the rule that is due, however many were missed,
  and the next target is the first one on the grid strictly after the decision, missing only when
  it lies beyond the year 9999.
\<close>

theorem every_latest_occurrence:
  assumes rule: "rule_ok (RuleEvery n)" and target: "instant_ok s" and accepted: "in_range a" "parse_instant s \<le> a"
  shows "\<exists>occ k. resolve_every_occurrence s n a = Inr occ \<and> 0 \<le> k \<and>
    parse_instant (eo_at occ) = parse_instant s + k * (n * 1000) \<and>
    parse_instant (eo_at occ) \<le> a \<and>
    (\<forall>j. parse_instant s + j * (n * 1000) \<le> a \<longrightarrow> j \<le> k) \<and>
    (case eo_next occ of
       Some t \<Rightarrow> instant_ok t \<and> a < parse_instant t \<and> parse_instant t = parse_instant s + (k + 1) * (n * 1000)
     | None \<Rightarrow> max_instant < parse_instant s + (k + 1) * (n * 1000))"
proof -
  define k where "k = (a - parse_instant s) div (n * 1000)"
  define occ where "occ = parse_instant s + k * (n * 1000)"
  have pos: "0 < n * 1000" using rule by (simp add: min_every_def)
  note r = resolve_every_Inr [OF assms, folded k_def, folded occ_def]
  have "0 \<le> k" unfolding k_def using accepted(2) by (subst pos_imp_zdiv_nonneg_iff [OF pos]) simp
  moreover have "j \<le> k" if "parse_instant s + j * (n * 1000) \<le> a" for j
  proof -
    from that r(5) have "j * (n * 1000) < (k + 1) * (n * 1000)" by (simp add: occ_def algebra_simps)
    then have "j < k + 1" using pos by (simp add: mult_less_cancel_right)
    then show ?thesis by simp
  qed
  moreover have "in_range (occ + n * 1000)" if "occ + n * 1000 \<le> max_instant"
    using that r(2) pos by (simp add: in_range_def)
  moreover have grid: "parse_instant s + (k + 1) * (n * 1000) = occ + n * 1000" by (simp add: occ_def algebra_simps)
  moreover note r(4,5) iso_ok [OF r(2)] iso_ok [of "occ + n * 1000"]
  ultimately show ?thesis
    unfolding r(1) by (intro exI [of _ k] exI conjI; (rule refl)?) (auto simp: grid simp flip: occ_def)
qed

lemma every_latest_occurrence_witness:
  "\<exists>occ. resolve_every_occurrence ''2024-02-29T10:00:00.000Z'' 300 1709202010000 = Inr occ \<and> parse_instant (eo_at occ) \<le> 1709202010000"
proof -
  have "rule_ok (RuleEvery 300)" "instant_ok ''2024-02-29T10:00:00.000Z''" "in_range 1709202010000"
      "parse_instant ''2024-02-29T10:00:00.000Z'' \<le> 1709202010000" by code_simp+
  from every_latest_occurrence [OF this] show ?thesis by blast
qed

subsection \<open>The log\<close>

text \<open>The records a log has created, in order.\<close>

definition created_by :: "session_event \<Rightarrow> schedule_record option" where
  "created_by e =
     (case ev_data e of
        PluginEvent t v \<Rightarrow>
          if t = ''schedule/change'' then (case decode_schedule_change v of Inr (ChangeCreate r) \<Rightarrow> Some r | _ \<Rightarrow> None) else None
      | _ \<Rightarrow> None)"

definition created_records :: "session_event list \<Rightarrow> schedule_record list" where
  "created_records es = List.map_filter created_by es"

text \<open>An active record is what was created, except that a fixed-rate rule has moved along its grid.\<close>

definition moved_along :: "schedule_record \<Rightarrow> schedule_record \<Rightarrow> bool" where
  "moved_along r r' \<longleftrightarrow> sc_id r' = sc_id r \<and> sc_prompt r' = sc_prompt r \<and> sc_rule r' = sc_rule r \<and>
     (case sc_rule r of
        RuleEvery n \<Rightarrow> (\<exists>k\<ge>0. due_at r' = due_at r + k * (n * 1000))
      | _ \<Rightarrow> sc_at r' = sc_at r)"

definition schedule_ok :: "session_event list \<Rightarrow> schedule_state \<Rightarrow> bool" where
  "schedule_ok es st \<longleftrightarrow>
     map_ok (sd_active st) \<and> distinct (sd_seen st) \<and> sd_seen st = map sc_id (created_records es) \<and>
     subseq (map fst (sd_active st)) (sd_seen st) \<and>
     (\<forall>(i, r) \<in> set (sd_active st). sc_id r = i \<and> record_ok r \<and> (\<exists>c \<in> set (created_records es). moved_along c r))"

lemma created_records_append [simp]: "created_records (es @ [e]) = created_records es @ (case created_by e of None \<Rightarrow> [] | Some r \<Rightarrow> [r])"
  by (simp add: created_records_def List.map_filter_def split: option.splits)

lemma moved_along_refl [simp]: "moved_along r r"
  unfolding moved_along_def by (cases "sc_rule r") (auto intro: exI [of _ 0])

lemma moved_along_trans:
  assumes "moved_along a b" and "moved_along b c"
  shows "moved_along a c"
proof (cases "sc_rule a")
  case (RuleEvery n)
  with assms obtain k l where "0 \<le> k" "0 \<le> l" "due_at b = due_at a + k * (n * 1000)" "due_at c = due_at b + l * (n * 1000)"
    by (auto simp: moved_along_def)
  then have "due_at c = due_at a + (k + l) * (n * 1000)" "0 \<le> k + l" by (simp_all add: algebra_simps)
  with assms RuleEvery show ?thesis by (auto simp: moved_along_def)
qed (use assms in \<open>auto simp: moved_along_def\<close>)

text \<open>A dispatched fixed-rate record that stays active is well formed and later than the decision.\<close>

lemma dispatched_next:
  assumes "dispatched_record r accepted = Inr (Some r')" and "record_ok r" and "case accepted of None \<Rightarrow> True | Some t \<Rightarrow> instant_ok t"
  shows "record_ok r' \<and> moved_along r r' \<and>
    (\<exists>n t. sc_rule r = RuleEvery n \<and> accepted = Some t \<and> parse_instant t < due_at r' \<and> due_at r < due_at r')"
proof -
  from assms(1) obtain n t where n: "sc_rule r = RuleEvery n" and t: "accepted = Some t"
      and occ: "\<exists>occ. resolve_every_occurrence (sc_at r) n (parse_instant t) = Inr occ \<and>
        map_option (\<lambda>next_at. r\<lparr>sc_at := next_at\<rparr>) (eo_next occ) = Some r'"
    by (auto simp: dispatched_record_def result_simps split: schedule_rule.splits option.splits)
  have rule: "rule_ok (RuleEvery n)" and at: "instant_ok (sc_at r)" using assms(2) n by (metis record_ok_def)+
  have acc: "in_range (parse_instant t)" using assms(3) t by (simp add: instant_ok_def)
  have later: "due_at r \<le> parse_instant t"
    using occ by (auto simp: resolve_every_occurrence_def Let_def result_simps)
  note r = resolve_every_Inr [OF rule at acc later]
  define o1 where "o1 = due_at r + (parse_instant t - due_at r) div (n * 1000) * (n * 1000)"
  note r = r [folded o1_def]
  from occ r(1) have r': "r' = r\<lparr>sc_at := iso_text (o1 + n * 1000)\<rparr>" and small: "o1 + n * 1000 \<le> max_instant"
    by (auto split: if_splits)
  have pos: "0 < n * 1000" using rule by (simp add: min_every_def)
  with r(2) small have "in_range (o1 + n * 1000)" by (simp add: in_range_def)
  from iso_ok [OF this] have next_ok: "instant_ok (sc_at r')" "due_at r' = o1 + n * 1000" by (simp_all add: r')
  have "due_at r' = due_at r + ((parse_instant t - due_at r) div (n * 1000) + 1) * (n * 1000)"
    unfolding next_ok(2) o1_def by (simp add: algebra_simps)
  moreover have "0 \<le> (parse_instant t - due_at r) div (n * 1000) + 1"
    using later pos_imp_zdiv_nonneg_iff [OF pos, of "parse_instant t - due_at r"] by simp
  ultimately have "moved_along r r'" unfolding moved_along_def using n by (auto simp: r')
  moreover have "record_ok r'" using assms(2) next_ok(1) by (simp add: record_ok_def r')
  moreover have "parse_instant t < due_at r'" "due_at r < due_at r'" using r(3,5) pos by (simp_all add: next_ok(2))
  ultimately show ?thesis using n t by blast
qed

lemma subseq_set: "subseq xs ys \<Longrightarrow> set xs \<subseteq> set ys"
  by (auto elim: list_emb_set)

lemma subseq_delete: "subseq (map fst (map_delete i m)) (map fst m)"
proof -
  have "map fst (map_delete i m) = filter (\<lambda>k. k \<noteq> i) (map fst m)" by (induction m) auto
  then show ?thesis by simp
qed

lemma map_fst_replace: "map_has m i \<Longrightarrow> map fst (map_set i v m) = map fst m"
  by (induction m) (auto split: if_splits)

text \<open>How a change turns one state into the next.\<close>

lemma apply_create_Inr:
  "apply_schedule_change st (ChangeCreate r) = Inr st' \<longleftrightarrow> sc_id r \<notin> set (sd_seen st) \<and>
    st' = \<lparr>sd_active = map_set (sc_id r) r (sd_active st), sd_seen = sd_seen st @ [sc_id r]\<rparr>"
  by (auto simp: apply_schedule_change_def result_simps List.member_iff)

lemma apply_delete_Inr:
  "apply_schedule_change st (ChangeDelete i) = Inr st' \<longleftrightarrow> map_has (sd_active st) i \<and>
    st' = st\<lparr>sd_active := map_delete i (sd_active st)\<rparr>"
  by (auto simp: apply_schedule_change_def result_simps)

lemma apply_dispatch_Inr:
  "apply_schedule_change st (ChangeDispatch i accepted) = Inr st' \<longleftrightarrow>
    (\<exists>r. map_get (sd_active st) i = Some r \<and>
      ((dispatched_record r accepted = Inr None \<and> st' = st\<lparr>sd_active := map_delete i (sd_active st)\<rparr>) \<or>
       (\<exists>r'. dispatched_record r accepted = Inr (Some r') \<and> st' = st\<lparr>sd_active := map_set i r' (sd_active st)\<rparr>)))"
  by (auto simp: apply_schedule_change_def result_simps split: option.splits)

lemma apply_event_cases:
  assumes "apply_schedule_event st e = Inr st'"
  obtains (silent) "st' = st" and "created_by e = None"
  | (change) v c where "ev_data e = PluginEvent ''schedule/change'' v" and "decode_schedule_change v = Inr c"
      and "apply_schedule_change st c = Inr st'" and "schedule_change_ok c"
      and "created_by e = (case c of ChangeCreate r \<Rightarrow> Some r | _ \<Rightarrow> None)"
  using assms decode_change_ok
  by (auto simp: apply_schedule_event_def created_by_def result_simps split: event_data.splits if_split_asm schedule_change.splits)

lemma schedule_ok_same:
  assumes "created_records es' = created_records es"
  shows "schedule_ok es' st = schedule_ok es st"
  unfolding schedule_ok_def assms ..

lemma schedule_ok_remove:
  assumes "schedule_ok es st"
  shows "schedule_ok es (st\<lparr>sd_active := map_delete i (sd_active st)\<rparr>)"
  using assms subseq_order.order_trans [OF subseq_delete [of i "sd_active st"]]
  by (auto simp: schedule_ok_def set_map_delete)

lemma schedule_ok_move:
  assumes "schedule_ok es st" and "map_get (sd_active st) i = Some r" and "record_ok r'" and "moved_along r r'"
  shows "schedule_ok es (st\<lparr>sd_active := map_set i r' (sd_active st)\<rparr>)"
proof -
  have "(i, r) \<in> set (sd_active st)" using assms(2) by (rule map_of_SomeD)
  with assms(1) obtain c where c: "c \<in> set (created_records es)" "moved_along c r" "sc_id r = i" by (auto simp: schedule_ok_def)
  from moved_along_trans [OF c(2) assms(4)] c(3) assms(4) have "moved_along c r'" "sc_id r' = i" by (simp_all add: moved_along_def)
  with assms c(1) show ?thesis
    by (auto simp: schedule_ok_def map_fst_replace dest!: subsetD [OF set_map_set_subset])
qed

lemma schedule_ok_create:
  assumes ok: "schedule_ok es st" and fresh: "sc_id r \<notin> set (sd_seen st)" and r: "record_ok r"
    and es': "created_records es' = created_records es @ [r]"
  shows "schedule_ok es' \<lparr>sd_active = map_set (sc_id r) r (sd_active st), sd_seen = sd_seen st @ [sc_id r]\<rparr>"
proof -
  have "set (map fst (sd_active st)) \<subseteq> set (sd_seen st)"
    using ok unfolding schedule_ok_def by (elim conjE) (rule subseq_set)
  with fresh have new: "sc_id r \<notin> set (map fst (sd_active st))" by blast
  then have "map_get (sd_active st) (sc_id r) = None" by (simp add: map_of_eq_None_iff)
  from map_set_fresh [OF this, of r] ok fresh new r show ?thesis
    by (auto simp: schedule_ok_def es' map_ok_def intro: list_emb_append_mono)
qed

lemma schedule_ok_step:
  assumes ok: "schedule_ok es st" and step: "apply_schedule_event st e = Inr st'"
  shows "schedule_ok (es @ [e]) st'"
  using step
proof (cases rule: apply_event_cases)
  case silent
  with ok show ?thesis by (auto simp: schedule_ok_def)
next
  case (change v c)
  show ?thesis
  proof (cases c)
    case (ChangeCreate r)
    with change ok show ?thesis by (auto simp: apply_create_Inr intro!: schedule_ok_create)
  next
    case (ChangeDelete i)
    with change have st': "st' = st\<lparr>sd_active := map_delete i (sd_active st)\<rparr>"
        and created: "created_records (es @ [e]) = created_records es"
      by (simp_all add: apply_delete_Inr)
    show ?thesis unfolding schedule_ok_same [OF created] st' by (rule schedule_ok_remove [OF ok])
  next
    case (ChangeDispatch i accepted)
    have created: "created_records (es @ [e]) = created_records es" using change ChangeDispatch by simp
    from change ChangeDispatch obtain r where r: "map_get (sd_active st) i = Some r"
        and next_state: "(dispatched_record r accepted = Inr None \<and> st' = st\<lparr>sd_active := map_delete i (sd_active st)\<rparr>) \<or>
          (\<exists>r'. dispatched_record r accepted = Inr (Some r') \<and> st' = st\<lparr>sd_active := map_set i r' (sd_active st)\<rparr>)"
      by (auto simp: apply_dispatch_Inr)
    have "record_ok r" using map_of_SomeD [OF r] ok by (auto simp: schedule_ok_def)
    with next_state change ChangeDispatch have "schedule_ok es st'"
      using schedule_ok_remove [OF ok] schedule_ok_move [OF ok r] dispatched_next by fastforce
    then show ?thesis unfolding schedule_ok_same [OF created] .
  qed
qed

interpretation schedule_log: replay apply_schedule_event empty_schedule_state schedule_ok
proof
  show "schedule_ok [] empty_schedule_state"
    by (simp add: schedule_ok_def empty_schedule_state_def created_records_def List.map_filter_def)
qed (rule schedule_ok_step)

lemma fold_schedule_Inr:
  "fold_schedule_events events seed = Inr st \<longleftrightarrow> is_safe seed \<and> 0 \<le> seed \<and> seed \<le> int (length events) \<and>
    foldR apply_schedule_event empty_schedule_state (drop (nat seed) events) = Inr st"
  by (auto simp: fold_schedule_events_def result_simps)

text \<open>
  C35. What a folded log holds: no id is created twice, the ids seen are the ids created after the
  seed, the active reminders are in the order of their creation under their own ids, each of them
  is well formed, and each is one the log created, unchanged except that the target of a fixed-rate
  rule has moved along the grid that its creation fixed.
\<close>

theorem schedule_log_invariant:
  assumes "fold_schedule_events events seed = Inr st"
  defines "created \<equiv> created_records (drop (nat seed) events)"
  shows "sd_seen st = map sc_id created \<and> distinct (map sc_id created) \<and>
    subseq (map fst (sd_active st)) (map sc_id created) \<and> distinct (map fst (sd_active st)) \<and>
    (\<forall>i r. map_get (sd_active st) i = Some r \<longrightarrow> sc_id r = i \<and> record_ok r \<and>
      (\<exists>c \<in> set created. moved_along c r))"
proof -
  from assms(1) have "schedule_ok (drop (nat seed) events) st"
    unfolding fold_schedule_Inr by (blast intro: schedule_log.hist_fold)
  then have ok: "map_ok (sd_active st)" "distinct (sd_seen st)" "sd_seen st = map sc_id created"
      "subseq (map fst (sd_active st)) (sd_seen st)"
      and all: "\<forall>(i, r) \<in> set (sd_active st). sc_id r = i \<and> record_ok r \<and> (\<exists>c \<in> set created. moved_along c r)"
    unfolding schedule_ok_def created_def by blast+
  have "sc_id r = i \<and> record_ok r \<and> (\<exists>c \<in> set created. moved_along c r)" if "map_get (sd_active st) i = Some r" for i r
    using all map_of_SomeD [OF that] by blast
  with ok show ?thesis by (metis map_ok_def)
qed

definition sample_record :: schedule_record where
  "sample_record = \<lparr>sc_id = ''a'', sc_prompt = ''tea'', sc_rule = RuleEvery 300, sc_at = ''2024-02-29T10:00:00.000Z''\<rparr>"

text \<open>The log entry that carries a change.\<close>

definition change_event :: "int \<Rightarrow> int \<Rightarrow> schedule_change \<Rightarrow> session_event" where
  "change_event n time c =
     \<lparr>ev_seq = n, ev_time = time, ev_data = PluginEvent ''schedule/change'' (change_json c), ev_ignorable = False,
      ev_surface_op = None, ev_sources = None\<rparr>"

definition sample_reminder_log :: "session_event list" where
  "sample_reminder_log =
     [change_event 0 0 (ChangeCreate sample_record),
      change_event 1 0 (ChangeDispatch ''a'' (Some ''2024-02-29T10:07:00.000Z''))]"

lemma sample_reminder_log_folds:
  "fold_schedule_events sample_reminder_log 0 =
    Inr \<lparr>sd_active = [(''a'', sample_record\<lparr>sc_at := ''2024-02-29T10:10:00.000Z''\<rparr>)], sd_seen = [''a'']\<rparr>"
  by code_simp

lemma schedule_log_invariant_witness:
  "\<exists>c \<in> set (created_records sample_reminder_log). moved_along c (sample_record\<lparr>sc_at := ''2024-02-29T10:10:00.000Z''\<rparr>)"
  using schedule_log_invariant [OF sample_reminder_log_folds] by simp

subsection \<open>Reminders that have ended\<close>

text \<open>The id a log entry of this domain is about.\<close>

definition changed_id :: "session_event \<Rightarrow> string option" where
  "changed_id e =
     (case ev_data e of
        PluginEvent t v \<Rightarrow>
          if t = ''schedule/change'' then
            (case decode_schedule_change v of
               Inr (ChangeCreate r) \<Rightarrow> Some (sc_id r)
             | Inr (ChangeDelete i) \<Rightarrow> Some i
             | Inr (ChangeDispatch i _) \<Rightarrow> Some i
             | Inl _ \<Rightarrow> None)
          else None
      | _ \<Rightarrow> None)"

lemma ended_step:
  assumes "apply_schedule_event st e = Inr st'" and "i \<in> set (sd_seen st)" and "map_get (sd_active st) i = None"
  shows "i \<in> set (sd_seen st') \<and> map_get (sd_active st') i = None \<and> changed_id e \<noteq> Some i"
  using assms(1)
proof (cases rule: apply_event_cases)
  case silent
  then show ?thesis using assms unfolding apply_schedule_event_def changed_id_def
    by (auto simp: result_simps apply_create_Inr apply_delete_Inr apply_dispatch_Inr
        split: event_data.splits if_split_asm schedule_change.splits sum.splits)
next
  case (change v c)
  have "changed_id e = Some (case c of ChangeCreate r \<Rightarrow> sc_id r | ChangeDelete j \<Rightarrow> j | ChangeDispatch j _ \<Rightarrow> j)"
    unfolding changed_id_def change(1,2) by (simp add: change(1,2) split: schedule_change.split)
  with change(3) assms(2,3) show ?thesis
    by (cases c) (auto simp: apply_create_Inr apply_delete_Inr apply_dispatch_Inr delete_conv')
qed

lemma ended_fold:
  assumes "foldR apply_schedule_event st fs = Inr t" and "i \<in> set (sd_seen st)" and "map_get (sd_active st) i = None"
  shows "map_get (sd_active t) i = None \<and> (\<forall>e \<in> set fs. changed_id e \<noteq> Some i)"
  using assms
proof (induction fs arbitrary: st)
  case (Cons e fs)
  from Cons.prems(1) obtain u where "apply_schedule_event st e = Inr u" "foldR apply_schedule_event u fs = Inr t"
    by (auto simp: result_simps)
  with ended_step [OF this(1) Cons.prems(2,3)] Cons.IH [of u] show ?case by auto
qed simp

text \<open>
  C36. A reminder ends once: when it has been deleted, delivered, or has run out of targets, no
  accepted continuation of the log revives it, reuses its id, delivers it again or deletes it again.
\<close>

theorem ended_reminders_stay_ended:
  assumes "fold_schedule_events events seed = Inr st" and "i \<in> set (sd_seen st)" and "map_get (sd_active st) i = None"
    and "fold_schedule_events (events @ later) seed = Inr st'"
  shows "map_get (sd_active st') i = None \<and> (\<forall>e \<in> set later. changed_id e \<noteq> Some i)"
proof -
  from assms(1,4) have "foldR apply_schedule_event st later = Inr st'"
    by (auto simp: fold_schedule_Inr foldR_append result_simps)
  then show ?thesis using assms(2,3) by (rule ended_fold)
qed

definition deleted_log :: "session_event list" where
  "deleted_log = sample_reminder_log @ [change_event 2 0 (ChangeDelete ''a'')]"

lemma ended_reminders_stay_ended_witness:
  "map_get (sd_active \<lparr>sd_active = [(''b'', sample_record\<lparr>sc_id := ''b''\<rparr>)], sd_seen = [''a'', ''b'']\<rparr>) ''a'' = None"
proof -
  have "fold_schedule_events deleted_log 0 = Inr \<lparr>sd_active = [], sd_seen = [''a'']\<rparr>"
      "fold_schedule_events (deleted_log @ [change_event 3 0 (ChangeCreate (sample_record\<lparr>sc_id := ''b''\<rparr>))]) 0 =
        Inr \<lparr>sd_active = [(''b'', sample_record\<lparr>sc_id := ''b''\<rparr>)], sd_seen = [''a'', ''b'']\<rparr>"
    by code_simp+
  from ended_reminders_stay_ended [OF this(1) _ _ this(2), of "''a''"] show ?thesis by simp
qed

end
