(* ===== verification/ScheduleTools.thy ===== *)
theory ScheduleTools
  imports ScheduleLaws SessionLog
begin

text \<open>
  The three tools of the schedule package (\<open>packages/schedule/schedule/src/tools.ts\<close>) over the
  log of a Session. A call is one transaction of its agent. What it awaits or reads is an argument:
  whether its signal is aborted, whether each persistence checkpoint succeeds, the clock readings.
  The session is the one found after the first checkpoint, since nothing of it is read before.
\<close>

subsection \<open>Calls and outcomes\<close>

datatype tool_error = ToolError string | PersistenceUncertain string "string option"

record create_args =
  ca_keys :: "string list"
  ca_prompt :: string
  ca_after :: "int option"
  ca_at :: "json option"
  ca_every :: "int option"

record tool_env =
  te_mine :: bool
  te_cancelled :: bool
  te_preflight :: bool
  te_now :: int
  te_aborted :: bool
  te_gate :: append_gate
  te_time :: int
  te_barrier :: bool
  te_view_now :: int

record tool_world =
  tw_session :: session_state
  tw_notified :: nat

datatype delete_value = Deleted string | NotFound string

definition internal_error :: tool_error where
  "internal_error = ToolError ''internal_error''"

definition given :: "'a option \<Rightarrow> nat" where
  "given v = (case v of None \<Rightarrow> 0 | Some _ \<Rightarrow> 1)"

definition bad_after :: "int \<Rightarrow> bool" where
  "bad_after n \<longleftrightarrow> \<not> is_safe n \<or> n \<le> 0"

definition validate_create_args :: "create_args \<Rightarrow> (tool_error, unit) result" where
  "validate_create_args args =
     throw_if (list_ex (\<lambda>k. k \<notin> set [''prompt'', ''after_seconds'', ''at'', ''every_seconds'']) (ca_keys args) \<or>
               given (ca_after args) + given (ca_at args) + given (ca_every args) \<noteq> 1)
       (ToolError ''invalid_selector'')
     (throw_if (trim (ca_prompt args) = []) (ToolError ''invalid_prompt'')
     (throw_if (case ca_after args of Some n \<Rightarrow> bad_after n | None \<Rightarrow> False) (ToolError ''invalid_rule'')
     (throw_if (case ca_every args of Some n \<Rightarrow> \<not> is_safe n | None \<Rightarrow> False) (ToolError ''invalid_rule'')
     (throw_if (case ca_every args of Some n \<Rightarrow> n < min_every | None \<Rightarrow> False) (ToolError ''frequency_too_high'')
     (Inr ())))))"

subsection \<open>Steps of a transaction\<close>

text \<open>The session's own log is folded after the prefix it inherited.\<close>

definition schedule_fold :: "session_state \<Rightarrow> (js_error, schedule_state) result" where
  "schedule_fold s =
     fold_schedule_events (ss_log s) (case sh_seed_length (ss_header s) of None \<Rightarrow> 0 | Some n \<Rightarrow> n)"

definition schedule_append ::
    "append_gate \<Rightarrow> int \<Rightarrow> schedule_change \<Rightarrow> session_state \<Rightarrow> session_state \<times> (js_error, session_event) result" where
  "schedule_append gate time c s =
     append_event s gate time (PluginEvent ''schedule/change'' (change_json c)) None None"

definition fold_for_tool :: "tool_world \<Rightarrow> tool_world \<times> (tool_error, schedule_state) result" where
  "fold_for_tool w =
     (w, case schedule_fold (tw_session w) of
           Inl _ \<Rightarrow> Inl (ToolError ''corrupt_schedule_log'')
         | Inr st \<Rightarrow> Inr st)"

definition preflight :: "bool \<Rightarrow> string \<Rightarrow> string option \<Rightarrow> tool_world \<Rightarrow> tool_world \<times> (tool_error, unit) result" where
  "preflight ok operation i = liftS (throw_if (\<not> ok) (PersistenceUncertain operation i) (Inr ()))"

definition cancellation :: "bool \<Rightarrow> tool_world \<Rightarrow> tool_world \<times> (tool_error, unit) result" where
  "cancellation aborted = liftS (throw_if aborted internal_error (Inr ()))"

definition notify_durable_change :: "tool_world \<Rightarrow> tool_world \<times> (tool_error, unit) result" where
  "notify_durable_change w = (w\<lparr>tw_notified := tw_notified w + 1\<rparr>, Inr ())"

definition tool_append :: "tool_env \<Rightarrow> schedule_change \<Rightarrow> tool_world \<Rightarrow> tool_world \<times> (tool_error, unit) result" where
  "tool_append env c w =
     (case schedule_append (te_gate env) (te_time env) c (tw_session w) of
        (s, Inl _) \<Rightarrow> (w\<lparr>tw_session := s\<rparr>, Inl internal_error)
      | (s, Inr _) \<Rightarrow> (w\<lparr>tw_session := s\<rparr>, Inr ()))"

definition read_schedules ::
    "tool_env \<Rightarrow> string \<Rightarrow> string option \<Rightarrow> tool_world \<Rightarrow> tool_world \<times> (tool_error, schedule_state) result" where
  "read_schedules env operation i =
     bindS (cancellation (te_cancelled env)) (\<lambda>_.
     bindS (preflight (te_preflight env) operation i) (\<lambda>_.
     bindS notify_durable_change (\<lambda>_. fold_for_tool)))"

definition write_change ::
    "tool_env \<Rightarrow> string \<Rightarrow> string \<Rightarrow> schedule_change \<Rightarrow> tool_world \<Rightarrow> tool_world \<times> (tool_error, unit) result" where
  "write_change env operation i c =
     bindS (cancellation (te_aborted env)) (\<lambda>_.
     bindS (tool_append env c) (\<lambda>_.
     bindS (preflight (te_barrier env) operation (Some i)) (\<lambda>_. notify_durable_change)))"

subsection \<open>The tools\<close>

definition create_record ::
    "zone_db \<Rightarrow> string \<Rightarrow> create_args \<Rightarrow> int \<Rightarrow> (tool_error, schedule_record) result" where
  "create_record db i args now =
     map_sum (\<lambda>e. case e of InputError code \<Rightarrow> ToolError code) id
       (case ca_at args of
          Some at \<Rightarrow> create_at_record db i (ca_prompt args) at now
        | None \<Rightarrow>
            (case ca_after args of
               Some n \<Rightarrow> create_after_record i (ca_prompt args) n now
             | None \<Rightarrow>
                 (case ca_every args of
                    Some n \<Rightarrow> create_every_record i (ca_prompt args) n now
                  | None \<Rightarrow> Inl (InputError ''invalid_rule''))))"

definition new_record ::
    "zone_db \<Rightarrow> schedule_state \<Rightarrow> create_args \<Rightarrow> int \<Rightarrow> (tool_error, schedule_record) result" where
  "new_record db st args now =
     (case allocate_schedule_id st of
        None \<Rightarrow> Inl internal_error
      | Some i \<Rightarrow> create_record db i args now)"

definition schedule_create ::
    "zone_db \<Rightarrow> tool_env \<Rightarrow> create_args \<Rightarrow> tool_world \<Rightarrow> tool_world \<times> (tool_error, schedule_view) result" where
  "schedule_create db env args =
     bindS (liftS (throw_if (\<not> te_mine env) internal_error (validate_create_args args))) (\<lambda>_.
     bindS (read_schedules env ''create'' None) (\<lambda>st.
     bindS (liftS (new_record db st args (te_now env))) (\<lambda>r.
     bindS (write_change env ''create'' (sc_id r) (ChangeCreate r)) (\<lambda>_.
     liftS (Inr (view_record r (te_view_now env)))))))"

definition schedule_list ::
    "tool_env \<Rightarrow> tool_world \<Rightarrow> tool_world \<times> (tool_error, schedule_view list) result" where
  "schedule_list env =
     bindS (liftS (throw_if (\<not> te_mine env) internal_error (Inr ()))) (\<lambda>_.
     bindS (read_schedules env ''list'' None) (\<lambda>st.
     liftS (Inr (map (\<lambda>r. view_record r (te_view_now env)) (map_values (sd_active st))))))"

definition schedule_delete ::
    "tool_env \<Rightarrow> string \<Rightarrow> tool_world \<Rightarrow> tool_world \<times> (tool_error, delete_value) result" where
  "schedule_delete env i =
     bindS (liftS (throw_if (i = [] \<or> trim i \<noteq> i) (ToolError ''invalid_rule'')
       (throw_if (\<not> te_mine env) internal_error (Inr ())))) (\<lambda>_.
     bindS (read_schedules env ''delete'' (Some i)) (\<lambda>st.
     if \<not> list_ex (\<lambda>r. sc_id r = i) (map_values (sd_active st)) then liftS (Inr (NotFound i))
     else bindS (write_change env ''delete'' i (ChangeDelete i)) (\<lambda>_. liftS (Inr (Deleted i)))))"

text \<open>The companion that validates a stream before an event of this domain is published.\<close>

definition validate_stream :: "session_event list \<Rightarrow> int \<Rightarrow> string option" where
  "validate_stream events seed =
     (case fold_schedule_events events seed of Inl (JsError detail) \<Rightarrow> Some detail | Inr _ \<Rightarrow> None)"

subsection \<open>Fresh ids\<close>

definition numbered_id :: "nat \<Rightarrow> string" where
  "numbered_id k = ''schedule-'' @ show_nat k"

lemma numbered_id_inj: "numbered_id m = numbered_id n \<longleftrightarrow> m = n"
  by (auto simp: numbered_id_def dest: show_nat_inj)

lemma show_nat_last: "\<exists>s. show_nat n = s @ [char_of (48 + n mod 10)]"
  by (subst show_nat.simps) simp

lemma digit_not_space: "(d :: nat) < 10 \<Longrightarrow> \<not> is_js_space (char_of (48 + d))"
  by (simp add: is_js_space_def Let_def of_char_digit)

lemma numbered_id_ok: "text_ok (numbered_id k)"
proof -
  obtain s where s: "show_nat k = s @ [char_of (48 + k mod 10)]" using show_nat_last by blast
  have "\<not> is_js_space (CHR ''s'')" by code_simp
  then show ?thesis
    using digit_not_space [of "k mod 10"] unfolding text_ok_def trim_id_iff numbered_id_def s by simp
qed

lemma next_id_Some:
  "next_schedule_id fuel n seen = Some i \<Longrightarrow> i \<notin> set seen \<and> (\<exists>k. i = numbered_id k)"
  by (induction fuel n seen rule: next_schedule_id.induct)
    (auto simp: Let_def numbered_id_def List.member_iff split: if_splits)

lemma next_id_None:
  "next_schedule_id fuel n seen = None \<Longrightarrow> numbered_id ` {n..<n + fuel} \<subseteq> set seen"
proof (induction fuel n seen rule: next_schedule_id.induct)
  case (2 fuel n seen)
  then have "numbered_id n \<in> set seen" "numbered_id ` {Suc n..<Suc n + fuel} \<subseteq> set seen"
    by (auto simp: Let_def numbered_id_def List.member_iff split: if_splits)
  moreover have "{n..<n + Suc fuel} = insert n {Suc n..<Suc n + fuel}" by auto
  ultimately show ?case by simp
qed simp

lemma next_id_found:
  assumes "length seen < fuel"
  shows "\<exists>i. next_schedule_id fuel n seen = Some i"
proof (rule ccontr)
  assume "\<not> ?thesis"
  then have "numbered_id ` {n..<n + fuel} \<subseteq> set seen" by (intro next_id_None) simp
  then have "card (numbered_id ` {n..<n + fuel}) \<le> length seen"
    by (meson List.finite_set card_length card_mono le_trans)
  moreover have "inj numbered_id" by (rule injI) (simp add: numbered_id_inj)
  then have "card (numbered_id ` {n..<n + fuel}) = fuel" by (simp add: card_image inj_on_subset)
  ultimately show False using assms by simp
qed

lemma allocated_id:
  "\<exists>i. allocate_schedule_id st = Some i \<and> i \<notin> set (sd_seen st) \<and> text_ok i"
proof -
  obtain i where "allocate_schedule_id st = Some i"
    unfolding allocate_schedule_id_def Let_def using next_id_found lessI by blast
  moreover from this have "i \<notin> set (js_set (sd_seen st)) \<and> (\<exists>k. i = numbered_id k)"
    unfolding allocate_schedule_id_def Let_def by (rule next_id_Some)
  ultimately show ?thesis using numbered_id_ok by auto
qed

subsection \<open>New records\<close>

text \<open>The range of the clock: the time values of ECMAScript.\<close>

definition clock_ok :: "int \<Rightarrow> bool" where
  "clock_ok now \<longleftrightarrow> \<bar>now\<bar> \<le> 8640000000000000"

lemma future_instant_Inr [result_simps]:
  "future_instant t now = Inr s \<longleftrightarrow> is_safe now \<and> in_range t \<and> now < t \<and> s = iso_text t"
  using range_safe [of t] by (auto simp: future_instant_def in_range_def result_simps)

lemma normal_prompt_Inr [result_simps]:
  "normal_prompt p = Inr s \<longleftrightarrow> s = trim p \<and> text_ok s"
  by (auto simp: normal_prompt_def text_ok_def result_simps)

lemma iso_facts: "in_range t \<Longrightarrow> instant_ok (iso_text t)" "in_range t \<Longrightarrow> parse_instant (iso_text t) = t"
  using iso_ok by blast+

lemma interval_safe:
  assumes "clock_ok now" and "in_range (now + n * 1000)"
  shows "is_safe (n * 1000)"
  using assms by (auto simp: clock_ok_def in_range_def is_safe_def max_instant_def min_instant_def max_safe_def)

lemma map_sum_id_Inr: "map_sum f id x = Inr r \<longleftrightarrow> x = Inr r"
  by (cases x) simp_all

lemma create_record_ok:
  assumes "create_record db i args now = Inr r" and "text_ok i" and "clock_ok now"
  shows "record_ok r \<and> now < due_at r \<and> sc_id r = i \<and> sc_prompt r = trim (ca_prompt args)"
proof -
  have after: ?thesis if "create_after_record i (ca_prompt args) n now = Inr r" for n
    using that assms(2) by (auto simp: record_ok_def iso_facts create_after_record_def result_simps)
  moreover have ?thesis if "create_every_record i (ca_prompt args) n now = Inr r" for n
    using that assms(2,3) interval_safe by (auto simp: record_ok_def iso_facts create_every_record_def result_simps)
  moreover have ?thesis if "create_at_record db i (ca_prompt args) at now = Inr r" for at
    using that assms(2) by (auto simp: record_ok_def iso_facts create_at_record_def result_simps)
  ultimately show ?thesis using assms(1)
    unfolding create_record_def map_sum_id_Inr by (auto split: option.splits)
qed

lemma new_record_ok:
  assumes "new_record db st args now = Inr r" and "clock_ok now"
  shows "record_ok r \<and> now < due_at r \<and> sc_id r \<notin> set (sd_seen st) \<and> sc_prompt r = trim (ca_prompt args)"
proof -
  obtain i where "allocate_schedule_id st = Some i" "i \<notin> set (sd_seen st)" "text_ok i" using allocated_id by blast
  with assms create_record_ok [of db i args now r] show ?thesis by (simp add: new_record_def)
qed

subsection \<open>Writing to the log\<close>

lemma fold_append_change:
  assumes st: "schedule_fold s = Inr st" and log: "ss_log s' = ss_log s @ [change_event n time c]"
    and header: "ss_header s' = ss_header s" and c: "schedule_change_ok c"
  shows "schedule_fold s' = apply_schedule_change st c"
proof -
  have "apply_schedule_event st (change_event n time c) = apply_schedule_change st c"
    by (simp add: apply_schedule_event_def change_event_def decode_change_json [OF c])
  then show ?thesis using st unfolding schedule_fold_def header log
    by (auto simp: fold_schedule_events_def throw_if_def foldR_snoc split: if_splits)
qed

lemma schedule_append_cases:
  assumes "session_ok s"
  shows "if gate \<noteq> GateOpen then (\<exists>s' e. schedule_append gate time c s = (s', Inl e) \<and> ss_log s' = ss_log s \<and> session_ok s' \<and> ss_header s' = ss_header s)
    else (\<exists>s' e. schedule_append gate time c s = (s', Inr e) \<and> session_ok s' \<and> ss_header s' = ss_header s \<and>
      ss_log s' = ss_log s @ [change_event (int (length (ss_log s))) time c])"
proof -
  define d where "d = PluginEvent ''schedule/change'' (change_json c)"
  have d: "assert_supported_request_header d = Inr ()" "\<not> is_surface_eligible_type (data_type d)"
    by (simp_all add: d_def assert_supported_request_header_def is_surface_eligible_type_def surface_event_types_def)
  show ?thesis
  proof (cases "gate \<noteq> GateOpen")
    case True
    from append_refused [OF assms True, of time d None None] True show ?thesis
      by (auto simp: schedule_append_def d_def)
  next
    case False
    from append_plain [OF assms d refl, of time] obtain m where
      app: "append_event s GateOpen time d None None =
        (s\<lparr>ss_surface := m, ss_log := ss_log s @ [change_event (int (length (ss_log s))) time c]\<rparr>,
         Inr (change_event (int (length (ss_log s))) time c))"
      by (auto simp: change_event_def d_def)
    have "session_ok (fst (append_event s GateOpen time d None None))" using assms by (rule append_event_ok)
    with app False show ?thesis by (simp add: schedule_append_def d_def)
  qed
qed

text \<open>What a transaction has read when it comes to its own part, and what writing one change does.\<close>

lemma read_schedules_Inr:
  "read_schedules env operation i w = (w1, Inr st) \<longleftrightarrow>
    \<not> te_cancelled env \<and> te_preflight env \<and> w1 = w\<lparr>tw_notified := tw_notified w + 1\<rparr> \<and> schedule_fold (tw_session w) = Inr st"
  by (auto simp: read_schedules_def cancellation_def preflight_def notify_durable_change_def fold_for_tool_def bindS_def
      liftS_def throw_if_def split: sum.splits)

lemma read_schedules_Inl:
  "read_schedules env operation i w = (w1, Inl e) \<Longrightarrow> tw_session w1 = tw_session w \<and>
    e = (if te_cancelled env then internal_error else if \<not> te_preflight env then PersistenceUncertain operation i
         else ToolError ''corrupt_schedule_log'')"
  by (auto simp: read_schedules_def cancellation_def preflight_def notify_durable_change_def fold_for_tool_def bindS_def
      liftS_def throw_if_def split: sum.splits if_splits)

lemma write_change_cases:
  assumes s: "session_ok (tw_session w)"
  obtains (refused) w' where "write_change env operation i c w = (w', Inl internal_error)"
      and "ss_log (tw_session w') = ss_log (tw_session w)" and "ss_header (tw_session w') = ss_header (tw_session w)"
      and "session_ok (tw_session w')"
  | (written) w' where "write_change env operation i c w = (w', if te_barrier env then Inr () else Inl (PersistenceUncertain operation (Some i)))"
      and "ss_log (tw_session w') = ss_log (tw_session w) @ [change_event (int (length (ss_log (tw_session w)))) (te_time env) c]"
      and "ss_header (tw_session w') = ss_header (tw_session w)" and "session_ok (tw_session w')"
proof (cases "te_aborted env \<or> te_gate env \<noteq> GateOpen")
  case True
  with schedule_append_cases [OF s, of "te_gate env" "te_time env" c] refused s show thesis
    by (cases "te_aborted env") (auto simp: write_change_def cancellation_def tool_append_def bindS_def liftS_def throw_if_def)
next
  case False
  with schedule_append_cases [OF s, of "te_gate env" "te_time env" c] obtain s' e where
    "schedule_append (te_gate env) (te_time env) c (tw_session w) = (s', Inr e)" "session_ok s'" "ss_header s' = ss_header (tw_session w)"
    "ss_log s' = ss_log (tw_session w) @ [change_event (int (length (ss_log (tw_session w)))) (te_time env) c]" by auto
  with False written show thesis
    by (cases "te_barrier env")
      (auto simp: write_change_def cancellation_def tool_append_def preflight_def notify_durable_change_def bindS_def liftS_def throw_if_def)
qed

subsection \<open>What the tools do\<close>

lemma validated: "throw_if (\<not> te_mine env) internal_error (validate_create_args args) = Inl e \<Longrightarrow> e \<noteq> PersistenceUncertain operation i"
  by (auto simp: validate_create_args_def throw_if_def internal_error_def split: if_splits)

lemma new_record_Inl: "new_record db st args now = Inl e \<Longrightarrow> e \<noteq> PersistenceUncertain operation i"
  by (auto simp: new_record_def create_record_def internal_error_def map_sum_def split: option.splits sum.splits input_error.splits)

text \<open>A call of \<open>schedule_create\<close> is refused before it writes, or comes to write one admitted record.\<close>

lemma schedule_create_cases:
  assumes "clock_ok (te_now env)"
  obtains (refused) w1 e where "schedule_create db env args w = (w1, Inl e)" and "tw_session w1 = tw_session w"
      and "\<forall>i. e \<noteq> PersistenceUncertain ''create'' (Some i)"
  | (admitted) w1 st r where "schedule_create db env args w =
        bindS (write_change env ''create'' (sc_id r) (ChangeCreate r)) (\<lambda>_. liftS (Inr (view_record r (te_view_now env)))) w1"
      and "tw_session w1 = tw_session w" and "schedule_fold (tw_session w) = Inr st"
      and "record_ok r" and "te_now env < due_at r" and "sc_id r \<notin> set (sd_seen st)" and "sc_prompt r = trim (ca_prompt args)"
proof (cases "throw_if (\<not> te_mine env) internal_error (validate_create_args args)")
  case (Inl e)
  with refused validated [OF this] show thesis by (simp add: schedule_create_def)
next
  case valid: (Inr u)
  obtain w1 read where read: "read_schedules env ''create'' None w = (w1, read)" by (metis surj_pair)
  show thesis
  proof (cases read)
    case (Inl e)
    with refused valid read read_schedules_Inl [of env "''create''" None w w1 e] show thesis
      by (simp add: schedule_create_def internal_error_def)
  next
    case (Inr st)
    with read have w1: "tw_session w1 = tw_session w" and fold: "schedule_fold (tw_session w) = Inr st"
      by (simp_all add: read_schedules_Inr)
    show thesis
    proof (cases "new_record db st args (te_now env)")
      case (Inl e)
      with refused valid read Inr w1 new_record_Inl [OF Inl] fold show thesis by (simp add: schedule_create_def)
    next
      case new: (Inr r)
      from admitted [OF _ w1 fold, of r] new_record_ok [OF new assms] valid read Inr new show thesis by (simp add: schedule_create_def)
    qed
  qed
qed

definition written :: "tool_world \<Rightarrow> int \<Rightarrow> schedule_change \<Rightarrow> tool_world \<Rightarrow> bool" where
  "written w time c w' \<longleftrightarrow>
     ss_log (tw_session w') = ss_log (tw_session w) @ [change_event (int (length (ss_log (tw_session w)))) time c] \<and>
     session_ok (tw_session w') \<and> schedule_change_ok c \<and>
     (\<exists>st st'. schedule_fold (tw_session w) = Inr st \<and> apply_schedule_change st c = Inr st' \<and> schedule_fold (tw_session w') = Inr st')"

definition unwritten :: "tool_world \<Rightarrow> tool_world \<Rightarrow> bool" where
  "unwritten w w' \<longleftrightarrow> ss_log (tw_session w') = ss_log (tw_session w) \<and>
     ss_header (tw_session w') = ss_header (tw_session w) \<and> session_ok (tw_session w')"

lemma write_change_written:
  assumes s: "session_ok (tw_session w)" and same: "tw_session w1 = tw_session w"
    and st: "schedule_fold (tw_session w) = Inr st" and app: "apply_schedule_change st c = Inr st'" and c: "schedule_change_ok c"
    and run: "bindS (write_change env operation i c) (\<lambda>_. liftS (Inr v)) w1 = (w', res)"
  shows "(unwritten w w' \<and> res = Inl internal_error) \<or>
    (written w (te_time env) c w' \<and> res = (if te_barrier env then Inr v else Inl (PersistenceUncertain operation (Some i))))"
proof -
  have s1: "session_ok (tw_session w1)" using s same by simp
  show ?thesis
  proof (rule write_change_cases [OF s1, of env operation i c])
    fix w2 assume "write_change env operation i c w1 = (w2, Inl internal_error)" "ss_log (tw_session w2) = ss_log (tw_session w1)"
      "ss_header (tw_session w2) = ss_header (tw_session w1)" "session_ok (tw_session w2)"
    with run same show ?thesis by (simp add: unwritten_def)
  next
    fix w2 assume w2: "write_change env operation i c w1 = (w2, if te_barrier env then Inr () else Inl (PersistenceUncertain operation (Some i)))"
      and log: "ss_log (tw_session w2) = ss_log (tw_session w1) @ [change_event (int (length (ss_log (tw_session w1)))) (te_time env) c]"
      and header: "ss_header (tw_session w2) = ss_header (tw_session w1)" and ok: "session_ok (tw_session w2)"
    have "schedule_fold (tw_session w2) = Inr st'" using fold_append_change [OF st _ _ c] log header app same by simp
    moreover have "w' = w2 \<and> res = (if te_barrier env then Inr v else Inl (PersistenceUncertain operation (Some i)))"
      using run w2 by (cases "te_barrier env") (simp_all add: liftS_def)
    ultimately show ?thesis using log ok st app same c by (simp add: written_def)
  qed
qed

lemma schedule_create_run:
  assumes ok: "session_ok (tw_session w)" and clock: "clock_ok (te_now env)"
    and run: "schedule_create db env args w = (w', res)"
  shows "(unwritten w w' \<and> (\<exists>e. res = Inl e \<and> (\<forall>i. e \<noteq> PersistenceUncertain ''create'' (Some i)))) \<or>
    (\<exists>st r. schedule_fold (tw_session w) = Inr st \<and> sc_id r \<notin> set (sd_seen st) \<and> record_ok r \<and>
      te_now env < due_at r \<and> sc_prompt r = trim (ca_prompt args) \<and> written w (te_time env) (ChangeCreate r) w' \<and>
      res = (if te_barrier env then Inr (view_record r (te_view_now env)) else Inl (PersistenceUncertain ''create'' (Some (sc_id r)))))"
  using clock
proof (cases rule: schedule_create_cases [where db = db and args = args and w = w])
  case (refused w1 e)
  with run ok show ?thesis by (auto simp: unwritten_def)
next
  case (admitted w1 st r)
  have "\<exists>st'. apply_schedule_change st (ChangeCreate r) = Inr st'" using admitted(6) by (simp add: apply_create_Inr)
  then obtain st' where "apply_schedule_change st (ChangeCreate r) = Inr st'" by blast
  from write_change_written [OF ok admitted(2,3) this _ run [unfolded admitted(1)]] admitted
  show ?thesis by (auto simp: internal_error_def)
qed

lemma schedule_create_ok:
  assumes "session_ok (tw_session w)" and "clock_ok (te_now env)"
  shows "unwritten w (fst (schedule_create db env args w)) \<or> (\<exists>r. written w (te_time env) (ChangeCreate r) (fst (schedule_create db env args w)))"
  using schedule_create_run [OF assms, of db args "fst (schedule_create db env args w)" "snd (schedule_create db env args w)"] by auto

text \<open>
  C34. \<open>schedule_create\<close> is all or nothing: either the log is unchanged, and the error says so (it is
  not the uncertainty about a created id), or the log has gained exactly one entry, which creates a
  well-formed record with an id never used before, the trimmed prompt and a target strictly after
  the clock, and which the fold accepts; the result is then its view, or, when the final checkpoint
  fails, the uncertainty that names its id.
\<close>

theorem schedule_create_outcome:
  assumes ok: "session_ok (tw_session w)" and clock: "clock_ok (te_now env)"
    and run: "schedule_create db env args w = (w', res)"
  shows "(unwritten w w' \<and> (\<exists>e. res = Inl e \<and> (\<forall>i. e \<noteq> PersistenceUncertain ''create'' (Some i)))) \<or>
    (\<exists>st r. schedule_fold (tw_session w) = Inr st \<and> sc_id r \<notin> set (sd_seen st) \<and> record_ok r \<and>
      te_now env < due_at r \<and> sc_prompt r = trim (ca_prompt args) \<and> written w (te_time env) (ChangeCreate r) w' \<and>
      res = (if te_barrier env then Inr (view_record r (te_view_now env)) else Inl (PersistenceUncertain ''create'' (Some (sc_id r)))))"
  using assms by (rule schedule_create_run)

definition sample_world :: tool_world where
  "sample_world = \<lparr>tw_session = empty_session, tw_notified = 0\<rparr>"

definition sample_tool_env :: tool_env where
  "sample_tool_env = \<lparr>te_mine = True, te_cancelled = False, te_preflight = True, te_now = 1709202000000, te_aborted = False,
     te_gate = GateOpen, te_time = 1709202000000, te_barrier = True, te_view_now = 1709202000000\<rparr>"

definition sample_args :: create_args where
  "sample_args = \<lparr>ca_keys = [''prompt'', ''every_seconds''], ca_prompt = '' tea '', ca_after = None, ca_at = None, ca_every = Some 600\<rparr>"

lemma schedule_create_outcome_witness:
  "\<exists>r. written sample_world 1709202000000 (ChangeCreate r) (fst (schedule_create sample_zones sample_tool_env sample_args sample_world)) \<and>
    sc_prompt r = ''tea'' \<and> 1709202000000 < due_at r"
proof -
  have "is_ok (snd (schedule_create sample_zones sample_tool_env sample_args sample_world))"
      "trim (ca_prompt sample_args) = ''tea''" "te_time sample_tool_env = 1709202000000" "te_now sample_tool_env = 1709202000000"
    by code_simp+
  moreover have "session_ok (tw_session sample_world)" "clock_ok (te_now sample_tool_env)"
    by (simp_all add: sample_world_def empty_session_ok sample_tool_env_def clock_ok_def)
  ultimately show ?thesis
    using schedule_create_outcome [of sample_world sample_tool_env sample_zones sample_args
        "fst (schedule_create sample_zones sample_tool_env sample_args sample_world)"
        "snd (schedule_create sample_zones sample_tool_env sample_args sample_world)"] by auto
qed

text \<open>Reminders are filed under their own ids.\<close>

lemma fold_ids:
  assumes "schedule_fold s = Inr st"
  shows "list_ex (\<lambda>r. sc_id r = i) (map_values (sd_active st)) \<longleftrightarrow> map_has (sd_active st) i"
proof -
  from assms obtain es where "foldR apply_schedule_event empty_schedule_state es = Inr st"
    unfolding schedule_fold_def fold_schedule_Inr by blast
  then have "schedule_ok es st" by (rule schedule_log.hist_fold)
  then have "\<forall>(j, r) \<in> set (sd_active st). sc_id r = j" by (auto simp: schedule_ok_def)
  then show ?thesis unfolding list_ex_iff by (force simp: map_of_eq_None_iff)
qed

text \<open>
  \<open>schedule_delete\<close> tells the truth about the log: it answers that it deleted the reminder only
  when the log has gained the one entry that deletes an active reminder, that there is none only
  when the folded log has none, and otherwise an error after which the log is unchanged, save that
  a failing final checkpoint is reported as uncertainty about an entry that was written.
\<close>

lemma schedule_delete_run:
  assumes ok: "session_ok (tw_session w)" and run: "schedule_delete env i w = (w', res)"
  shows "case res of
      Inr (Deleted j) \<Rightarrow> j = i \<and> written w (te_time env) (ChangeDelete i) w'
    | Inr (NotFound j) \<Rightarrow> j = i \<and> unwritten w w' \<and> (\<exists>st. schedule_fold (tw_session w) = Inr st \<and> map_get (sd_active st) i = None)
    | Inl e \<Rightarrow> unwritten w w' \<or>
        (written w (te_time env) (ChangeDelete i) w' \<and> e = PersistenceUncertain ''delete'' (Some i) \<and> \<not> te_barrier env)"
proof (cases "throw_if (i = [] \<or> trim i \<noteq> i) (ToolError ''invalid_rule'') (throw_if (\<not> te_mine env) internal_error (Inr ()))")
  case (Inl e)
  with run ok show ?thesis by (auto simp: schedule_delete_def unwritten_def)
next
  case valid: (Inr u)
  then have i: "text_ok i" by (auto simp: text_ok_def throw_if_def split: if_splits)
  obtain w1 read where read: "read_schedules env ''delete'' (Some i) w = (w1, read)" by (metis surj_pair)
  show ?thesis
  proof (cases read)
    case (Inl e)
    with run ok valid read read_schedules_Inl [of env "''delete''" "Some i" w w1 e] show ?thesis
      by (auto simp: schedule_delete_def unwritten_def)
  next
    case (Inr st)
    with read have w1: "tw_session w1 = tw_session w" and fold: "schedule_fold (tw_session w) = Inr st"
      by (simp_all add: read_schedules_Inr)
    show ?thesis
    proof (cases "map_has (sd_active st) i")
      case False
      with run ok valid read Inr w1 fold show ?thesis by (auto simp: schedule_delete_def fold_ids [OF fold] liftS_def unwritten_def)
    next
      case True
      then obtain st' where "apply_schedule_change st (ChangeDelete i) = Inr st'" by (simp add: apply_delete_Inr)
      moreover have "bindS (write_change env ''delete'' i (ChangeDelete i)) (\<lambda>_. liftS (Inr (Deleted i))) w1 = (w', res)"
        using run valid read Inr True by (simp add: schedule_delete_def fold_ids [OF fold])
      ultimately have "(unwritten w w' \<and> res = Inl internal_error) \<or> (written w (te_time env) (ChangeDelete i) w' \<and>
          res = (if te_barrier env then Inr (Deleted i) else Inl (PersistenceUncertain ''delete'' (Some i))))"
        using i by (intro write_change_written [OF ok w1 fold]) simp_all
      then show ?thesis by (cases "te_barrier env") auto
    qed
  qed
qed

subsection \<open>Any sequence of calls\<close>

text \<open>Tool calls with their circumstances, and appends by the rest of the harness.\<close>

datatype tool_call =
    CallCreate zone_db tool_env create_args
  | CallList tool_env
  | CallDelete tool_env string
  | Elsewhere append_gate int event_data "json option" "json option"

fun tool_exec :: "tool_world \<Rightarrow> tool_call \<Rightarrow> tool_world" where
  "tool_exec w (CallCreate db env args) = fst (schedule_create db env args w)"
| "tool_exec w (CallList env) = fst (schedule_list env w)"
| "tool_exec w (CallDelete env i) = fst (schedule_delete env i w)"
| "tool_exec w (Elsewhere gate time d op sources) = w\<lparr>tw_session := fst (append_event (tw_session w) gate time d op sources)\<rparr>"

fun call_fair :: "tool_call \<Rightarrow> bool" where
  "call_fair (CallCreate db env args) \<longleftrightarrow> clock_ok (te_now env)"
| "call_fair (CallList env) \<longleftrightarrow> True"
| "call_fair (CallDelete env i) \<longleftrightarrow> True"
| "call_fair (Elsewhere gate time d op sources) \<longleftrightarrow> data_type d \<noteq> ''schedule/change''"

definition stream_ok :: "tool_world \<Rightarrow> bool" where
  "stream_ok w \<longleftrightarrow> session_ok (tw_session w) \<and> is_ok (schedule_fold (tw_session w))"

lemma schedule_list_exact:
  assumes "schedule_list env w = (w', res)"
  shows "tw_session w' = tw_session w \<and>
    (\<forall>vs. res = Inr vs \<longrightarrow> (\<exists>st. schedule_fold (tw_session w) = Inr st \<and>
      vs = map (\<lambda>r. view_record r (te_view_now env)) (map_values (sd_active st))))"
proof (cases "te_mine env")
  case True
  obtain w1 read where read: "read_schedules env ''list'' None w = (w1, read)" by (metis surj_pair)
  from assms True read show ?thesis
    by (cases read) (auto simp: schedule_list_def liftS_def read_schedules_Inr dest: read_schedules_Inl)
qed (use assms in \<open>auto simp: schedule_list_def\<close>)

text \<open>
  A transition of the stream: the log grows by at most one entry, an entry of this domain is one
  that the fold accepts, and nothing else changes the folded reminders.
\<close>

definition stream_step :: "tool_world \<Rightarrow> tool_world \<Rightarrow> bool" where
  "stream_step w w' \<longleftrightarrow> session_ok (tw_session w') \<and>
     (unwritten w w' \<or> (\<exists>time c. written w time c w') \<or>
      (schedule_fold (tw_session w') = schedule_fold (tw_session w) \<and>
       (\<exists>e. ev_type e \<noteq> ''schedule/change'' \<and> ss_log (tw_session w') = ss_log (tw_session w) @ [e])))"

lemma fold_append_other:
  assumes "ss_log s' = ss_log s @ [e]" and "ss_header s' = ss_header s" and "ev_type e \<noteq> ''schedule/change''"
    and "schedule_fold s = Inr st"
  shows "schedule_fold s' = Inr st"
proof -
  have "apply_schedule_event t e = Inr t" for t
    using assms(3) unfolding apply_schedule_event_def by (cases "ev_data e") auto
  with assms(4) show ?thesis unfolding schedule_fold_def assms(1,2)
    by (auto simp: fold_schedule_events_def throw_if_def foldR_snoc split: if_splits)
qed

lemma elsewhere_step:
  assumes ok: "session_ok (tw_session w)" and st: "schedule_fold (tw_session w) = Inr st" and other: "data_type d \<noteq> ''schedule/change''"
  shows "stream_step w (tool_exec w (Elsewhere gate time d op sources))"
proof -
  obtain s' r where v: "append_validate (tw_session w) (gate = GateBusy) time d op sources = (s', r)" by (metis surj_pair)
  note cases = append_validate_cases [OF ok v]
  have ok': "session_ok (fst (append_event (tw_session w) gate time d op sources))" using ok by (rule append_event_ok)
  show ?thesis
  proof (cases "gate = GateOpen")
    case False
    from append_refused [OF ok False, of time d op sources] show ?thesis
      by (auto simp: stream_step_def unwritten_def)
  next
    case at_open: True
    show ?thesis
    proof (cases r)
      case (Inl x)
      with cases ok' show ?thesis by (simp add: stream_step_def unwritten_def append_event_def v)
    next
      case (Inr e)
      with cases have "ev_type e \<noteq> ''schedule/change''" using other by simp
      moreover have app: "fst (append_event (tw_session w) gate time d op sources) = append_commit s' e"
        using v Inr by (simp add: append_event_def at_open)
      moreover have log: "ss_log (append_commit s' e) = ss_log (tw_session w) @ [e]" "ss_header (append_commit s' e) = ss_header (tw_session w)"
        using cases Inr by (simp_all add: append_commit_def)
      moreover note fold_append_other [OF log calculation(1) st]
      ultimately show ?thesis using ok' st by (auto simp: stream_step_def)
    qed
  qed
qed

lemma tool_exec_step:
  assumes "stream_ok w" and "call_fair c"
  shows "stream_step w (tool_exec w c)"
proof -
  from assms(1) obtain st where ok: "session_ok (tw_session w)" and st: "schedule_fold (tw_session w) = Inr st"
    by (auto simp: stream_ok_def is_ok_iff)
  show ?thesis
  proof (cases c)
    case (CallCreate db env args)
    with schedule_create_ok [OF ok, of env db args] assms(2) show ?thesis
      by (auto simp: stream_step_def written_def unwritten_def)
  next
    case (CallList env)
    with schedule_list_exact [of env w "fst (schedule_list env w)" "snd (schedule_list env w)"] ok show ?thesis
      by (simp add: stream_step_def unwritten_def)
  next
    case (CallDelete env i)
    with schedule_delete_run [OF ok, of env i "fst (schedule_delete env i w)" "snd (schedule_delete env i w)"] show ?thesis
      by (auto simp: stream_step_def written_def unwritten_def split: sum.splits delete_value.splits)
  qed (use elsewhere_step [OF ok st] assms(2) in simp)
qed

lemma stream_step_ok: "stream_ok w \<Longrightarrow> stream_step w w' \<Longrightarrow> stream_ok w'"
  by (auto simp: stream_step_def stream_ok_def unwritten_def written_def schedule_fold_def)

text \<open>
  C33. The tools never corrupt the log: starting from a session whose reminder log folds, any
  sequence of calls of the three tools, with any arguments, cancellations, failing checkpoints and
  refused appends, and with any appends of other domains in between, keeps a session whose log
  folds, so that the companion that validates the stream never objects, and each single call
  writes at most one entry.
\<close>

theorem tools_keep_stream:
  assumes "stream_ok w" and "\<forall>c \<in> set calls. call_fair c"
  shows "stream_ok (foldl tool_exec w calls) \<and>
    validate_stream (ss_log (tw_session (foldl tool_exec w calls)))
      (case sh_seed_length (ss_header (tw_session (foldl tool_exec w calls))) of None \<Rightarrow> 0 | Some n \<Rightarrow> n) = None \<and>
    length (ss_log (tw_session (foldl tool_exec w calls))) \<le> length (ss_log (tw_session w)) + length calls"
proof -
  have "stream_ok (foldl tool_exec w calls) \<and>
    length (ss_log (tw_session (foldl tool_exec w calls))) \<le> length (ss_log (tw_session w)) + length calls"
    using assms
  proof (induction calls arbitrary: w)
    case (Cons c calls)
    then have step: "stream_step w (tool_exec w c)" by (intro tool_exec_step) simp_all
    have "length (ss_log (tw_session (tool_exec w c))) \<le> Suc (length (ss_log (tw_session w)))"
      using step by (auto simp: stream_step_def unwritten_def written_def)
    with Cons.IH [of "tool_exec w c"] Cons.prems stream_step_ok [OF _ step] show ?case by fastforce
  qed simp
  then show ?thesis
    by (auto simp: stream_ok_def validate_stream_def schedule_fold_def is_ok_iff split: sum.splits)
qed

lemma tools_keep_stream_witness:
  "stream_ok (foldl tool_exec sample_world
    [CallCreate sample_zones sample_tool_env sample_args, CallDelete sample_tool_env ''schedule-1'', CallList sample_tool_env])"
proof -
  have "is_ok (schedule_fold empty_session)" by code_simp
  then have "stream_ok sample_world" by (simp add: stream_ok_def sample_world_def empty_session_ok)
  moreover have "clock_ok (te_now sample_tool_env)" by (simp add: sample_tool_env_def clock_ok_def)
  ultimately show ?thesis
    using tools_keep_stream [of sample_world "[CallCreate sample_zones sample_tool_env sample_args,
      CallDelete sample_tool_env ''schedule-1'', CallList sample_tool_env]"] by simp
qed

end
