(* ===== verification/ScheduleText.thy ===== *)
theory ScheduleText
  imports ScheduleFold
begin

text \<open>
  The texts that deliver reminders are unambiguous: quoting is a prefix code without control
  characters, so a prompt cannot end its line, its quotation or its entry of a batch.
\<close>

subsection \<open>Quoting\<close>

text \<open>The length of the escape a text starts with, and the character it stands for.\<close>

definition escape_length :: "string \<Rightarrow> nat" where
  "escape_length s =
     (if s \<noteq> [] \<and> hd s = char_of (92 :: nat) then (if 1 < length s \<and> s ! 1 = CHR ''u'' then 6 else 2) else 1)"

definition hex_value :: "char \<Rightarrow> nat" where
  "hex_value c = (let n = of_char c in if n < 58 then n - 48 else n - 87)"

definition unescape :: "string \<Rightarrow> char" where
  "unescape s =
     (if escape_length s = 1 then hd s
      else if escape_length s = 6 then char_of (16 * hex_value (s ! 4) + hex_value (s ! 5))
      else if s ! 1 = CHR ''b'' then char_of (8 :: nat) else if s ! 1 = CHR ''t'' then char_of (9 :: nat)
      else if s ! 1 = CHR ''n'' then char_of (10 :: nat) else if s ! 1 = CHR ''f'' then char_of (12 :: nat)
      else if s ! 1 = CHR ''r'' then char_of (13 :: nat) else s ! 1)"

definition escape_ok :: "nat \<Rightarrow> bool" where
  "escape_ok n \<longleftrightarrow>
     (let s = json_char (char_of n) in
      escape_length s = length s \<and> unescape s = char_of n \<and> hd s \<noteq> char_of (34 :: nat) \<and> s \<noteq> [] \<and>
      list_all (\<lambda>c. 32 \<le> (of_char c :: nat)) s)"

lemma control_escapes_ok: "list_all escape_ok [0..<32]"
  by code_simp

lemma special_escapes_ok: "escape_ok 34" "escape_ok 92"
  by code_simp+

lemma json_char_ok:
  "escape_length (json_char c) = length (json_char c)" "unescape (json_char c) = c"
  "hd (json_char c) \<noteq> char_of (34 :: nat)" "json_char c \<noteq> []"
  "d \<in> set (json_char c) \<Longrightarrow> 32 \<le> (of_char d :: nat)"
proof -
  define n where "n = (of_char c :: nat)"
  have c: "c = char_of n" by (simp add: n_def)
  have "escape_ok n"
  proof (cases "n < 32 \<or> n = 34 \<or> n = 92")
    case True
    have "escape_ok m" if "m < 32" for m
      using control_escapes_ok that unfolding list_all_iff by (metis atLeastLessThan_iff set_upt zero_le)
    with True special_escapes_ok show ?thesis by blast
  next
    case False
    have "n < 256" by (simp add: n_def)
    then have n: "(of_char (char_of n :: char) :: nat) = n" by (simp add: of_char_of)
    with False have "json_char (char_of n) = [char_of n]" by (simp add: json_char_def Let_def)
    moreover have differ: "char_of n \<noteq> (char_of k :: char)" if "n \<noteq> k" "k < 256" for k :: nat
      using n that by (metis mod_less of_char_of)
    have "char_of n \<noteq> (char_of (34 :: nat) :: char)" "char_of n \<noteq> (char_of (92 :: nat) :: char)"
      by (rule differ; use False in simp)+
    ultimately show ?thesis using False n by (simp add: escape_ok_def Let_def escape_length_def unescape_def)
  qed
  then show "escape_length (json_char c) = length (json_char c)" "unescape (json_char c) = c"
      "hd (json_char c) \<noteq> char_of (34 :: nat)" "json_char c \<noteq> []"
      "d \<in> set (json_char c) \<Longrightarrow> 32 \<le> (of_char d :: nat)"
    unfolding c by (simp_all add: escape_ok_def Let_def list_all_iff)
qed

lemma json_char_cases: "\<exists>d ds. json_char c = d # ds \<and> d \<noteq> char_of (34 :: nat)"
  using json_char_ok(3,4) [of c] by (cases "json_char c") auto

lemma escape_length_append:
  "escape_length s = length s \<Longrightarrow> escape_length (s @ t) = length s"
  by (cases s; cases "tl s") (auto simp: escape_length_def split: if_splits)

lemma json_char_prefix:
  assumes "json_char c @ x = json_char d @ y"
  shows "c = d \<and> x = y"
proof -
  have "length (json_char c) = length (json_char d)"
    using assms escape_length_append [OF json_char_ok(1)] by metis
  with assms have "json_char c = json_char d" "x = y" by auto
  then show ?thesis using json_char_ok(2) by metis
qed

lemma json_body_prefix:
  "concat (map json_char s) @ char_of (34 :: nat) # x = concat (map json_char t) @ char_of (34 :: nat) # y \<Longrightarrow> s = t \<and> x = y"
proof (induction s arbitrary: t)
  case Nil
  show ?case
  proof (cases t)
    case (Cons d u)
    obtain k ks where "json_char d = k # ks" "k \<noteq> char_of (34 :: nat)" using json_char_cases by blast
    with Nil Cons show ?thesis by simp
  qed (use Nil in simp)
next
  case (Cons c s)
  then show ?case
  proof (cases t)
    case Nil
    obtain k ks where "json_char c = k # ks" "k \<noteq> char_of (34 :: nat)" using json_char_cases by blast
    with Nil Cons.prems show ?thesis by simp
  next
    case (Cons d u)
    with Cons.prems have "c = d \<and> concat (map json_char s) @ char_of (34 :: nat) # x = concat (map json_char u) @ char_of (34 :: nat) # y"
      using json_char_prefix [of c "concat (map json_char s) @ char_of (34 :: nat) # x" d] by simp
    with Cons.IH [of u] Cons show ?thesis by simp
  qed
qed

lemma json_quote_prefix: "json_quote s @ x = json_quote t @ y \<longleftrightarrow> s = t \<and> x = y"
  using json_body_prefix [of s x t y] by (auto simp: json_quote_def)

lemma json_quote_inj [simp]: "json_quote s = json_quote t \<longleftrightarrow> s = t"
  using json_quote_prefix [of s "[]" t "[]"] by simp

lemma json_quote_plain: "newline \<notin> set (json_quote s)"
  using json_char_ok(5) by (force simp: json_quote_def newline_def)

subsection \<open>Lines\<close>

lemma split_on_plain: "c \<notin> set s \<Longrightarrow> split_on c s = [s]"
  by (induction s) auto

lemma split_on_append: "c \<notin> set s \<Longrightarrow> split_on c (s @ c # t) = s # split_on c t"
  by (induction s) auto

lemma split_join: "ls \<noteq> [] \<Longrightarrow> \<forall>l \<in> set ls. c \<notin> set l \<Longrightarrow> split_on c (join_with [c] ls) = ls"
  by (induction ls rule: induct_list012) (simp_all add: split_on_plain split_on_append)

lemma join_with_Cons: "join_with sep (x # xs) = x @ concat (map (\<lambda>y. sep @ y) xs)"
  by (induction xs arbitrary: x) simp_all

lemma join_with_set: "set (join_with sep xs) \<subseteq> set sep \<union> (\<Union>x \<in> set xs. set x)"
  by (cases xs) (auto simp: join_with_Cons)

text \<open>What an entry of a batch says, and that a batch says it in one way only.\<close>

definition entry_fields :: "schedule_record \<times> string \<Rightarrow> string \<times> string \<times> string" where
  "entry_fields d = (case d of (r, at) \<Rightarrow> (sc_id r, at, sc_prompt r))"

lemma json_member_prefix: "json_member k s @ x = json_member k t @ y \<longleftrightarrow> s = t \<and> x = y"
  unfolding json_member_def append_assoc json_quote_prefix by (simp add: json_quote_prefix)

lemma batch_entry_alt:
  "batch_entry (r, at) @ x = CHR ''{'' # json_member ''schedule_id'' (sc_id r) @ CHR '','' #
    json_member ''occurrence_at'' at @ CHR '','' # json_member ''reminder_prompt'' (sc_prompt r) @ CHR ''}'' # x"
  by (simp add: batch_entry_def)

lemma batch_entry_prefix: "batch_entry d @ x = batch_entry e @ y \<longleftrightarrow> entry_fields d = entry_fields e \<and> x = y"
  by (cases d; cases e; simp only: batch_entry_alt list.inject json_member_prefix entry_fields_def prod.inject split_conv) blast

lemma batch_tail_prefix:
  "concat (map (\<lambda>e. '','' @ e) (map batch_entry ds)) @ '']'' = concat (map (\<lambda>e. '','' @ e) (map batch_entry es)) @ '']'' \<Longrightarrow>
    map entry_fields ds = map entry_fields es"
proof (induction ds arbitrary: es)
  case Nil
  then show ?case by (cases es) simp_all
next
  case (Cons d ds)
  show ?case
  proof (cases es)
    case Nil
    with Cons.prems show ?thesis by simp
  next
    case (Cons e us)
    with Cons.prems have "entry_fields d = entry_fields e \<and>
        concat (map (\<lambda>e. '','' @ e) (map batch_entry ds)) @ '']'' = concat (map (\<lambda>e. '','' @ e) (map batch_entry us)) @ '']''"
      by (simp only: list.map concat.simps append_assoc append_Cons append_Nil list.inject batch_entry_prefix simp_thms)
    with Cons.IH [of us] Cons show ?thesis by simp
  qed
qed

lemma batch_entry_head: "\<exists>s. batch_entry d = CHR ''{'' # s"
  by (cases d) (simp add: batch_entry_def)

lemma batch_body_prefix:
  assumes "join_with '','' (map batch_entry ds) @ '']'' = join_with '','' (map batch_entry es) @ '']''"
  shows "map entry_fields ds = map entry_fields es"
proof (cases ds)
  case Nil
  show ?thesis
  proof (cases es)
    case (Cons e vs)
    obtain s where "batch_entry e = CHR ''{'' # s" using batch_entry_head by blast
    with assms Nil Cons show ?thesis by (simp add: join_with_Cons)
  qed (simp add: Nil)
next
  case first: (Cons d us)
  show ?thesis
  proof (cases es)
    case Nil
    obtain s where "batch_entry d = CHR ''{'' # s" using batch_entry_head by blast
    with assms Nil first show ?thesis by (simp add: join_with_Cons)
  next
    case (Cons e vs)
    with assms first have "entry_fields d = entry_fields e \<and>
        concat (map (\<lambda>e. '','' @ e) (map batch_entry us)) @ '']'' = concat (map (\<lambda>e. '','' @ e) (map batch_entry vs)) @ '']''"
      by (simp only: list.map join_with_Cons append_assoc batch_entry_prefix)
    with batch_tail_prefix [of us vs] first Cons show ?thesis by simp
  qed
qed

lemma newline_char: "newline = CHR 0x0A"
  by code_simp

lemma newline_not_digit: "is_digit c \<Longrightarrow> c \<noteq> newline"
  by (auto simp: is_digit_def newline_def)

lemma instant_plain: "instant_ok s \<Longrightarrow> newline \<notin> set s"
proof -
  assume "instant_ok s"
  then have "s = iso_text (parse_instant s)" by (simp add: instant_ok_def)
  moreover have "newline \<notin> set (pad k n)" for k n
    using pad_digits [of k n] newline_not_digit unfolding list_all_iff by blast
  moreover have "newline \<notin> set ''-T:.Z''" by (simp add: newline_char)
  ultimately have "newline \<notin> set (iso_text t)" for t
    by (simp add: iso_text_def Let_def del: pad.simps)
  with \<open>s = iso_text (parse_instant s)\<close> show ?thesis by metis
qed

lemma batch_entry_plain: "newline \<notin> set (batch_entry d)"
  by (cases d) (auto simp: batch_entry_def json_member_def json_quote_plain; simp add: newline_char)

definition plain :: "string \<Rightarrow> bool" where
  "plain s \<longleftrightarrow> newline \<notin> set s"

lemma plain_simps: "plain []" "plain (c # s) \<longleftrightarrow> c \<noteq> CHR 0x0A \<and> plain s" "plain (s @ t) \<longleftrightarrow> plain s \<and> plain t"
  by (auto simp: plain_def newline_char)

lemma reminder_lines_plain: "instant_ok (sc_at r) \<Longrightarrow> list_all plain (reminder_lines r)"
  using instant_plain [of "sc_at r"] json_quote_plain
  unfolding reminder_lines_def list.pred_inject plain_simps plain_def [symmetric] by (simp add: plain_simps)

lemma batch_entries_plain: "plain (join_with '','' (map batch_entry ds))"
  using join_with_set [of "'',''" "map batch_entry ds"] batch_entry_plain
  by (force simp: plain_def newline_char)

lemma batch_lines_plain: "list_all plain (batch_lines ds)"
  unfolding batch_lines_def list.pred_inject plain_simps by (simp add: batch_entries_plain plain_simps)

text \<open>
  C40. Reminder texts cannot be forged from within: the text of a due reminder has exactly its five
  lines and determines the id, the occurrence and the prompt; the text of a batch has exactly its
  three lines and determines, in order, the id, the occurrence and the prompt of every entry, for
  any prompts whatever.
\<close>

theorem reminder_texts_exact:
  assumes "instant_ok (sc_at r)" and "instant_ok (sc_at r')"
  shows "split_on newline (reminder_framing r) = reminder_lines r \<and> length (reminder_lines r) = 5 \<and>
    (reminder_framing r = reminder_framing r' \<longleftrightarrow> (sc_id r, sc_at r, sc_prompt r) = (sc_id r', sc_at r', sc_prompt r')) \<and>
    split_on newline (batch_framing ds) = batch_lines ds \<and> length (batch_lines ds) = 3 \<and>
    (batch_framing ds = batch_framing ds' \<longleftrightarrow> map entry_fields ds = map entry_fields ds')"
proof -
  have lines: "split_on newline (reminder_framing q) = reminder_lines q" if "instant_ok (sc_at q)" for q
    unfolding reminder_framing_def
    using reminder_lines_plain [OF that] by (intro split_join) (simp_all add: list_all_iff plain_def reminder_lines_def)
  have batches: "split_on newline (batch_framing es) = batch_lines es" for es
    unfolding batch_framing_def
    using batch_lines_plain [of es] by (intro split_join) (simp_all add: list_all_iff plain_def batch_lines_def)
  have "reminder_framing r = reminder_framing r' \<longleftrightarrow> reminder_lines r = reminder_lines r'"
    using lines assms by (metis reminder_framing_def)
  moreover have "batch_framing ds = batch_framing ds' \<longleftrightarrow> batch_lines ds = batch_lines ds'"
    using batches by (metis batch_framing_def)
  moreover have "batch_lines ds = batch_lines ds' \<longleftrightarrow> map entry_fields ds = map entry_fields ds'"
  proof
    assume "map entry_fields ds = map entry_fields ds'"
    moreover have "map batch_entry es = map (\<lambda>(i, at, prompt). batch_entry (\<lparr>sc_id = i, sc_prompt = prompt, sc_rule = RuleAt, sc_at = at\<rparr>, at)) (map entry_fields es)" for es
      by (simp add: entry_fields_def batch_entry_def split: prod.split)
    ultimately show "batch_lines ds = batch_lines ds'" by (simp only: batch_lines_def)
  qed (auto simp: batch_lines_def intro: batch_body_prefix)
  ultimately show ?thesis using lines [OF assms(1)] batches by (auto simp: reminder_lines_def batch_lines_def)
qed

lemma reminder_texts_exact_witness:
  "length (split_on newline (reminder_framing \<lparr>sc_id = ''a'', sc_prompt = newline # ''occurrence_at: never'',
    sc_rule = RuleAt, sc_at = ''2024-02-29T10:00:00.000Z''\<rparr>)) = 5"
proof -
  define r where "r = \<lparr>sc_id = ''a'', sc_prompt = newline # ''occurrence_at: never'', sc_rule = RuleAt, sc_at = ''2024-02-29T10:00:00.000Z''\<rparr>"
  have "instant_ok (sc_at r)" unfolding r_def by code_simp
  from reminder_texts_exact [OF this this] show ?thesis unfolding r_def [symmetric] by metis
qed

end
