(* ===== verification/ScheduleRuntime.thy ===== *)
theory ScheduleRuntime
  imports ScheduleTools ScheduleText
begin

text \<open>
  The live runtime of reminders (\<open>packages/schedule/schedule/src/runtime.ts\<close>). The methods run in
  segments between their awaits; each segment is a function of the state, and the segments of one
  drive, the timers, idle transitions, tool calls and other appends interleave as a step relation.
\<close>

subsection \<open>Decisions\<close>

datatype due_decision =
    DueOneShot schedule_record
  | DueEvery "(schedule_record \<times> string) list" string
  | DueWait "int option"

definition max_timer_delay :: int where
  "max_timer_delay = 2147483647"

definition every_due :: "int \<Rightarrow> schedule_record \<Rightarrow> (js_error, schedule_record \<times> string) result" where
  "every_due now r =
     (case sc_rule r of
        RuleEvery n \<Rightarrow> bindR (resolve_every_occurrence (sc_at r) n now) (\<lambda>occ. Inr (r, eo_at occ))
      | _ \<Rightarrow> Inl (JsError ''unreachable''))"

definition due_records :: "bool \<Rightarrow> int \<Rightarrow> schedule_record list \<Rightarrow> schedule_record list" where
  "due_records every now rs = sort_key (\<lambda>r. due_at r) (filter (\<lambda>r. is_every (sc_rule r) = every \<and> due_at r \<le> now) rs)"

fun next_target :: "int \<Rightarrow> int option \<Rightarrow> schedule_record list \<Rightarrow> int option" where
  "next_target now selected [] = selected"
| "next_target now selected (r # rs) =
     next_target now
       (if now < due_at r \<and> (case selected of None \<Rightarrow> True | Some t \<Rightarrow> due_at r < t) then Some (due_at r) else selected) rs"

definition due_decision :: "schedule_state \<Rightarrow> int \<Rightarrow> (js_error, due_decision) result" where
  "due_decision st now =
     (let active = map_values (sd_active st) in
      case due_records False now active of
        r # _ \<Rightarrow> Inr (DueOneShot r)
      | [] \<Rightarrow>
          (case due_records True now active of
             [] \<Rightarrow> Inr (DueWait (next_target now None active))
           | every \<Rightarrow> bindR (mapR (every_due now) every) (\<lambda>rs. Inr (DueEvery rs (iso_text now)))))"

fun decision_text :: "due_decision \<Rightarrow> string" where
  "decision_text (DueOneShot r) = reminder_framing r"
| "decision_text (DueEvery rs _) = batch_framing rs"
| "decision_text (DueWait _) = []"

fun decision_changes :: "due_decision \<Rightarrow> schedule_change list" where
  "decision_changes (DueOneShot r) = [ChangeDispatch (sc_id r) None]"
| "decision_changes (DueEvery rs at) = map (\<lambda>(r, _). ChangeDispatch (sc_id r) (Some at)) rs"
| "decision_changes (DueWait _) = []"

subsection \<open>State\<close>

text \<open>
  A run is the promise of \<open>runRequested\<close>; its phase is where the present drive waits: for its turn
  among the transactions, for the first checkpoint, or for the checkpoint after a dispatch. A
  delivery keeps its decision, the clock it was decided at and the text handed to the agent.
\<close>

datatype run_phase = NoRun | Queued | Flushing | Settling

record delivery =
  dl_now :: int
  dl_decision :: due_decision
  dl_text :: string

record runtime =
  rt_tools :: tool_world
  rt_delivered :: "delivery list"
  rt_timer :: "int option"
  rt_phase :: run_phase
  rt_idle_wait :: bool
  rt_requested :: bool
  rt_stopping :: bool
  rt_faulted :: bool

text \<open>What a segment meets: checkpoints, life of the agent, clocks, the idle phase and appends.\<close>

record drive_env =
  dv_flushed :: bool
  dv_live :: bool
  dv_wake_now :: int
  dv_agent_busy :: bool
  dv_between :: "tool_call list"
  dv_claim_live :: bool
  dv_claim_now :: int
  dv_followup :: bool
  dv_gate :: "nat \<Rightarrow> append_gate"
  dv_time :: int

subsection \<open>Requests and timers\<close>

definition clear_timer :: "runtime \<Rightarrow> runtime" where
  "clear_timer w = w\<lparr>rt_timer := None\<rparr>"

definition next_drive :: "runtime \<Rightarrow> runtime" where
  "next_drive w =
     (if rt_requested w \<and> \<not> rt_stopping w \<and> \<not> rt_faulted w then w\<lparr>rt_requested := False, rt_phase := Queued\<rparr>
      else w\<lparr>rt_phase := NoRun\<rparr>)"

definition request_drive :: "bool \<Rightarrow> runtime \<Rightarrow> runtime" where
  "request_drive starts w =
     (if rt_stopping w \<or> rt_faulted w then w
      else
        (let w' = (clear_timer w)\<lparr>rt_requested := True\<rparr> in
         if rt_phase w \<noteq> NoRun \<or> \<not> starts then w' else next_drive w'))"

definition arm :: "int \<Rightarrow> int \<Rightarrow> runtime \<Rightarrow> runtime" where
  "arm target now w = w\<lparr>rt_timer := Some (min (target - now) max_timer_delay)\<rparr>"

definition arm_wait :: "int option \<Rightarrow> int \<Rightarrow> runtime \<Rightarrow> runtime" where
  "arm_wait target now w = (case target of None \<Rightarrow> w | Some t \<Rightarrow> arm t now w)"

definition timer_fires :: "bool \<Rightarrow> runtime \<Rightarrow> runtime" where
  "timer_fires starts w = (if rt_timer w = None then w else request_drive starts (w\<lparr>rt_timer := None\<rparr>))"

definition wait_for_idle :: "runtime \<Rightarrow> runtime" where
  "wait_for_idle w = w\<lparr>rt_idle_wait := True\<rparr>"

definition idle_reached :: "bool \<Rightarrow> bool \<Rightarrow> runtime \<Rightarrow> runtime" where
  "idle_reached resolved starts w =
     (if \<not> rt_idle_wait w then w
      else if resolved then request_drive starts (w\<lparr>rt_idle_wait := False\<rparr>)
      else w\<lparr>rt_idle_wait := False\<rparr>)"

definition dispose :: "runtime \<Rightarrow> runtime" where
  "dispose w = (clear_timer w)\<lparr>rt_stopping := True, rt_requested := False\<rparr>"

definition is_runnable :: "bool \<Rightarrow> runtime \<Rightarrow> bool" where
  "is_runnable live w \<longleftrightarrow> \<not> rt_stopping w \<and> live"

subsection \<open>A drive\<close>

definition drive_begin :: "bool \<Rightarrow> runtime \<Rightarrow> runtime" where
  "drive_begin live w =
     (let w' = clear_timer w in
      if is_runnable live w' then w'\<lparr>rt_phase := Flushing\<rparr> else next_drive w')"

text \<open>Fold and decide: a corrupt log faults the runtime, a failing decision only ends the drive.\<close>

definition read_decision :: "int \<Rightarrow> runtime \<Rightarrow> runtime \<times> due_decision option" where
  "read_decision now w =
     (case schedule_fold (tw_session (rt_tools w)) of
        Inl _ \<Rightarrow> (w\<lparr>rt_faulted := True\<rparr>, None)
      | Inr st \<Rightarrow> (case due_decision st now of Inl _ \<Rightarrow> (w, None) | Inr d \<Rightarrow> (w, Some d)))"

fun append_all :: "(nat \<Rightarrow> append_gate) \<Rightarrow> int \<Rightarrow> nat \<Rightarrow> schedule_change list \<Rightarrow> session_state \<Rightarrow> session_state \<times> bool" where
  "append_all gate time k [] s = (s, True)"
| "append_all gate time k (c # cs) s =
     (case schedule_append (gate k) time c s of
        (s', Inl _) \<Rightarrow> (s', False)
      | (s', Inr _) \<Rightarrow> append_all gate time (Suc k) cs s')"

definition dispatch :: "drive_env \<Rightarrow> due_decision \<Rightarrow> runtime \<Rightarrow> runtime \<times> bool" where
  "dispatch env d w =
     (if \<not> dv_followup env then (w, False)
      else
        (let delivered = rt_delivered w @ [\<lparr>dl_now = dv_claim_now env, dl_decision = d, dl_text = decision_text d\<rparr>] in
         case append_all (dv_gate env) (dv_time env) 0 (decision_changes d) (tw_session (rt_tools w)) of
           (s, ok) \<Rightarrow>
             (let w' = w\<lparr>rt_delivered := delivered, rt_tools := (rt_tools w)\<lparr>tw_session := s\<rparr>\<rparr> in
              if ok then (w', True) else ((clear_timer w')\<lparr>rt_faulted := True\<rparr>, False))))"

definition claim :: "drive_env \<Rightarrow> runtime \<Rightarrow> runtime \<times> bool" where
  "claim env w =
     (if \<not> is_runnable (dv_claim_live env) w then (w, False)
      else
        (case read_decision (dv_claim_now env) w of
           (w', None) \<Rightarrow> (w', False)
         | (w', Some (DueWait target)) \<Rightarrow> (arm_wait target (dv_claim_now env) w', False)
         | (w', Some d) \<Rightarrow> dispatch env d w'))"

definition drive_wake :: "drive_env \<Rightarrow> runtime \<Rightarrow> runtime" where
  "drive_wake env w =
     (if \<not> dv_flushed env \<or> \<not> is_runnable (dv_live env) w then next_drive w
      else
        (case read_decision (dv_wake_now env) w of
           (w', None) \<Rightarrow> next_drive w'
         | (w', Some (DueWait target)) \<Rightarrow> next_drive (arm_wait target (dv_wake_now env) w')
         | (w', Some _) \<Rightarrow>
             if dv_agent_busy env then next_drive (if dv_live env then wait_for_idle w' else w')
             else
               (case claim env (w'\<lparr>rt_tools := foldl tool_exec (rt_tools w') (dv_between env)\<rparr>) of
                  (w'', claimed) \<Rightarrow> if claimed then w''\<lparr>rt_phase := Settling\<rparr> else next_drive w'')))"

definition drive_settle :: "bool \<Rightarrow> bool \<Rightarrow> runtime \<Rightarrow> runtime" where
  "drive_settle flushed live w =
     next_drive (if flushed \<and> is_runnable live w then request_drive True w else w)"

subsection \<open>Interleaving\<close>

inductive runtime_step :: "runtime \<Rightarrow> runtime \<Rightarrow> bool" where
  requested: "runtime_step w (request_drive starts w)"
| timer: "runtime_step w (timer_fires starts w)"
| idle: "runtime_step w (idle_reached resolved starts w)"
| disposed: "runtime_step w (dispose w)"
| tool: "call_fair c \<Longrightarrow> runtime_step w (w\<lparr>rt_tools := tool_exec (rt_tools w) c\<rparr>)"
| begun: "rt_phase w = Queued \<Longrightarrow> runtime_step w (drive_begin live w)"
| woken: "rt_phase w = Flushing \<Longrightarrow> \<forall>c \<in> set (dv_between env). call_fair c \<Longrightarrow> runtime_step w (drive_wake env w)"
| settled: "rt_phase w = Settling \<Longrightarrow> runtime_step w (drive_settle flushed live w)"

definition fresh_runtime :: "tool_world \<Rightarrow> runtime" where
  "fresh_runtime t =
     \<lparr>rt_tools = t, rt_delivered = [], rt_timer = None, rt_phase = NoRun, rt_idle_wait = False,
      rt_requested = False, rt_stopping = False, rt_faulted = False\<rparr>"

subsection \<open>Replayed states\<close>

definition state_ok :: "schedule_state \<Rightarrow> bool" where
  "state_ok st \<longleftrightarrow> (\<exists>es. schedule_ok es st)"

lemma fold_state_ok: "schedule_fold s = Inr st \<Longrightarrow> state_ok st"
  unfolding schedule_fold_def fold_schedule_Inr state_ok_def by (blast intro: schedule_log.hist_fold)

lemma state_ok_active:
  assumes "state_ok st" and "map_get (sd_active st) i = Some r"
  shows "sc_id r = i" and "record_ok r" and "i \<in> set (sd_seen st)"
proof -
  from assms(1) obtain es where "schedule_ok es st" by (auto simp: state_ok_def)
  then have all: "\<forall>(j, q) \<in> set (sd_active st). sc_id q = j \<and> record_ok q" and sub: "subseq (map fst (sd_active st)) (sd_seen st)"
    by (auto simp: schedule_ok_def)
  from map_of_SomeD [OF assms(2)] all show "sc_id r = i" "record_ok r" by auto
  from map_of_SomeD [OF assms(2)] subseq_set [OF sub] show "i \<in> set (sd_seen st)" by force
qed

lemma state_ok_value:
  assumes "state_ok st" and "r \<in> set (map_values (sd_active st))"
  shows "map_get (sd_active st) (sc_id r) = Some r"
proof -
  from assms(1) obtain es where ok: "schedule_ok es st" by (auto simp: state_ok_def)
  from assms(2) obtain i where i: "(i, r) \<in> set (sd_active st)" by auto
  moreover from ok have "\<forall>(j, q) \<in> set (sd_active st). sc_id q = j" "map_ok (sd_active st)" by (auto simp: schedule_ok_def)
  ultimately show ?thesis using map_values_get by fastforce
qed

lemma state_ok_ids:
  assumes "state_ok st"
  shows "distinct (map sc_id (map_values (sd_active st)))"
proof -
  from assms obtain es where ok: "schedule_ok es st" by (auto simp: state_ok_def)
  then have "map sc_id (map_values (sd_active st)) = map fst (sd_active st)" by (auto simp: schedule_ok_def)
  moreover from ok have "distinct (map fst (sd_active st))" by (simp add: schedule_ok_def map_ok_def)
  ultimately show ?thesis by (simp only:)
qed

lemma state_ok_change:
  assumes "state_ok st" and "apply_schedule_change st c = Inr st'" and "schedule_change_ok c"
  shows "state_ok st'"
proof -
  from assms(1) obtain es where "schedule_ok es st" by (auto simp: state_ok_def)
  moreover have "apply_schedule_event st (change_event 0 0 c) = Inr st'"
    using assms(2) by (simp add: apply_schedule_event_def change_event_def decode_change_json [OF assms(3)])
  ultimately show ?thesis unfolding state_ok_def by (blast intro: schedule_ok_step)
qed

subsection \<open>Occurrences stay ahead of what was delivered\<close>

text \<open>Every delivered occurrence belongs to a used id, and precedes the present target of that id.\<close>

definition ahead :: "schedule_state \<Rightarrow> (string \<times> int) list \<Rightarrow> bool" where
  "ahead st occs \<longleftrightarrow>
     (\<forall>(i, t) \<in> set occs. i \<in> set (sd_seen st) \<and> (case map_get (sd_active st) i of None \<Rightarrow> True | Some r \<Rightarrow> t < due_at r))"

lemma ahead_append: "ahead st (xs @ ys) \<longleftrightarrow> ahead st xs \<and> ahead st ys"
  by (auto simp: ahead_def)

lemma ahead_delete: "ahead st occs \<Longrightarrow> ahead (st\<lparr>sd_active := map_delete i (sd_active st)\<rparr>) occs"
  by (auto simp: ahead_def delete_conv' split: option.splits if_splits)

lemma ahead_move:
  assumes "ahead st occs" and "map_get (sd_active st) i = Some r" and "due_at r < due_at r'"
  shows "ahead (st\<lparr>sd_active := map_set i r' (sd_active st)\<rparr>) occs"
  unfolding ahead_def
proof clarify
  fix j t assume "(j, t) \<in> set occs"
  with assms(1) have j: "j \<in> set (sd_seen st)" "case map_get (sd_active st) j of None \<Rightarrow> True | Some q \<Rightarrow> t < due_at q"
    by (auto simp: ahead_def)
  with assms(2,3) show "j \<in> set (sd_seen (st\<lparr>sd_active := map_set i r' (sd_active st)\<rparr>)) \<and>
      (case map_get (sd_active (st\<lparr>sd_active := map_set i r' (sd_active st)\<rparr>)) j of None \<Rightarrow> True | Some q \<Rightarrow> t < due_at q)"
    by (cases "j = i") auto
qed

lemma ahead_change:
  assumes ok: "state_ok st" and "ahead st occs" and app: "apply_schedule_change st c = Inr st'" and c: "schedule_change_ok c"
  shows "ahead st' occs"
proof (cases c)
  case (ChangeCreate r)
  with assms show ?thesis by (fastforce simp: ahead_def apply_create_Inr)
next
  case (ChangeDelete i)
  with assms ahead_delete show ?thesis by (auto simp: apply_delete_Inr)
next
  case (ChangeDispatch i accepted)
  from app ChangeDispatch obtain r where r: "map_get (sd_active st) i = Some r"
    and next_state: "(dispatched_record r accepted = Inr None \<and> st' = st\<lparr>sd_active := map_delete i (sd_active st)\<rparr>) \<or>
      (\<exists>r'. dispatched_record r accepted = Inr (Some r') \<and> st' = st\<lparr>sd_active := map_set i r' (sd_active st)\<rparr>)"
    by (auto simp: apply_dispatch_Inr)
  have "due_at r < due_at r'" if "dispatched_record r accepted = Inr (Some r')" for r'
    using dispatched_next [OF that state_ok_active(2) [OF ok r]] c ChangeDispatch by auto
  with next_state show ?thesis using ahead_delete [OF assms(2)] ahead_move [OF assms(2) r] by blast
qed

lemma changes_keep:
  assumes "state_ok st" and "foldR apply_schedule_change st cs = Inr st'" and "\<forall>c \<in> set cs. schedule_change_ok c"
  shows "state_ok st' \<and> (ahead st occs \<longrightarrow> ahead st' occs)"
  using assms
proof (induction cs arbitrary: st)
  case (Cons c cs)
  from Cons.prems(2) obtain u where "apply_schedule_change st c = Inr u" "foldR apply_schedule_change u cs = Inr st'"
    by (auto simp: result_simps)
  with Cons state_ok_change [of st c u] ahead_change [of st occs c u] show ?case by auto
qed simp

subsection \<open>What a decision does\<close>

lemma due_records_set: "r \<in> set (due_records every now rs) \<longleftrightarrow> r \<in> set rs \<and> is_every (sc_rule r) = every \<and> due_at r \<le> now"
  by (auto simp: due_records_def)

lemma due_records_ids: "distinct (map sc_id rs) \<Longrightarrow> distinct (map sc_id (due_records every now rs))"
  by (auto simp: due_records_def distinct_map intro: inj_on_subset)

lemma every_due_Inr:
  assumes "every_due now r = Inr d" and "record_ok r"
  shows "\<exists>n at. sc_rule r = RuleEvery n \<and> d = (r, at) \<and> in_range now \<and> due_at r \<le> parse_instant at \<and> parse_instant at \<le> now \<and>
    (\<exists>r'. dispatched_record r (Some (iso_text now)) = Inr r' \<and> (case r' of None \<Rightarrow> True | Some q \<Rightarrow> sc_id q = sc_id r \<and> now < due_at q))"
proof -
  from assms(1) obtain n occ where n: "sc_rule r = RuleEvery n" and occ: "resolve_every_occurrence (sc_at r) n now = Inr occ"
      and d: "d = (r, eo_at occ)"
    by (auto simp: every_due_def result_simps split: schedule_rule.splits)
  from occ have now: "in_range now" "due_at r \<le> now"
    by (auto simp: resolve_every_occurrence_def Let_def result_simps in_range_def)
  have rule: "rule_ok (RuleEvery n)" and at: "instant_ok (sc_at r)" using assms(2) n by (metis record_ok_def)+
  note occ_at = resolve_every_Inr [OF rule at now]
  define t where "t = due_at r + (now - due_at r) div (n * 1000) * (n * 1000)"
  note facts = occ_at [folded t_def]
  have eo: "parse_instant (eo_at occ) = t" using occ facts(1) iso_facts(2) [OF facts(2)] by auto
  have "dispatched_record r (Some (iso_text now)) = Inr (map_option (\<lambda>next_at. r\<lparr>sc_at := next_at\<rparr>) (eo_next occ))"
    using n occ iso_facts(2) [OF now(1)] by (simp add: dispatched_record_def)
  moreover have "now < parse_instant q" if "eo_next occ = Some q" for q
  proof -
    have small: "t + n * 1000 \<le> max_instant" and q: "q = iso_text (t + n * 1000)"
      using that occ facts(1) by (auto split: if_splits)
    have "0 < n * 1000" using rule by (simp add: min_every_def)
    with small facts(2) have "in_range (t + n * 1000)" by (simp add: in_range_def)
    with q facts(5) show ?thesis by (simp add: iso_facts)
  qed
  ultimately show ?thesis using n d now(1) eo facts(3,4) by (auto split: option.splits)
qed

lemma dispatch_batch:
  assumes "distinct (map (\<lambda>d. sc_id (fst d)) rs)"
    and "\<forall>d \<in> set rs. map_get (sd_active st) (sc_id (fst d)) = Some (fst d) \<and>
      (\<exists>r'. dispatched_record (fst d) (Some at) = Inr r' \<and> (case r' of None \<Rightarrow> True | Some q \<Rightarrow> now < due_at q))"
  shows "\<exists>st'. foldR apply_schedule_change st (map (\<lambda>d. ChangeDispatch (sc_id (fst d)) (Some at)) rs) = Inr st' \<and>
    sd_seen st' = sd_seen st \<and>
    (\<forall>i. if i \<in> (\<lambda>d. sc_id (fst d)) ` set rs
       then (case map_get (sd_active st') i of None \<Rightarrow> True | Some q \<Rightarrow> now < due_at q)
       else map_get (sd_active st') i = map_get (sd_active st) i)"
  using assms
proof (induction rs arbitrary: st)
  case (Cons d rs)
  define i where "i = sc_id (fst d)"
  from Cons.prems(2) obtain r' where r: "map_get (sd_active st) i = Some (fst d)" and r': "dispatched_record (fst d) (Some at) = Inr r'"
      and later: "case r' of None \<Rightarrow> True | Some q \<Rightarrow> now < due_at q" by (auto simp: i_def)
  define u where "u = st\<lparr>sd_active := (case r' of None \<Rightarrow> map_delete i (sd_active st) | Some q \<Rightarrow> map_set i q (sd_active st))\<rparr>"
  have step: "apply_schedule_change st (ChangeDispatch i (Some at)) = Inr u"
    using r r' by (simp add: apply_schedule_change_def u_def)
  have others: "map_get (sd_active u) j = map_get (sd_active st) j" if "j \<noteq> i" for j
    using that by (simp add: u_def delete_conv' split: option.split)
  have fresh: "i \<notin> (\<lambda>d. sc_id (fst d)) ` set rs" using Cons.prems(1) by (simp add: i_def)
  have at_i: "case map_get (sd_active u) i of None \<Rightarrow> True | Some q \<Rightarrow> now < due_at q"
    using later by (cases r') (simp_all add: u_def delete_conv')
  have "sc_id (fst e) \<noteq> i" if "e \<in> set rs" for e using fresh that by force
  with Cons.prems others have "\<forall>e \<in> set rs. map_get (sd_active u) (sc_id (fst e)) = Some (fst e) \<and>
      (\<exists>r'. dispatched_record (fst e) (Some at) = Inr r' \<and> (case r' of None \<Rightarrow> True | Some q \<Rightarrow> now < due_at q))" by auto
  with Cons.IH [of u] Cons.prems(1) obtain st' where st':
      "foldR apply_schedule_change u (map (\<lambda>d. ChangeDispatch (sc_id (fst d)) (Some at)) rs) = Inr st'" "sd_seen st' = sd_seen u"
      "\<forall>j. if j \<in> (\<lambda>d. sc_id (fst d)) ` set rs
         then (case map_get (sd_active st') j of None \<Rightarrow> True | Some q \<Rightarrow> now < due_at q)
         else map_get (sd_active st') j = map_get (sd_active u) j" by auto
  have "if j \<in> (\<lambda>d. sc_id (fst d)) ` set (d # rs)
         then (case map_get (sd_active st') j of None \<Rightarrow> True | Some q \<Rightarrow> now < due_at q)
         else map_get (sd_active st') j = map_get (sd_active st) j" for j
    using st'(3) [rule_format, of j] at_i others [of j] fresh by (cases "j = i") (auto simp: i_def split: if_splits)
  with st'(1,2) step show ?case by (auto simp: i_def [symmetric] u_def)
qed simp

text \<open>The occurrences a decision hands to the agent, and the state after its dispatches.\<close>

fun decision_occurrences :: "due_decision \<Rightarrow> (string \<times> int) list" where
  "decision_occurrences (DueOneShot r) = [(sc_id r, due_at r)]"
| "decision_occurrences (DueEvery rs _) = map (\<lambda>d. (sc_id (fst d), parse_instant (snd d))) rs"
| "decision_occurrences (DueWait _) = []"

definition decision_effect :: "int \<Rightarrow> schedule_state \<Rightarrow> due_decision \<Rightarrow> schedule_state \<Rightarrow> bool" where
  "decision_effect now st d st' \<longleftrightarrow>
     foldR apply_schedule_change st (decision_changes d) = Inr st' \<and> (\<forall>c \<in> set (decision_changes d). schedule_change_ok c) \<and>
     sd_seen st' = sd_seen st \<and> distinct (map fst (decision_occurrences d)) \<and>
     (\<forall>(i, t) \<in> set (decision_occurrences d). t \<le> now \<and> (\<exists>r. map_get (sd_active st) i = Some r \<and> due_at r \<le> t)) \<and>
     (\<forall>i. if i \<in> fst ` set (decision_occurrences d)
        then (case map_get (sd_active st') i of None \<Rightarrow> True | Some q \<Rightarrow> now < due_at q)
        else map_get (sd_active st') i = map_get (sd_active st) i)"

lemma one_shot_effect:
  assumes "state_ok st" and "r \<in> set (map_values (sd_active st))" and "\<not> is_every (sc_rule r)" and "due_at r \<le> now"
  shows "decision_effect now st (DueOneShot r) (st\<lparr>sd_active := map_delete (sc_id r) (sd_active st)\<rparr>)"
proof -
  have get: "map_get (sd_active st) (sc_id r) = Some r" using assms(1,2) by (rule state_ok_value)
  moreover have "dispatched_record r None = Inr None" using assms(3) by (cases "sc_rule r") (simp_all add: dispatched_record_def throw_if_def)
  moreover have "text_ok (sc_id r)" using state_ok_active(2) [OF assms(1) get] by (simp add: record_ok_def)
  ultimately show ?thesis using assms(4) by (simp add: decision_effect_def apply_schedule_change_def delete_conv')
qed

lemma mapR_map: "mapR f xs = Inr ys \<Longrightarrow> (\<And>x y. f x = Inr y \<Longrightarrow> g y = x) \<Longrightarrow> map g ys = xs"
  by (induction xs arbitrary: ys) (auto simp: result_simps)

lemma every_due_fst: "every_due now r = Inr d \<Longrightarrow> fst d = r"
  by (cases "sc_rule r") (auto simp: every_due_def result_simps)

lemma every_effect:
  assumes ok: "state_ok st" and rs: "mapR (every_due now) (due_records True now (map_values (sd_active st))) = Inr rs" and "rs \<noteq> []"
  shows "\<exists>st'. decision_effect now st (DueEvery rs (iso_text now)) st'"
proof -
  have each: "fst d \<in> set (map_values (sd_active st)) \<and> in_range now \<and> due_at (fst d) \<le> parse_instant (snd d) \<and> parse_instant (snd d) \<le> now \<and>
      (\<exists>r'. dispatched_record (fst d) (Some (iso_text now)) = Inr r' \<and> (case r' of None \<Rightarrow> True | Some q \<Rightarrow> now < due_at q))"
    if "d \<in> set rs" for d
  proof -
    from mapR_Inr_set [OF rs that] obtain r where r: "r \<in> set (map_values (sd_active st))" "every_due now r = Inr d"
      by (metis due_records_set)
    have "record_ok r" using state_ok_active(2) [OF ok state_ok_value [OF ok r(1)]] .
    from every_due_Inr [OF r(2) this] obtain n at r' where facts: "d = (r, at)" "in_range now" "due_at r \<le> parse_instant at"
        "parse_instant at \<le> now" "dispatched_record r (Some (iso_text now)) = Inr r'"
        "case r' of None \<Rightarrow> True | Some q \<Rightarrow> sc_id q = sc_id r \<and> now < due_at q" by blast
    then have "case r' of None \<Rightarrow> True | Some q \<Rightarrow> now < due_at q" by (cases r') simp_all
    with facts r(1) show ?thesis unfolding facts(1) by (intro conjI exI [of _ r']) simp_all
  qed
  have firsts: "map fst rs = due_records True now (map_values (sd_active st))"
    by (rule mapR_map [OF rs]) (rule every_due_fst)
  have "map (\<lambda>d. sc_id (fst d)) rs = map sc_id (map fst rs)" by simp
  then have dist: "distinct (map (\<lambda>d. sc_id (fst d)) rs)"
    unfolding firsts using due_records_ids [OF state_ok_ids [OF ok]] by (simp only:)
  have "\<forall>d \<in> set rs. map_get (sd_active st) (sc_id (fst d)) = Some (fst d) \<and>
      (\<exists>r'. dispatched_record (fst d) (Some (iso_text now)) = Inr r' \<and> (case r' of None \<Rightarrow> True | Some q \<Rightarrow> now < due_at q))"
    using each state_ok_value [OF ok] by blast
  from dispatch_batch [OF dist this] obtain st' where st':
    "foldR apply_schedule_change st (map (\<lambda>d. ChangeDispatch (sc_id (fst d)) (Some (iso_text now))) rs) = Inr st'" "sd_seen st' = sd_seen st"
    "\<forall>i. if i \<in> (\<lambda>d. sc_id (fst d)) ` set rs
       then (case map_get (sd_active st') i of None \<Rightarrow> True | Some q \<Rightarrow> now < due_at q)
       else map_get (sd_active st') i = map_get (sd_active st) i" by blast
  have now: "in_range now" using each assms(3) by (cases rs) auto
  have ids: "text_ok (sc_id (fst d))" if "d \<in> set rs" for d
    using state_ok_active(2) [OF ok state_ok_value [OF ok]] each [OF that] by (auto simp: record_ok_def)
  have "decision_effect now st (DueEvery rs (iso_text now)) st'"
    unfolding decision_effect_def
    using st' dist ids each now state_ok_value [OF ok]
    by (simp add: case_prod_beta' comp_def iso_facts image_image)
  then show ?thesis by blast
qed

lemma due_decision_effect:
  assumes "state_ok st" and "due_decision st now = Inr d"
  shows "(\<exists>t. d = DueWait t) \<or> (\<exists>st'. decision_effect now st d st' \<and> decision_occurrences d \<noteq> [])"
proof (cases "due_records False now (map_values (sd_active st))")
  case (Cons r rs)
  then have "r \<in> set (due_records False now (map_values (sd_active st)))" by simp
  then have "r \<in> set (map_values (sd_active st))" "\<not> is_every (sc_rule r)" "due_at r \<le> now" unfolding due_records_set by simp_all
  with one_shot_effect [OF assms(1)] assms(2) Cons show ?thesis by (auto simp: due_decision_def Let_def)
next
  case Nil
  show ?thesis
  proof (cases "due_records True now (map_values (sd_active st))")
    case (Cons r rs)
    with assms(2) Nil obtain ds where ds: "mapR (every_due now) (due_records True now (map_values (sd_active st))) = Inr ds"
        and d: "d = DueEvery ds (iso_text now)"
      by (auto simp: due_decision_def Let_def result_simps split: list.splits)
    then have "ds \<noteq> []" using mapR_length [OF ds] Cons by auto
    with every_effect [OF assms(1) ds] d show ?thesis by auto
  qed (use assms(2) Nil in \<open>auto simp: due_decision_def\<close>)
qed

text \<open>Deciding to wait means that nothing is due, and names the earliest later target.\<close>

lemma next_target_least:
  "next_target now sel rs = res \<Longrightarrow> (case sel of None \<Rightarrow> True | Some t \<Rightarrow> now < t) \<Longrightarrow>
    (case res of
       None \<Rightarrow> sel = None \<and> (\<forall>r \<in> set rs. due_at r \<le> now)
     | Some t \<Rightarrow> now < t \<and> (sel = Some t \<or> t \<in> (\<lambda>r. due_at r) ` set rs) \<and> (\<forall>r \<in> set rs. now < due_at r \<longrightarrow> t \<le> due_at r) \<and>
         (\<forall>u. sel = Some u \<longrightarrow> t \<le> u))"
proof (induction now sel rs rule: next_target.induct)
  case (1 now selected)
  then show ?case by (auto split: option.splits)
next
  case (2 now selected r rs)
  define sel' where "sel' = (if now < due_at r \<and> (case selected of None \<Rightarrow> True | Some t \<Rightarrow> due_at r < t) then Some (due_at r) else selected)"
  have sel: "case sel' of None \<Rightarrow> True | Some t \<Rightarrow> now < t" "sel' = None \<Longrightarrow> selected = None \<and> due_at r \<le> now"
      "\<And>t. sel' = Some t \<Longrightarrow> (selected = Some t \<or> t = due_at r) \<and> (now < due_at r \<longrightarrow> t \<le> due_at r) \<and> (\<forall>u. selected = Some u \<longrightarrow> t \<le> u)"
      "sel' = None \<or> (\<exists>t. sel' = Some t)"
    using 2(3) by (auto simp: sel'_def split: option.splits if_splits)
  from 2(1) [folded sel'_def, OF _ sel(1)] 2(2)
  have IH: "case res of None \<Rightarrow> sel' = None \<and> (\<forall>r \<in> set rs. due_at r \<le> now)
     | Some t \<Rightarrow> now < t \<and> (sel' = Some t \<or> t \<in> (\<lambda>r. due_at r) ` set rs) \<and> (\<forall>r \<in> set rs. now < due_at r \<longrightarrow> t \<le> due_at r) \<and>
         (\<forall>u. sel' = Some u \<longrightarrow> t \<le> u)"
    by (simp add: sel'_def)
  show ?case
  proof (cases res)
    case None
    with IH sel(2) show ?thesis by simp
  next
    case (Some t)
    with IH have t: "now < t" "sel' = Some t \<or> t \<in> (\<lambda>r. due_at r) ` set rs" "\<forall>r \<in> set rs. now < due_at r \<longrightarrow> t \<le> due_at r"
        "\<And>u. sel' = Some u \<Longrightarrow> t \<le> u" by simp_all
    have "t \<le> due_at r" if "now < due_at r"
      using sel(2) sel(3) t(4) that by (cases sel') fastforce+
    moreover have "t \<le> u" if "selected = Some u" for u
      using sel(2) sel(3) t(4) that by (cases sel') fastforce+
    moreover have "selected = Some t \<or> t \<in> (\<lambda>r. due_at r) ` set (r # rs)"
      using t(2) sel(3) [of t] by auto
    ultimately show ?thesis using Some t(1,3) by simp
  qed
qed

lemma due_wait:
  assumes "due_decision st now = Inr (DueWait target)"
  shows "(\<forall>r \<in> set (map_values (sd_active st)). now < due_at r) \<and>
    (case target of
       None \<Rightarrow> sd_active st = []
     | Some t \<Rightarrow> (\<exists>r \<in> set (map_values (sd_active st)). due_at r = t) \<and> (\<forall>r \<in> set (map_values (sd_active st)). t \<le> due_at r))"
proof -
  define rs where "rs = map_values (sd_active st)"
  from assms have none: "due_records False now rs = []" "due_records True now rs = []" and target: "next_target now None rs = target"
    by (auto simp: due_decision_def Let_def rs_def result_simps split: list.splits)
  have later: "now < due_at r" if "r \<in> set rs" for r
    using none due_records_set [of r "is_every (sc_rule r)" now rs] that
    by (cases "is_every (sc_rule r)") (auto simp: not_le [symmetric])
  from next_target_least [OF target] have least: "case target of None \<Rightarrow> \<forall>r \<in> set rs. due_at r \<le> now
     | Some t \<Rightarrow> t \<in> (\<lambda>r. due_at r) ` set rs \<and> (\<forall>r \<in> set rs. now < due_at r \<longrightarrow> t \<le> due_at r)"
    by (cases target) simp_all
  show ?thesis
  proof (cases target)
    case None
    with least later have "rs = []" by (cases rs) fastforce+
    with None show ?thesis by (simp add: rs_def)
  next
    case (Some t)
    with least later show ?thesis unfolding rs_def [symmetric] by auto
  qed
qed

subsection \<open>Appending the dispatches\<close>

lemma append_all_cases:
  assumes "session_ok s" and "schedule_fold s = Inr st" and "foldR apply_schedule_change st cs = Inr st'"
    and "\<forall>c \<in> set cs. schedule_change_ok c" and "append_all gate time k cs s = (s', ok)"
  shows "session_ok s' \<and> (\<exists>u. schedule_fold s' = Inr u) \<and> (ok \<longrightarrow> schedule_fold s' = Inr st') \<and>
    ((\<forall>j. gate j = GateOpen) \<longrightarrow> ok) \<and> ss_header s' = ss_header s"
  using assms
proof (induction cs arbitrary: st s k)
  case (Cons c cs)
  from Cons.prems(3) obtain u where u: "apply_schedule_change st c = Inr u" "foldR apply_schedule_change u cs = Inr st'"
    by (auto simp: result_simps)
  show ?case
  proof (cases "gate k \<noteq> GateOpen")
    case True
    with schedule_append_cases [OF Cons.prems(1), of "gate k" time c] Cons.prems(2,5) show ?thesis
      by (auto simp: schedule_fold_def)
  next
    case False
    with schedule_append_cases [OF Cons.prems(1), of "gate k" time c] obtain s1 e where
      app: "schedule_append (gate k) time c s = (s1, Inr e)" and s1: "session_ok s1" "ss_header s1 = ss_header s"
      and log: "ss_log s1 = ss_log s @ [change_event (int (length (ss_log s))) time c]" by auto
    have "schedule_fold s1 = Inr u"
      using fold_append_change [OF Cons.prems(2) log s1(2)] Cons.prems(4) u(1) by simp
    with Cons.IH [of s1 u "Suc k"] s1 u(2) Cons.prems(4,5) app show ?thesis by simp
  qed
qed simp

subsection \<open>The invariant of the runtime\<close>

definition once :: "(string \<times> int) list \<Rightarrow> bool" where
  "once occs \<longleftrightarrow> sorted_wrt (\<lambda>p q. fst p = fst q \<longrightarrow> snd p < snd q) occs"

definition delivered_occurrences :: "runtime \<Rightarrow> (string \<times> int) list" where
  "delivered_occurrences w = concat (map (\<lambda>d. decision_occurrences (dl_decision d)) (rt_delivered w))"

definition delivery_ok :: "delivery \<Rightarrow> bool" where
  "delivery_ok d \<longleftrightarrow> dl_text d = decision_text (dl_decision d) \<and> decision_occurrences (dl_decision d) \<noteq> [] \<and>
     (\<forall>(i, t) \<in> set (decision_occurrences (dl_decision d)). t \<le> dl_now d)"

definition runtime_core :: "runtime \<Rightarrow> bool" where
  "runtime_core w \<longleftrightarrow>
     stream_ok (rt_tools w) \<and> once (delivered_occurrences w) \<and> list_all delivery_ok (rt_delivered w) \<and>
     (\<not> rt_faulted w \<longrightarrow> (\<forall>st. schedule_fold (tw_session (rt_tools w)) = Inr st \<longrightarrow> ahead st (delivered_occurrences w)))"

definition runtime_inv :: "runtime \<Rightarrow> bool" where
  "runtime_inv w \<longleftrightarrow> runtime_core w \<and> (rt_faulted w \<longrightarrow> rt_phase w = NoRun)"

lemma core_flags [simp]:
  "runtime_core (w\<lparr>rt_timer := a\<rparr>) = runtime_core w" "runtime_core (w\<lparr>rt_phase := p\<rparr>) = runtime_core w"
  "runtime_core (w\<lparr>rt_idle_wait := b\<rparr>) = runtime_core w" "runtime_core (w\<lparr>rt_requested := b\<rparr>) = runtime_core w"
  "runtime_core (w\<lparr>rt_stopping := b\<rparr>) = runtime_core w"
  by (simp_all add: runtime_core_def delivered_occurrences_def)

lemma core_clear [simp]: "runtime_core (clear_timer w) = runtime_core w"
  by (simp add: clear_timer_def)

lemma core_arm [simp]: "runtime_core (arm_wait t now w) = runtime_core w"
  by (simp add: arm_wait_def arm_def split: option.split)

lemma inv_core: "runtime_inv w \<Longrightarrow> runtime_core w"
  by (simp add: runtime_inv_def)

lemma inv_next: "runtime_core w \<Longrightarrow> runtime_inv (next_drive w)"
  by (simp add: runtime_inv_def next_drive_def)

lemma inv_request: "runtime_inv w \<Longrightarrow> runtime_inv (request_drive starts w)"
  using inv_next [of "(clear_timer w)\<lparr>rt_requested := True\<rparr>"]
  by (simp add: request_drive_def Let_def runtime_inv_def clear_timer_def)

lemma stream_ahead:
  assumes "stream_ok t" and step: "stream_step t t'" and st: "schedule_fold (tw_session t) = Inr st" and a: "ahead st occs"
    and st': "schedule_fold (tw_session t') = Inr st'"
  shows "ahead st' occs"
proof -
  have ok: "state_ok st" using st by (rule fold_state_ok)
  consider (same) "schedule_fold (tw_session t') = schedule_fold (tw_session t)"
    | (wrote) time c where "written t time c t'"
    using step by (auto simp: stream_step_def unwritten_def schedule_fold_def)
  then show ?thesis
  proof cases
    case same
    with st st' a show ?thesis by simp
  next
    case wrote
    then have "apply_schedule_change st c = Inr st'" "schedule_change_ok c" using st st' by (auto simp: written_def)
    with ok a show ?thesis by (blast intro: ahead_change)
  qed
qed

lemma core_tool:
  assumes core: "runtime_core w" and fair: "call_fair c"
  shows "runtime_core (w\<lparr>rt_tools := tool_exec (rt_tools w) c\<rparr>)"
proof -
  have ok: "stream_ok (rt_tools w)" using core by (simp add: runtime_core_def)
  note step = tool_exec_step [OF ok fair]
  obtain st where st: "schedule_fold (tw_session (rt_tools w)) = Inr st" using ok by (auto simp: stream_ok_def is_ok_iff)
  show ?thesis
    using core stream_step_ok [OF ok step] stream_ahead [OF ok step st] st
    by (auto simp: runtime_core_def delivered_occurrences_def)
qed

lemma core_tools:
  "runtime_core w \<Longrightarrow> \<forall>c \<in> set cs. call_fair c \<Longrightarrow> runtime_core (w\<lparr>rt_tools := foldl tool_exec (rt_tools w) cs\<rparr>)"
proof (induction cs arbitrary: w)
  case (Cons c cs)
  from core_tool [of w c] Cons have "runtime_core (w\<lparr>rt_tools := tool_exec (rt_tools w) c\<rparr>)" by simp
  from Cons.IH [OF this] Cons.prems show ?case by simp
qed simp

text \<open>New occurrences extend the delivered ones in order and remain behind the targets.\<close>

lemma once_extend:
  assumes "once occs" and "ahead st occs" and "decision_effect now st d st'"
  shows "once (occs @ decision_occurrences d)"
proof -
  have "snd p < snd q" if "p \<in> set occs" "q \<in> set (decision_occurrences d)" "fst p = fst q" for p q
  proof -
    from that(2) assms(3) obtain r where "map_get (sd_active st) (fst q) = Some r" "due_at r \<le> snd q"
      by (cases q) (auto simp: decision_effect_def)
    moreover have "(fst p, snd p) \<in> set occs" using that(1) by simp
    with assms(2) have "case map_get (sd_active st) (fst p) of None \<Rightarrow> True | Some r \<Rightarrow> snd p < due_at r"
      unfolding ahead_def by fast
    ultimately show ?thesis using that(3) by simp
  qed
  moreover have "sorted_wrt (\<lambda>p q. fst p = fst q \<longrightarrow> snd p < snd q) xs" if "distinct (map fst xs)" for xs :: "(string \<times> int) list"
    using that by (induction xs) force+
  ultimately show ?thesis using assms(1,3) by (simp add: once_def sorted_wrt_append decision_effect_def)
qed

lemma ahead_extend:
  assumes ok: "state_ok st" and "ahead st occs" and effect: "decision_effect now st d st'"
  shows "ahead st' (occs @ decision_occurrences d)"
proof -
  have "ahead st' occs"
    using changes_keep [OF ok] effect assms(2) unfolding decision_effect_def by blast
  moreover have "ahead st' (decision_occurrences d)"
    unfolding ahead_def
  proof clarify
    fix i t assume it: "(i, t) \<in> set (decision_occurrences d)"
    with effect obtain r where r: "map_get (sd_active st) i = Some r" and t: "t \<le> now" by (auto simp: decision_effect_def)
    have "i \<in> fst ` set (decision_occurrences d)" using it by force
    with effect have "case map_get (sd_active st') i of None \<Rightarrow> True | Some q \<Rightarrow> now < due_at q"
      unfolding decision_effect_def by metis
    with t have "case map_get (sd_active st') i of None \<Rightarrow> True | Some q \<Rightarrow> t < due_at q" by (cases "map_get (sd_active st') i") auto
    moreover have "i \<in> set (sd_seen st')" using state_ok_active(3) [OF ok r] effect by (simp add: decision_effect_def)
    ultimately show "i \<in> set (sd_seen st') \<and> (case map_get (sd_active st') i of None \<Rightarrow> True | Some q \<Rightarrow> t < due_at q)" by simp
  qed
  ultimately show ?thesis by (simp add: ahead_append)
qed

lemma core_dispatch:
  assumes core: "runtime_core w" and running: "\<not> rt_faulted w"
    and st: "schedule_fold (tw_session (rt_tools w)) = Inr st" and d: "due_decision st (dv_claim_now env) = Inr d"
    and not_wait: "\<forall>t. d \<noteq> DueWait t"
  shows "runtime_core (fst (dispatch env d w))"
proof -
  have ok: "state_ok st" using st by (rule fold_state_ok)
  from due_decision_effect [OF ok d] not_wait obtain st' where effect: "decision_effect (dv_claim_now env) st d st'"
      and some: "decision_occurrences d \<noteq> []" by auto
  obtain s all where app: "append_all (dv_gate env) (dv_time env) 0 (decision_changes d) (tw_session (rt_tools w)) = (s, all)"
    by (metis surj_pair)
  have "session_ok (tw_session (rt_tools w))" using core by (simp add: runtime_core_def stream_ok_def)
  from append_all_cases [OF this st _ _ app, of st'] effect
  have s: "session_ok s" "\<exists>u. schedule_fold s = Inr u" "all \<Longrightarrow> schedule_fold s = Inr st'"
    by (auto simp: decision_effect_def)
  have ahead: "ahead st (delivered_occurrences w)" "once (delivered_occurrences w)" "list_all delivery_ok (rt_delivered w)"
    using core running st by (simp_all add: runtime_core_def)
  have "delivery_ok \<lparr>dl_now = dv_claim_now env, dl_decision = d, dl_text = decision_text d\<rparr>"
    using effect some by (auto simp: delivery_ok_def decision_effect_def)
  with once_extend [OF ahead(2,1) effect] ahead_extend [OF ok ahead(1) effect] s ahead(3) show ?thesis
    using core by (cases all) (auto simp: dispatch_def app Let_def runtime_core_def delivered_occurrences_def stream_ok_def clear_timer_def)
qed

lemma core_read:
  assumes "runtime_core w"
  obtains st where "schedule_fold (tw_session (rt_tools w)) = Inr st"
    and "read_decision now w = (w, case due_decision st now of Inl _ \<Rightarrow> None | Inr d \<Rightarrow> Some d)"
proof -
  from assms obtain st where st: "schedule_fold (tw_session (rt_tools w)) = Inr st"
    by (auto simp: runtime_core_def stream_ok_def is_ok_iff)
  then show thesis using that by (simp add: read_decision_def split: sum.split)
qed

lemma core_claim:
  assumes core: "runtime_core w" and running: "\<not> rt_faulted w"
  shows "runtime_core (fst (claim env w))" and "rt_faulted (fst (claim env w)) \<Longrightarrow> \<not> snd (claim env w)"
proof -
  obtain st where st: "schedule_fold (tw_session (rt_tools w)) = Inr st"
      and read: "read_decision (dv_claim_now env) w = (w, case due_decision st (dv_claim_now env) of Inl _ \<Rightarrow> None | Inr d \<Rightarrow> Some d)"
    using core by (rule core_read)
  show "runtime_core (fst (claim env w))"
  proof (cases "due_decision st (dv_claim_now env)")
    case (Inr d)
    with read core core_dispatch [OF core running st] show ?thesis by (cases d) (simp_all add: claim_def)
  qed (use read core in \<open>simp add: claim_def\<close>)
  show "rt_faulted (fst (claim env w)) \<Longrightarrow> \<not> snd (claim env w)"
    using running read by (auto simp: claim_def dispatch_def Let_def arm_wait_def arm_def split: if_splits sum.splits due_decision.splits option.splits prod.splits)
qed

lemma inv_wake:
  assumes inv: "runtime_inv w" and phase: "rt_phase w = Flushing" and fair: "\<forall>c \<in> set (dv_between env). call_fair c"
  shows "runtime_inv (drive_wake env w)"
proof -
  have core: "runtime_core w" and running: "\<not> rt_faulted w" using inv phase by (auto simp: runtime_inv_def)
  define w1 where "w1 = w\<lparr>rt_tools := foldl tool_exec (rt_tools w) (dv_between env)\<rparr>"
  have w1: "runtime_core w1" "\<not> rt_faulted w1" using core_tools [OF core fair] running by (simp_all add: w1_def)
  obtain w2 claimed where claim: "claim env w1 = (w2, claimed)" by (metis surj_pair)
  have "runtime_inv (if claimed then w2\<lparr>rt_phase := Settling\<rparr> else next_drive w2)"
    using core_claim [OF w1, of env] claim inv_next [of w2] by (auto simp: runtime_inv_def)
  moreover obtain st where
    "read_decision (dv_wake_now env) w = (w, case due_decision st (dv_wake_now env) of Inl _ \<Rightarrow> None | Inr d \<Rightarrow> Some d)"
    using core by (rule core_read)
  ultimately show ?thesis
    using core claim inv_next unfolding drive_wake_def w1_def [symmetric]
    by (auto simp: wait_for_idle_def w1_def [symmetric] split: sum.split due_decision.split)
qed

lemma inv_step: "runtime_step w w' \<Longrightarrow> runtime_inv w \<Longrightarrow> runtime_inv w'"
proof (induction rule: runtime_step.induct)
  case (timer w starts)
  then show ?case using inv_request [of "w\<lparr>rt_timer := None\<rparr>"] by (simp add: timer_fires_def runtime_inv_def)
next
  case (idle w resolved starts)
  then show ?case using inv_request [of "w\<lparr>rt_idle_wait := False\<rparr>"] by (simp add: idle_reached_def runtime_inv_def)
next
  case (tool c w)
  then show ?case using core_tool [of w c] by (simp add: runtime_inv_def)
next
  case (begun w live)
  then show ?case using inv_next [of "clear_timer w"]
    by (simp add: drive_begin_def Let_def runtime_inv_def) (simp add: clear_timer_def)
next
  case (settled w flushed live)
  then show ?case using inv_next inv_request [of w True] by (simp add: drive_settle_def inv_core)
qed (simp_all add: inv_request inv_wake, simp add: dispose_def runtime_inv_def clear_timer_def)

text \<open>
  C30. No occurrence is delivered twice: from a session whose log folds, under any interleaving of
  drives, timers, idle transitions, disposal, tool calls, other appends, refused appends, failing
  checkpoints and clocks that jump either way, the occurrences handed to the agent for one
  reminder are strictly increasing in time and none is delivered before it is due; in particular a
  one-shot reminder is delivered at most once. The log folds in every reachable state.
\<close>

theorem occurrences_delivered_once:
  assumes "stream_ok t" and "runtime_step\<^sup>*\<^sup>* (fresh_runtime t) w"
  shows "sorted_wrt (\<lambda>p q. fst p = fst q \<longrightarrow> snd p < snd q) (delivered_occurrences w) \<and>
    distinct (delivered_occurrences w) \<and>
    (\<forall>d \<in> set (rt_delivered w). \<forall>(i, due) \<in> set (decision_occurrences (dl_decision d)). due \<le> dl_now d) \<and>
    is_ok (schedule_fold (tw_session (rt_tools w)))"
proof -
  have "runtime_inv (fresh_runtime t)"
    using assms(1) by (simp add: fresh_runtime_def runtime_inv_def runtime_core_def delivered_occurrences_def once_def ahead_def)
  with assms(2) have "runtime_inv w" by (induction rule: rtranclp_induct) (simp_all add: inv_step)
  then have core: "once (delivered_occurrences w)" "list_all delivery_ok (rt_delivered w)" "stream_ok (rt_tools w)"
    by (simp_all add: runtime_inv_def runtime_core_def)
  have "distinct occs" if "once occs" for occs
    using that unfolding once_def by (induction occs) auto
  with core show ?thesis by (auto simp: once_def list_all_iff delivery_ok_def stream_ok_def)
qed

definition good_env :: "int \<Rightarrow> drive_env" where
  "good_env now =
     \<lparr>dv_flushed = True, dv_live = True, dv_wake_now = now, dv_agent_busy = False, dv_between = [], dv_claim_live = True,
      dv_claim_now = now, dv_followup = True, dv_gate = (\<lambda>_. GateOpen), dv_time = now\<rparr>"

definition sample_drive :: runtime where
  "sample_drive = drive_wake (good_env 1709202600000) (drive_begin True (request_drive True
     (fresh_runtime (fst (schedule_create sample_zones sample_tool_env sample_args sample_world)))))"

lemma occurrences_delivered_once_witness:
  "distinct (delivered_occurrences sample_drive)"
proof -
  define t where "t = fst (schedule_create sample_zones sample_tool_env sample_args sample_world)"
  have "session_ok (tw_session sample_world)" "clock_ok (te_now sample_tool_env)"
    by (simp_all add: sample_world_def empty_session_ok sample_tool_env_def clock_ok_def)
  then have "session_ok (tw_session t)" unfolding t_def using schedule_create_ok written_def unwritten_def by blast
  moreover have "is_ok (schedule_fold (tw_session t))" unfolding t_def by code_simp
  ultimately have t: "stream_ok t" by (simp add: stream_ok_def)
  define w1 where "w1 = request_drive True (fresh_runtime t)"
  define w2 where "w2 = drive_begin True w1"
  have phases: "rt_phase w1 = Queued" "rt_phase w2 = Flushing"
    by (simp_all add: w1_def w2_def request_drive_def next_drive_def drive_begin_def is_runnable_def clear_timer_def fresh_runtime_def)
  have "runtime_step (fresh_runtime t) w1" unfolding w1_def by (rule requested)
  moreover have "runtime_step w1 w2" unfolding w2_def by (rule begun) (rule phases)
  moreover have "runtime_step w2 sample_drive"
    using woken [of w2 "good_env 1709202600000"] phases by (simp add: sample_drive_def w2_def w1_def t_def good_env_def)
  ultimately have "runtime_step\<^sup>*\<^sup>* (fresh_runtime t) sample_drive" by (meson converse_rtranclp_into_rtranclp rtranclp.rtrancl_refl)
  with occurrences_delivered_once [OF t] show "distinct (delivered_occurrences sample_drive)" by blast
qed

end
