(* ===== verification/ScheduleDrives.thy ===== *)
theory ScheduleDrives
  imports ScheduleRuntime
begin

text \<open>
  The runtime of reminders in time (\<open>packages/schedule/schedule/src/runtime.ts\<close>): what an armed
  timer covers, and that drives with nothing in their way come to rest.
\<close>

subsection \<open>Timers\<close>

text \<open>A timer covers a state at a time: it fires no later than any target, and on it if it can.\<close>

definition timer_covers :: "int \<Rightarrow> schedule_state \<Rightarrow> int option \<Rightarrow> bool" where
  "timer_covers now st timer \<longleftrightarrow>
     (case timer of
        None \<Rightarrow> sd_active st = []
      | Some delay \<Rightarrow> 0 < delay \<and> delay \<le> max_timer_delay \<and>
          (\<forall>r \<in> set (map_values (sd_active st)). now + delay \<le> due_at r) \<and>
          (delay = max_timer_delay \<or> (\<exists>r \<in> set (map_values (sd_active st)). now + delay = due_at r)))"

lemma arm_covers:
  assumes "due_decision st now = Inr (DueWait target)" and "rt_timer w = None"
  shows "timer_covers now st (rt_timer (arm_wait target now w))"
proof (cases target)
  case None
  with due_wait [OF assms(1)] assms(2) show ?thesis by (simp add: arm_wait_def timer_covers_def)
next
  case (Some t)
  with due_wait [OF assms(1)] obtain r where r: "r \<in> set (map_values (sd_active st))" "due_at r = t" "now < t"
      and least: "\<forall>q \<in> set (map_values (sd_active st)). t \<le> due_at q" by fastforce
  have pos: "0 < max_timer_delay" by (simp add: max_timer_delay_def)
  define delay where "delay = min (t - now) max_timer_delay"
  have "0 < delay" "delay \<le> max_timer_delay" "now + delay \<le> t" "delay = max_timer_delay \<or> now + delay = t"
    using r(3) pos by (auto simp: delay_def min_def)
  moreover have "rt_timer (arm_wait target now w) = Some delay" using Some by (simp add: arm_wait_def arm_def delay_def)
  ultimately show ?thesis using r(1,2) least unfolding timer_covers_def by fastforce
qed

lemma next_drive_same [simp]:
  "rt_timer (next_drive w) = rt_timer w" "rt_tools (next_drive w) = rt_tools w"
  by (simp_all add: next_drive_def)

lemma stream_folds:
  assumes "stream_ok (rt_tools w)"
  obtains st where "schedule_fold (tw_session (rt_tools w)) = Inr st"
    and "\<And>now. read_decision now w = (w, case due_decision st now of Inl _ \<Rightarrow> None | Inr d \<Rightarrow> Some d)"
proof -
  from assms obtain st where "schedule_fold (tw_session (rt_tools w)) = Inr st" by (auto simp: stream_ok_def is_ok_iff)
  then show thesis using that by (simp add: read_decision_def split: sum.split)
qed

lemma tools_stream:
  "stream_ok t \<Longrightarrow> \<forall>c \<in> set cs. call_fair c \<Longrightarrow> stream_ok (foldl tool_exec t cs)"
  by (induction cs arbitrary: t) (auto intro: stream_step_ok tool_exec_step)

lemma dispatch_timer: "rt_timer w = None \<Longrightarrow> rt_timer (fst (dispatch env d w)) = None"
  by (simp add: dispatch_def Let_def clear_timer_def split: prod.split)

lemma claim_timer:
  assumes "stream_ok (rt_tools w)" and "rt_timer w = None" and "rt_timer (fst (claim env w)) = Some delay"
  shows "\<exists>st. schedule_fold (tw_session (rt_tools (fst (claim env w)))) = Inr st \<and> timer_covers (dv_claim_now env) st (Some delay)"
proof -
  obtain st where st: "schedule_fold (tw_session (rt_tools w)) = Inr st"
      and read: "\<And>now. read_decision now w = (w, case due_decision st now of Inl _ \<Rightarrow> None | Inr d \<Rightarrow> Some d)"
    using assms(1) by (rule stream_folds) blast
  note none = dispatch_timer [OF assms(2), of env]
  show ?thesis
  proof (cases "due_decision st (dv_claim_now env)")
    case (Inl e)
    with assms(2,3) read show ?thesis by (simp add: claim_def split: if_splits)
  next
    case (Inr d)
    show ?thesis
    proof (cases d)
      case (DueWait target)
      have "rt_tools (arm_wait target now w) = rt_tools w" for now by (simp add: arm_wait_def arm_def split: option.split)
      with arm_covers [OF Inr [unfolded DueWait] assms(2)] assms(2,3) read Inr DueWait st show ?thesis
        by (auto simp: claim_def split: if_splits)
    qed (use assms(2,3) read Inr none in \<open>auto simp: claim_def split: if_splits\<close>)
  qed
qed

lemma wake_timer:
  assumes "stream_ok (rt_tools w)" and "rt_timer w = None" and "\<forall>c \<in> set (dv_between env). call_fair c"
    and "rt_timer (drive_wake env w) = Some delay"
  shows "\<exists>now st. (now = dv_wake_now env \<or> now = dv_claim_now env) \<and>
    schedule_fold (tw_session (rt_tools (drive_wake env w))) = Inr st \<and> timer_covers now st (Some delay)"
proof -
  obtain st where st: "schedule_fold (tw_session (rt_tools w)) = Inr st"
      and read: "\<And>now. read_decision now w = (w, case due_decision st now of Inl _ \<Rightarrow> None | Inr d \<Rightarrow> Some d)"
    using assms(1) by (rule stream_folds) blast
  define w1 where "w1 = w\<lparr>rt_tools := foldl tool_exec (rt_tools w) (dv_between env)\<rparr>"
  have w1: "stream_ok (rt_tools w1)" "rt_timer w1 = None" using tools_stream [OF assms(1,3)] assms(2) by (simp_all add: w1_def)
  note run = assms(4) drive_wake_def [of env w, unfolded w1_def [symmetric]]
  show ?thesis
  proof (cases "\<exists>target. due_decision st (dv_wake_now env) = Inr (DueWait target)")
    case True
    then obtain target where target: "due_decision st (dv_wake_now env) = Inr (DueWait target)" by blast
    have "rt_tools (arm_wait target now w) = rt_tools w" for now by (simp add: arm_wait_def arm_def split: option.split)
    with arm_covers [OF target assms(2)] run read target st assms(2) show ?thesis by (auto split: if_splits)
  next
    case False
    have "drive_wake env w = (case claim env w1 of (w'', claimed) \<Rightarrow> if claimed then w''\<lparr>rt_phase := Settling\<rparr> else next_drive w'')"
      using False run read assms(2)
      by (auto simp: w1_def wait_for_idle_def split: if_splits sum.splits due_decision.splits)
    with run(1) claim_timer [OF w1, of env delay] show ?thesis by (auto split: prod.splits if_splits)
  qed
qed

text \<open>
  C32. A timer never oversleeps: when a drive that found no timer leaves one armed, its delay is
  positive and one the host represents without clamping, no active reminder of the log is due before
  it fires, and it fires exactly at the earliest target unless that lies beyond the longest delay.
\<close>

theorem armed_timer_exact:
  assumes "stream_ok (rt_tools w)" and "rt_timer w = None" and "\<forall>c \<in> set (dv_between env). call_fair c"
    and "rt_timer (drive_wake env w) = Some delay"
  shows "\<exists>now st. (now = dv_wake_now env \<or> now = dv_claim_now env) \<and>
    schedule_fold (tw_session (rt_tools (drive_wake env w))) = Inr st \<and> timer_covers now st (Some delay)"
  using assms wake_timer by metis

lemma sample_created_stream: "stream_ok (fst (schedule_create sample_zones sample_tool_env sample_args sample_world))"
proof -
  have "session_ok (tw_session sample_world)" "clock_ok (te_now sample_tool_env)"
    by (simp_all add: sample_world_def empty_session_ok sample_tool_env_def clock_ok_def)
  then have "session_ok (tw_session (fst (schedule_create sample_zones sample_tool_env sample_args sample_world)))"
    using schedule_create_ok written_def unwritten_def by blast
  moreover have "is_ok (schedule_fold (tw_session (fst (schedule_create sample_zones sample_tool_env sample_args sample_world))))"
    by code_simp
  ultimately show ?thesis by (simp add: stream_ok_def)
qed

definition sample_waiting :: runtime where
  "sample_waiting = (fresh_runtime (fst (schedule_create sample_zones sample_tool_env sample_args sample_world)))\<lparr>rt_phase := Flushing\<rparr>"

lemma armed_timer_exact_witness:
  "\<exists>now st. timer_covers now st (rt_timer (drive_wake (good_env 1709202000000) sample_waiting)) \<and>
    rt_timer (drive_wake (good_env 1709202000000) sample_waiting) = Some 600000"
proof -
  have timer: "rt_timer (drive_wake (good_env 1709202000000) sample_waiting) = Some 600000" by code_simp
  have "stream_ok (rt_tools sample_waiting)" "rt_timer sample_waiting = None" "\<forall>c \<in> set (dv_between (good_env 1709202000000)). call_fair c"
    using sample_created_stream by (simp_all add: sample_waiting_def fresh_runtime_def good_env_def)
  from armed_timer_exact [OF this timer] timer show ?thesis by auto
qed

subsection \<open>Drives settle\<close>

text \<open>One drive with nothing in its way, all clocks at one time.\<close>

definition drive_round :: "int \<Rightarrow> runtime \<Rightarrow> runtime" where
  "drive_round now w =
     (let w' = drive_wake (good_env now) (drive_begin True w) in
      if rt_phase w' = Settling then drive_settle True True w' else w')"

definition due_ids :: "int \<Rightarrow> schedule_state \<Rightarrow> string set" where
  "due_ids now st = {i. \<exists>r. map_get (sd_active st) i = Some r \<and> due_at r \<le> now}"

definition ready :: "schedule_state \<Rightarrow> runtime \<Rightarrow> bool" where
  "ready st w \<longleftrightarrow> stream_ok (rt_tools w) \<and> schedule_fold (tw_session (rt_tools w)) = Inr st \<and>
     rt_phase w = Queued \<and> \<not> rt_requested w \<and> \<not> rt_stopping w \<and> \<not> rt_faulted w"

lemma due_ids_finite: "finite (due_ids now st)"
  by (rule finite_subset [of _ "fst ` set (sd_active st)"]) (force simp: due_ids_def dest: map_of_SomeD, simp)

lemma every_due_ok:
  assumes "record_ok r" and "is_every (sc_rule r)" and "in_range now" and "due_at r \<le> now"
  shows "\<exists>d. every_due now r = Inr d"
proof -
  obtain n where n: "sc_rule r = RuleEvery n" using assms(2) by (cases "sc_rule r") auto
  have "rule_ok (RuleEvery n)" "instant_ok (sc_at r)" using assms(1) n by (metis record_ok_def)+
  from resolve_every_Inr(1) [OF this assms(3,4)] n show ?thesis by (simp add: every_due_def)
qed

lemma mapR_ok: "\<forall>x \<in> set xs. \<exists>y. f x = Inr y \<Longrightarrow> \<exists>ys. mapR f xs = Inr ys"
  by (induction xs) (force simp: result_simps)+

lemma decision_defined:
  assumes "state_ok st" and "in_range now"
  shows "\<exists>d. due_decision st now = Inr d"
proof -
  have "\<forall>r \<in> set (due_records True now (map_values (sd_active st))). \<exists>d. every_due now r = Inr d"
    using every_due_ok [OF state_ok_active(2) [OF assms(1) state_ok_value [OF assms(1)]] _ assms(2)]
    by (metis due_records_set)
  from mapR_ok [OF this] show ?thesis
    by (auto simp: due_decision_def Let_def result_simps split: list.split)
qed

lemma effect_fewer_due:
  assumes "decision_effect now st d st'" and "decision_occurrences d \<noteq> []"
  shows "due_ids now st' \<subset> due_ids now st"
proof -
  have same: "i \<in> due_ids now st" if "i \<in> due_ids now st'" for i
  proof -
    from that obtain r where r: "map_get (sd_active st') i = Some r" "due_at r \<le> now" by (auto simp: due_ids_def)
    have each: "if i \<in> fst ` set (decision_occurrences d)
        then (case map_get (sd_active st') i of None \<Rightarrow> True | Some q \<Rightarrow> now < due_at q)
        else map_get (sd_active st') i = map_get (sd_active st) i"
      using assms(1) unfolding decision_effect_def by blast
    with r have "map_get (sd_active st) i = Some r" by (simp split: if_splits)
    with r(2) show ?thesis by (auto simp: due_ids_def)
  qed
  obtain i t where it: "(i, t) \<in> set (decision_occurrences d)"
    using assms(2) by (metis ex_in_conv set_empty surj_pair)
  then have "i \<in> fst ` set (decision_occurrences d)" by force
  then have "case map_get (sd_active st') i of None \<Rightarrow> True | Some q \<Rightarrow> now < due_at q"
    using assms(1) unfolding decision_effect_def by metis
  then have "i \<notin> due_ids now st'" by (auto simp: due_ids_def split: option.splits)
  moreover obtain r where "map_get (sd_active st) i = Some r" "due_at r \<le> t" "t \<le> now"
    using assms(1) it unfolding decision_effect_def by blast
  then have "i \<in> due_ids now st" by (auto simp: due_ids_def)
  ultimately show ?thesis using same by blast
qed

lemma begin_ready:
  "ready st w \<Longrightarrow> drive_begin True w = w\<lparr>rt_timer := None, rt_phase := Flushing\<rparr>"
  by (simp add: ready_def drive_begin_def clear_timer_def is_runnable_def)

lemma round_waits:
  assumes ready: "ready st w" and d: "due_decision st now = Inr (DueWait target)"
  shows "rt_phase (drive_round now w) = NoRun \<and> rt_tools (drive_round now w) = rt_tools w \<and>
    timer_covers now st (rt_timer (drive_round now w))"
proof -
  define w0 where "w0 = w\<lparr>rt_timer := None, rt_phase := Flushing\<rparr>"
  have "read_decision now w0 = (w0, Some (DueWait target))" using ready d by (simp add: w0_def ready_def read_decision_def)
  then have "drive_wake (good_env now) w0 = next_drive (arm_wait target now w0)"
    using ready by (simp add: drive_wake_def good_env_def is_runnable_def w0_def ready_def)
  moreover have "rt_phase (next_drive (arm_wait target now w0)) = NoRun" "rt_tools (arm_wait target now w0) = rt_tools w"
    using ready by (simp_all add: next_drive_def arm_wait_def arm_def w0_def ready_def split: option.split)
  ultimately show ?thesis
    using arm_covers [OF d, of w0] by (simp add: drive_round_def begin_ready [OF ready] w0_def [symmetric]) (simp add: w0_def)
qed

lemma round_dispatches:
  assumes ready: "ready st w" and d: "due_decision st now = Inr d" and "\<forall>t. d \<noteq> DueWait t" and effect: "decision_effect now st d st'"
  shows "ready st' (drive_round now w)"
proof -
  define w0 where "w0 = w\<lparr>rt_timer := None, rt_phase := Flushing\<rparr>"
  have fold: "schedule_fold (tw_session (rt_tools w)) = Inr st" and s: "session_ok (tw_session (rt_tools w))"
    using ready by (simp_all add: ready_def stream_ok_def)
  obtain u ok where app: "append_all (\<lambda>_. GateOpen) now 0 (decision_changes d) (tw_session (rt_tools w)) = (u, ok)" by (metis surj_pair)
  from append_all_cases [OF s fold _ _ app, of st'] effect
  have u: "ok" "session_ok u" "schedule_fold u = Inr st'" by (auto simp: decision_effect_def)
  have read: "read_decision now w0 = (w0, Some d)" using ready d by (simp add: w0_def ready_def read_decision_def)
  have claim: "claim (good_env now) w0 = dispatch (good_env now) d w0"
    using ready read assms(3) by (cases d) (simp_all add: claim_def good_env_def is_runnable_def w0_def ready_def)
  define w1 where "w1 = w0\<lparr>rt_delivered := rt_delivered w0 @ [\<lparr>dl_now = now, dl_decision = d, dl_text = decision_text d\<rparr>],
    rt_tools := (rt_tools w0)\<lparr>tw_session := u\<rparr>\<rparr>"
  have dispatch: "dispatch (good_env now) d w0 = (w1, True)"
    using app u(1) by (simp add: dispatch_def good_env_def w0_def w1_def Let_def)
  have "drive_wake (good_env now) w0 = (case claim (good_env now) w0 of (w'', claimed) \<Rightarrow>
      if claimed then w''\<lparr>rt_phase := Settling\<rparr> else next_drive w'')"
    using ready read assms(3) by (cases d) (simp_all add: drive_wake_def good_env_def is_runnable_def w0_def ready_def)
  then have "drive_round now w = drive_settle True True (w1\<lparr>rt_phase := Settling\<rparr>)"
    unfolding claim dispatch by (simp add: drive_round_def begin_ready [OF ready] w0_def [symmetric])
  then show ?thesis using ready u
    by (simp add: drive_settle_def is_runnable_def request_drive_def Let_def next_drive_def clear_timer_def ready_def w1_def w0_def stream_ok_def)
qed

text \<open>
  C31. Drives settle: when nothing stands in the way and the clock stands in the years 1 to 9999,
  drives that follow each other come to rest after at most one more than the reminders that are
  due; then the run has ended, no active reminder of the log is due, and a timer covers the ones left.
\<close>

theorem drives_settle:
  assumes "ready st w" and "in_range now"
  shows "\<exists>k \<le> Suc (card (due_ids now st)). \<exists>st'.
    rt_phase ((drive_round now ^^ k) w) = NoRun \<and>
    schedule_fold (tw_session (rt_tools ((drive_round now ^^ k) w))) = Inr st' \<and> due_ids now st' = {} \<and>
    timer_covers now st' (rt_timer ((drive_round now ^^ k) w))"
  using assms(1)
proof (induction "card (due_ids now st)" arbitrary: st w rule: less_induct)
  case less
  have fold: "schedule_fold (tw_session (rt_tools w)) = Inr st" using less.prems by (simp add: ready_def)
  have ok: "state_ok st" using fold by (rule fold_state_ok)
  obtain d where d: "due_decision st now = Inr d" using decision_defined [OF ok assms(2)] by blast
  show ?case
  proof (cases "\<exists>target. d = DueWait target")
    case True
    then obtain target where wait: "due_decision st now = Inr (DueWait target)" using d by blast
    have "due_ids now st = {}" using due_wait [OF wait] by (fastforce simp: due_ids_def dest: map_get_values)
    with round_waits [OF less.prems wait] fold show ?thesis by (intro exI [of _ 1]) simp
  next
    case False
    with due_decision_effect [OF ok d] obtain st' where effect: "decision_effect now st d st'" "decision_occurrences d \<noteq> []" by blast
    have fewer: "card (due_ids now st') < card (due_ids now st)"
      by (rule psubset_card_mono [OF due_ids_finite effect_fewer_due [OF effect]])
    have "ready st' (drive_round now w)" using round_dispatches [OF less.prems d _ effect(1)] False by blast
    from less.hyps [OF fewer this] obtain k st2 where "k \<le> Suc (card (due_ids now st'))"
        "rt_phase ((drive_round now ^^ k) (drive_round now w)) = NoRun"
        "schedule_fold (tw_session (rt_tools ((drive_round now ^^ k) (drive_round now w)))) = Inr st2" "due_ids now st2 = {}"
        "timer_covers now st2 (rt_timer ((drive_round now ^^ k) (drive_round now w)))" by blast
    with fewer show ?thesis by (intro exI [of _ "Suc k"] conjI exI [of _ st2]) (simp_all add: funpow_swap1)
  qed
qed

lemma drives_settle_witness:
  "\<exists>k st'. rt_phase ((drive_round 1709202600000 ^^ k) (sample_waiting\<lparr>rt_phase := Queued\<rparr>)) = NoRun \<and>
    schedule_fold (tw_session (rt_tools ((drive_round 1709202600000 ^^ k) (sample_waiting\<lparr>rt_phase := Queued\<rparr>)))) = Inr st' \<and>
    due_ids 1709202600000 st' = {}"
proof -
  have "stream_ok (rt_tools sample_waiting)"
    using sample_created_stream by (simp add: sample_waiting_def fresh_runtime_def)
  then obtain st where "ready st (sample_waiting\<lparr>rt_phase := Queued\<rparr>)"
    by (auto simp: ready_def stream_ok_def is_ok_iff sample_waiting_def fresh_runtime_def)
  moreover have "in_range 1709202600000" by (simp add: in_range_def min_instant_def max_instant_def)
  ultimately show ?thesis using drives_settle by blast
qed

end
