(* ===== verification/Spec2Isabelle.thy ===== *)
theory Spec2Isabelle
  imports GoalService ChunkRows TeamService ScheduleDrives
begin

text \<open>
  Verification development of the DeepSeek Harness (\<open>src/packages\<close>, TypeScript).

  The harness keeps everything an agent does in append-only logs of events and derives all other
  state from them by folds. A Session (\<open>core/session\<close>) is such a log; the messages the model sees,
  the request header, the repair of an interrupted turn and the record format on disk are functions
  of it. Further domains log into the same Session and replay it: goals (\<open>goal/goal\<close>), TeamRuns
  (\<open>collaboration/agent-team\<close>) and reminders (\<open>schedule/schedule\<close>). The development models these
  domains from the source, and proves for Sessions, goals and TeamRuns that commands and replay agree.

  \<^bold>\<open>Theories and sources.\<close>

  \<^item> \<open>Prelude\<close>: results (\<open>bindR\<close>, \<open>foldR\<close>, \<open>throw_if\<close>), insertion-ordered maps of JavaScript,
    safe integers and the collection \<open>result_simps\<close> that inverts results. \<open>EventReplay\<close>: the locales of
    a log replayed by a fallible step (\<open>replay\<close>) and their laws (append, invariants, histories).
    \<open>JsText\<close>: white space, UTF-8 length, numerals.
  \<^item> \<open>JsonValue\<close>, \<open>SessionTypes\<close>: \<open>json.ts\<close>, \<open>types.ts\<close>, \<open>llm/llm/src/message.ts\<close>; messages,
    chunks and session events.
  \<^item> \<open>Surface\<close>: \<open>surface.ts\<close>; validation of replacements, the complete fold and the incremental
    \<open>SurfaceManager\<close>. The manager refines the fold (same nodes, same generation, same error).
  \<^item> \<open>SessionTrace\<close>, \<open>Repair\<close>: \<open>invariant.ts\<close>, \<open>repair.ts\<close>; brackets of turns and steps, pending
    tool calls, and the events that close an interrupted log: one result for each call that is
    unanswered in the log, then the ends of the step and the turn.
  \<^item> \<open>RequestHeader\<close>, \<open>SessionLog\<close>: \<open>request-header.ts\<close> and class \<open>Session\<close> of \<open>index.ts\<close>; the
    log with its caches. What an append meets at the store (nothing, an open publication, a refusing
    dispatch handler) is the argument \<open>append_gate\<close>.
  \<^item> \<open>SessionStore\<close>: class \<open>SessionStore\<close> of \<open>index.ts\<close>; entries, announcements, deferred detaching,
    fresh ids and forks. Listeners may call back between the begin and end operations, which are
    therefore separate and interleave freely.
  \<^item> \<open>ChunkRows\<close>: \<open>chunk-rows.ts\<close>; packing of stream deltas into rows and back, with the dispatch of
    the reader on the type of a line.
  \<^item> \<open>GoalFold\<close>, \<open>GoalService\<close>: \<open>goal/goal/src/fold.ts\<close> and \<open>index.ts\<close>; decoder, transitions, the
    service with its cache and activation, and an abstract goal machine it refines.
  \<^item> \<open>TeamTypes\<close>, \<open>TaskGraph\<close>, \<open>TeamState\<close>, \<open>TeamFold\<close>: \<open>types.ts\<close>, \<open>validation.ts\<close>, \<open>policy.ts\<close>,
    \<open>authority.ts\<close>, \<open>task-graph.ts\<close> and the replay of \<open>fold.ts\<close>. \<open>TeamInvariant\<close>, \<open>TeamProtocol\<close>,
    \<open>TeamRun\<close>: the invariants of a replayed run (roster, board, ledgers, conversation, identities)
    and its lifecycle order. \<open>TeamGuarantees\<close>: what they mean for capacity, progress and limits.
  \<^item> \<open>TeamBoard\<close>: \<open>task-board.ts\<close>. \<open>TeamProjection\<close>: the snapshot half of \<open>fold.ts\<close>.
    \<open>TeamCommands\<close>: every command of \<open>agent-team/src/index.ts\<close> up to its write. \<open>TeamStaging\<close>: a batch
    validated at one set of clock readings replays at any other. \<open>TeamService\<close>: the journal
    (\<open>journal.ts\<close>), authority, and the queue of a Lead as a step relation; it also relates what a
    member may publish to what the replay accepts.

  \<^item> \<open>ScheduleTime\<close>, \<open>ScheduleZone\<close>, \<open>ScheduleFold\<close>: \<open>schedule/schedule/src/domain.ts\<close>; the calendar
    of \<open>Date\<close> as ECMAScript defines it, canonical and offset instants, the choice of an instant for a
    local time, the durable format of reminders, the decision of a fixed-rate rule, the fold of a log,
    creation and delivery texts. \<open>ScheduleLaws\<close>: the invariant of a folded log, that ended reminders
    stay ended, exactness of the format and of fixed-rate decisions. \<open>ScheduleText\<close>: a prompt cannot
    forge the text that delivers it. \<open>ScheduleTools\<close>: the three tools of \<open>tools.ts\<close> over a Session;
    the log gains what a result says and always folds. \<open>ScheduleRuntime\<close>, \<open>ScheduleDrives\<close>:
    \<open>runtime.ts\<close> as segments between awaits that interleave as a step relation with tools, timers
    and other appends; no occurrence is delivered twice, timers do not oversleep, drives settle. The
    step relation is one lifetime of one runtime, from its construction to its disposal. What
    \<open>Intl.DateTimeFormat\<close> knows of time zones is the parameter \<open>zone_db\<close>; the hypotheses on it are
    \<open>zone_known\<close>, which asks nothing of how years before 1 are shown, and \<open>offsets_sampled\<close>.

  \<^bold>\<open>How state and effects are modelled.\<close> A class is a record of its fields and each method a function
  from the state to the new state and its result; an exception is \<open>Inl\<close> with its text or code. JavaScript
  maps and sets are association lists in insertion order. Numbers are integers with the tests for safe
  integers written out. Objects that the code compares by identity carry a number as their address.
  What the code reads from outside is an argument: clock readings, the identities drawn from
  \<open>randomUUID\<close>, whether a flush succeeds, whether a listener throws. A payload that \<open>schema.ts\<close> decodes
  enters the replay as the outcome of the decoding. Error texts are shortened.

  \<^bold>\<open>Loops.\<close> All loops run over lists and are structural, except the work list of the task graph
  (bounded by the number of edges, proved total), and the search for a free session id, which takes the
  number of live ids plus one as fuel and is proved to end with an unused id within it. The search for
  a free reminder id takes the number of used ids plus one as fuel, proved enough.

  \<^bold>\<open>Not modelled.\<close> Wire decoding with zod, deep freezing and cloning of values (values here are
  immutable), the event bus and its disposers, persistence files, model adapters, tools, the agent loop,
  the registration of tools, the promise queue of reminder transactions, the host and the user
  interface: they are input and output, concurrency of promises, or clients of the modelled domains.
  The queue of a Lead's transactions is modelled as a list; the flush is a single outcome per write.
  A batch of TeamRun events is appended as a whole once it has been validated: an append that throws
  in the middle of it (a dispatch handler that refuses one of its events) is not modelled. Of the
  reminder runtime the path on which a drive rejects for a reason other than the ones written as
  segments is not modelled, nor a crash and restart between a delivery and its record, after which
  the same occurrence is delivered again. A stored JSON object that is neither an event nor tagged
  as a row, which the reader passes through unchecked, has no form.
\<close>

end
